(* ===== verification/Prelude.thy ===== *)
theory Prelude
  imports Main "HOL-Library.Word" "HOL-Library.AList"
begin

text \<open>
  Shared vocabulary of the development: the integer types of the source, fallible results and
  the \<open>?\<close> operator, the parts of Rust's string library that the address and framing code
  uses, and the generic list facts the components share.

  A Rust \<open>str\<close> or byte slice that carries text is a HOL \<open>string\<close>, one \<open>char\<close> per
  UTF-8 byte, so \<open>length\<close> is Rust's \<open>len()\<close>. Bytes that are only numbers (addresses, ports,
  fingerprints) are \<open>8 word\<close>s.
\<close>

type_synonym u8 = "8 word"
type_synonym u16 = "16 word"
type_synonym u32 = "32 word"
type_synonym u64 = "64 word"
type_synonym u128 = "128 word"

text \<open>Rewrite rules that normalise fallible code, and those that hold of every state component.\<close>

named_theorems result_simps \<open>inversion of results of fallible operations\<close>

section \<open>Fallible results\<close>

type_synonym ('e, 'a) result = "'e + 'a"

text \<open>Rust's \<open>?\<close>: stop at the first error, otherwise go on with the value.\<close>

fun and_then :: "('e, 'a) result \<Rightarrow> ('a \<Rightarrow> ('e, 'b) result) \<Rightarrow> ('e, 'b) result" where
  "and_then (Inl e) f = Inl e"
| "and_then (Inr a) f = f a"

fun map_err :: "('e \<Rightarrow> 'f) \<Rightarrow> ('e, 'a) result \<Rightarrow> ('f, 'a) result" where
  "map_err g (Inl e) = Inl (g e)"
| "map_err g (Inr a) = Inr a"

fun ok_or :: "'e \<Rightarrow> 'a option \<Rightarrow> ('e, 'a) result" where
  "ok_or e None = Inl e"
| "ok_or e (Some a) = Inr a"

fun is_ok :: "('e, 'a) result \<Rightarrow> bool" where
  "is_ok (Inl e) = False"
| "is_ok (Inr a) = True"

lemma and_then_Inr [result_simps]:
  "and_then r f = Inr b \<longleftrightarrow> (\<exists>a. r = Inr a \<and> f a = Inr b)"
  by (cases r) auto

lemma and_then_Inl [result_simps]:
  "and_then r f = Inl e \<longleftrightarrow> r = Inl e \<or> (\<exists>a. r = Inr a \<and> f a = Inl e)"
  by (cases r) auto

lemma map_err_Inr [result_simps]: "map_err g r = Inr a \<longleftrightarrow> r = Inr a"
  by (cases r) auto

lemma map_err_Inl [result_simps]: "map_err g r = Inl e \<longleftrightarrow> (\<exists>d. r = Inl d \<and> e = g d)"
  by (cases r) auto

lemma ok_or_Inr [result_simps]: "ok_or e x = Inr a \<longleftrightarrow> x = Some a"
  by (cases x) auto

lemma ok_or_Inl [result_simps]: "ok_or e x = Inl d \<longleftrightarrow> x = None \<and> d = e"
  by (cases x) auto

text \<open>A fallible step for every element in order, and the search for a repeated key in a loop.\<close>

fun traverse :: "('a \<Rightarrow> ('e, 'b) result) \<Rightarrow> 'a list \<Rightarrow> ('e, 'b list) result" where
  "traverse f [] = Inr []"
| "traverse f (x # xs) = and_then (f x) (\<lambda>y. and_then (traverse f xs) (\<lambda>ys. Inr (y # ys)))"

fun check_unique :: "('k \<Rightarrow> 'e) \<Rightarrow> 'k set \<Rightarrow> 'k list \<Rightarrow> ('e, unit) result" where
  "check_unique err seen [] = Inr ()"
| "check_unique err seen (k # ks) =
     (if k \<in> seen then Inl (err k) else check_unique err (insert k seen) ks)"

lemma traverse_Inr [result_simps]:
  "traverse f xs = Inr ys \<longleftrightarrow> list_all2 (\<lambda>x y. f x = Inr y) xs ys"
proof (induction xs arbitrary: ys)
  case (Cons x xs)
  then show ?case by (cases ys) (auto simp: result_simps)
qed auto

lemma check_unique_Inr [result_simps]:
  "check_unique err seen ks = Inr u \<longleftrightarrow> distinct ks \<and> set ks \<inter> seen = {}"
  by (induction ks arbitrary: seen) auto

lemma check_unique_fresh [simp]: "check_unique err {} ks = Inr u \<longleftrightarrow> distinct ks"
  by (simp add: check_unique_Inr)

section \<open>Counters\<close>

lemma less_next_u64:
  assumes "(x :: u64) + 1 \<noteq> 0"
  shows "i < x + 1 \<longleftrightarrow> i \<le> x"
proof -
  have "unat (x + 1) = Suc (unat x)" using assms unatSuc [of x] by (simp add: add.commute)
  then show ?thesis by (simp add: word_less_nat_alt word_le_nat_alt less_Suc_eq_le)
qed

lemma u64_next: "(p :: u64) \<noteq> - 1 \<Longrightarrow> p < p + 1 \<and> 0 < p + 1"
  using less_next_u64 [of p p] by (metis add.commute eq_neg_iff_add_eq_0 order_refl word_gt_0)

section \<open>ASCII characters\<close>

abbreviation code :: "char \<Rightarrow> nat" where
  "code c \<equiv> of_char c"

definition is_ascii :: "string \<Rightarrow> bool" where
  "is_ascii s = list_all (\<lambda>c. code c < 128) s"

definition is_ascii_lowercase :: "char \<Rightarrow> bool" where
  "is_ascii_lowercase c = (97 \<le> code c \<and> code c \<le> 122)"

definition is_ascii_uppercase :: "char \<Rightarrow> bool" where
  "is_ascii_uppercase c = (65 \<le> code c \<and> code c \<le> 90)"

definition is_ascii_digit :: "char \<Rightarrow> bool" where
  "is_ascii_digit c = (48 \<le> code c \<and> code c \<le> 57)"

definition to_ascii_lowercase :: "char \<Rightarrow> char" where
  "to_ascii_lowercase c = (if is_ascii_uppercase c then char_of (code c + 32) else c)"

lemmas ascii_defs =
  is_ascii_lowercase_def is_ascii_uppercase_def is_ascii_digit_def

section \<open>String slicing\<close>

text \<open>\<open>str::split\<close>, \<open>split_once\<close>, \<open>rsplit_once\<close> and \<open>trim_end_matches\<close> for one character.\<close>

fun split_on :: "char \<Rightarrow> string \<Rightarrow> string list" where
  "split_on c [] = [[]]"
| "split_on c (x # xs) =
     (if x = c then [] # split_on c xs
      else (x # hd (split_on c xs)) # tl (split_on c xs))"

fun split_once :: "char \<Rightarrow> string \<Rightarrow> (string \<times> string) option" where
  "split_once c [] = None"
| "split_once c (x # xs) =
     (if x = c then Some ([], xs)
      else map_option (\<lambda>(a, b). (x # a, b)) (split_once c xs))"

definition rsplit_once :: "char \<Rightarrow> string \<Rightarrow> (string \<times> string) option" where
  "rsplit_once c s = map_option (\<lambda>(a, b). (rev b, rev a)) (split_once c (rev s))"

definition trim_end_matches :: "char \<Rightarrow> string \<Rightarrow> string" where
  "trim_end_matches c s = rev (dropWhile (\<lambda>x. x = c) (rev s))"

definition starts_with :: "char \<Rightarrow> string \<Rightarrow> bool" where
  "starts_with c s = (s \<noteq> [] \<and> hd s = c)"

definition ends_with :: "char \<Rightarrow> string \<Rightarrow> bool" where
  "ends_with c s = (s \<noteq> [] \<and> last s = c)"

lemma split_on_not_Nil [simp]: "split_on c s \<noteq> []"
  by (cases s) auto

lemma split_on_labels: "l \<in> set (split_on c s) \<Longrightarrow> c \<notin> set l \<and> set l \<subseteq> set s"
proof (induction s arbitrary: l)
  case Nil
  then show ?case by simp
next
  case (Cons x xs)
  show ?case
  proof (cases "x = c")
    case True
    with Cons show ?thesis by fastforce
  next
    case False
    have "hd (split_on c xs) \<in> set (split_on c xs)" by simp
    with Cons.IH have hd: "c \<notin> set (hd (split_on c xs)) \<and> set (hd (split_on c xs)) \<subseteq> set xs"
      by blast
    from Cons.prems False consider
        "l = x # hd (split_on c xs)" | "l \<in> set (tl (split_on c xs))" by auto
    then show ?thesis
    proof cases
      case 1
      with hd False show ?thesis by auto
    next
      case 2
      then have "l \<in> set (split_on c xs)" by (rule list.set_sel(2) [OF split_on_not_Nil])
      with Cons.IH show ?thesis by auto
    qed
  qed
qed

lemma split_on_no_sep: "c \<notin> set s \<Longrightarrow> split_on c s = [s]"
  by (induction s) auto

lemma split_on_append_sep: "c \<notin> set s \<Longrightarrow> split_on c (s @ c # t) = s # split_on c t"
  by (induction s) auto

lemma in_split_on: "x \<in> set s \<Longrightarrow> x \<noteq> c \<Longrightarrow> \<exists>l\<in>set (split_on c s). x \<in> set l"
proof (induction s)
  case (Cons y ys)
  show ?case
  proof (cases "x = y")
    case True
    with Cons.prems show ?thesis by auto
  next
    case False
    with Cons obtain l where l: "l \<in> set (split_on c ys)" "x \<in> set l" by auto
    then have "l = hd (split_on c ys) \<or> l \<in> set (tl (split_on c ys))"
      by (cases "split_on c ys") auto
    with l show ?thesis by auto
  qed
qed simp

lemma split_once_Some:
  "split_once c s = Some (a, b) \<longleftrightarrow> s = a @ c # b \<and> c \<notin> set a"
proof (induction s arbitrary: a)
  case (Cons x xs)
  then show ?case by (cases a) auto
qed simp

lemma split_once_None: "split_once c s = None \<longleftrightarrow> c \<notin> set s"
  by (induction s) auto

lemma rsplit_once_Some:
  "rsplit_once c s = Some (a, b) \<longleftrightarrow> s = a @ c # b \<and> c \<notin> set b"
proof -
  have "rsplit_once c s = Some (a, b) \<longleftrightarrow> split_once c (rev s) = Some (rev b, rev a)"
    by (auto simp: rsplit_once_def)
  also have "\<dots> \<longleftrightarrow> s = a @ c # b \<and> c \<notin> set b"
    unfolding split_once_Some by (metis rev_append rev_rev_ident rev.simps(2) append.assoc
      append_Cons append_Nil set_rev)
  finally show ?thesis .
qed

lemma rsplit_once_None: "rsplit_once c s = None \<longleftrightarrow> c \<notin> set s"
  by (simp add: rsplit_once_def split_once_None)

lemma trim_end_matches_set: "set (trim_end_matches c s) \<subseteq> set s"
  by (auto simp: trim_end_matches_def dest: set_dropWhileD)

lemma trim_end_matches_last:
  "trim_end_matches c s = [] \<or> last (trim_end_matches c s) \<noteq> c"
  using hd_dropWhile [of "\<lambda>x. x = c" "rev s"]
  by (auto simp: trim_end_matches_def last_rev)

lemma trim_end_matches_id: "\<not> ends_with c s \<Longrightarrow> trim_end_matches c s = s"
  by (cases s rule: rev_cases) (auto simp: trim_end_matches_def ends_with_def)

lemma to_ascii_lowercase_not_upper [simp]: "\<not> is_ascii_uppercase (to_ascii_lowercase c)"
  by (auto simp: to_ascii_lowercase_def is_ascii_uppercase_def)

lemma to_ascii_lowercase_id: "\<not> is_ascii_uppercase c \<Longrightarrow> to_ascii_lowercase c = c"
  by (simp add: to_ascii_lowercase_def)

lemma to_ascii_lowercase_idem [simp]:
  "to_ascii_lowercase (to_ascii_lowercase c) = to_ascii_lowercase c"
  by (simp add: to_ascii_lowercase_id)

section \<open>Decimal and hexadecimal numbers\<close>

text \<open>\<open>char::to_digit\<close>: letters count from ten in either case, and only digits below the radix.\<close>

definition digit_value :: "char \<Rightarrow> nat option" where
  "digit_value c =
     (if is_ascii_digit c then Some (code c - 48)
      else if 97 \<le> code c \<and> code c \<le> 122 then Some (code c - 87)
      else if 65 \<le> code c \<and> code c \<le> 90 then Some (code c - 55)
      else None)"

definition to_digit :: "nat \<Rightarrow> char \<Rightarrow> nat option" where
  "to_digit radix c =
     (case digit_value c of None \<Rightarrow> None | Some d \<Rightarrow> if d < radix then Some d else None)"

fun radix_value :: "nat \<Rightarrow> nat \<Rightarrow> string \<Rightarrow> nat option" where
  "radix_value radix acc [] = Some acc"
| "radix_value radix acc (c # s) =
     (case to_digit radix c of None \<Rightarrow> None | Some d \<Rightarrow> radix_value radix (acc * radix + d) s)"

text \<open>
  \<open>from_str_radix\<close> of an unsigned type with a largest value: an optional \<open>+\<close>, then one
  or more digits, then an overflow check. A digit never lowers the running value, so the value
  overflows on the way exactly when the final value does.
\<close>

definition from_str_radix :: "nat \<Rightarrow> nat \<Rightarrow> string \<Rightarrow> nat option" where
  "from_str_radix radix largest s =
     (let body = (if starts_with (CHR ''+'') s then tl s else s)
      in if body = [] then None
         else case radix_value radix 0 body of
                None \<Rightarrow> None
              | Some n \<Rightarrow> if n \<le> largest then Some n else None)"

abbreviation parse_u8 :: "string \<Rightarrow> nat option" where
  "parse_u8 \<equiv> from_str_radix 10 255"

abbreviation parse_u16 :: "string \<Rightarrow> nat option" where
  "parse_u16 \<equiv> from_str_radix 10 65535"

lemma from_str_radix_bound: "from_str_radix r m s = Some n \<Longrightarrow> n \<le> m"
  by (auto simp: from_str_radix_def Let_def split: if_splits option.splits)

section \<open>Printed values that are parsed back\<close>

text \<open>
  The contract of a \<open>Display\<close>/\<open>FromStr\<close> pair: printed values parse back, and in the
  canonical case nothing but a printed value is accepted, so text and value determine each other.
\<close>

locale text_format =
  fixes wf :: "'a \<Rightarrow> bool"
    and display :: "'a \<Rightarrow> string"
    and parse :: "string \<Rightarrow> ('e, 'a) result"
  assumes parse_display: "wf x \<Longrightarrow> parse (display x) = Inr x"
    and parse_wf: "parse s = Inr x \<Longrightarrow> wf x"
begin

lemma display_inject: "wf x \<Longrightarrow> wf y \<Longrightarrow> display x = display y \<longleftrightarrow> x = y"
  by (metis parse_display sum.inject(2))

lemma reparse: "parse s = Inr x \<Longrightarrow> parse (display x) = Inr x"
  by (simp add: parse_display parse_wf)

end

locale canonical_text_format = text_format wf display parse
  for wf :: "'a \<Rightarrow> bool" and display :: "'a \<Rightarrow> string" and parse :: "string \<Rightarrow> ('e, 'a) result" +
  assumes display_parse: "parse s = Inr x \<Longrightarrow> display x = s"
begin

lemma parse_iff: "parse s = Inr x \<longleftrightarrow> wf x \<and> s = display x"
  using parse_display parse_wf display_parse by blast

lemma parse_inject: "parse s = Inr x \<Longrightarrow> parse t = Inr x \<Longrightarrow> s = t"
  by (simp add: parse_iff)

end

end
