(* ===== verification/Ip_Address.thy ===== *)
theory Ip_Address
  imports Prelude
begin

text \<open>
  Internet addresses as \<open>std::net\<close> represents and parses them. Hostname validation
  (\<open>src/src/hostname.rs\<close>) rejects whatever parses as an \<open>IpAddr\<close>, and the trusted-network
  configuration (\<open>src/src/proxy_protocol.rs\<close>) reads its CIDR prefix with the same parser, so the
  parser's exact language matters to both. An address is kept as its big-endian value.
\<close>

datatype ip_addr = V4 u32 | V6 u128

record socket_addr =
  ip :: ip_addr
  port :: u16

definition is_ipv4 :: "ip_addr \<Rightarrow> bool" where
  "is_ipv4 a = (case a of V4 _ \<Rightarrow> True | V6 _ \<Rightarrow> False)"

section \<open>Big-endian bytes\<close>

text \<open>\<open>to_be_bytes\<close>/\<open>octets\<close> and \<open>from_be_bytes\<close>, on the unsigned value of a word.\<close>

fun be_bytes :: "nat \<Rightarrow> nat \<Rightarrow> u8 list" where
  "be_bytes 0 n = []"
| "be_bytes (Suc k) n = word_of_nat (n div 256 ^ k) # be_bytes k n"

definition be_value :: "u8 list \<Rightarrow> nat" where
  "be_value bs = foldl (\<lambda>acc b. acc * 256 + unat b) 0 bs"

lemmas be_bytes_numeral =
  be_bytes.simps(2) [of "pred_numeral k" for k, folded numeral_eq_Suc]

lemma length_be_bytes [simp]: "length (be_bytes k n) = k"
  by (induction k) auto

lemma be_value_acc:
  "foldl (\<lambda>acc b. acc * 256 + unat b) a bs = a * 256 ^ length bs + be_value (bs :: u8 list)"
proof (induction bs arbitrary: a)
  case Nil
  then show ?case by (simp add: be_value_def)
next
  case (Cons b bs)
  have "be_value (b # bs) = unat b * 256 ^ length bs + be_value bs"
    using Cons [of "unat b"] by (simp add: be_value_def)
  with Cons [of "a * 256 + unat b"] show ?case by (simp add: algebra_simps)
qed

lemma be_value_Nil [simp]: "be_value [] = 0"
  by (simp add: be_value_def)

lemma be_value_Cons [simp]: "be_value (b # bs) = unat b * 256 ^ length bs + be_value bs"
  using be_value_acc [of "unat b" bs] by (simp add: be_value_def)

lemma be_value_less: "be_value bs < 256 ^ length bs"
proof (induction bs)
  case (Cons b bs)
  have "unat b < 256" using unsigned_less [of b, where 'a = nat] by simp
  then have "unat b + 1 \<le> 256" by simp
  then have "(unat b + 1) * 256 ^ length bs \<le> 256 * 256 ^ length bs"
    by (rule mult_le_mono1)
  then have "unat b * 256 ^ length bs + 256 ^ length bs \<le> 256 * 256 ^ length bs"
    by (simp only: add_mult_distrib mult_1)
  with Cons show ?case by (simp only: be_value_Cons length_Cons power_Suc)
qed simp

lemma be_value_be_bytes: "be_value (be_bytes k n) = n mod 256 ^ k"
proof (induction k)
  case (Suc k)
  have "n mod 256 ^ Suc k = 256 ^ k * (n div 256 ^ k mod 256) + n mod 256 ^ k"
    using mod_mult2_eq [of n "256 ^ k" 256] by (simp add: mult.commute)
  moreover have "unat (word_of_nat (n div 256 ^ k) :: u8) = n div 256 ^ k mod 256"
    by (simp add: unat_of_nat)
  ultimately show ?case using Suc by (simp add: mult.commute)
qed simp

lemma be_bytes_high: "k \<le> j \<Longrightarrow> be_bytes k (a * 256 ^ j + n) = be_bytes k n"
proof (induction k)
  case (Suc k)
  define d where "d = j - Suc k"
  with Suc.prems have j: "j = k + Suc d" by simp
  have "(a * 256 ^ j + n) div 256 ^ k = a * 256 ^ Suc d + n div 256 ^ k"
  proof -
    have "a * 256 ^ j + n = n + (a * 256 ^ Suc d) * 256 ^ k"
      by (simp add: j power_add)
    then show ?thesis by (simp only: div_mult_self1 [of "256 ^ k :: nat"] add.commute
      power_eq_0_iff) simp
  qed
  moreover have "(word_of_nat (a * 256 ^ Suc d) :: u8) = 0"
  proof -
    have z: "(256 :: u8) = 0" by simp
    have "(word_of_nat (a * 256 ^ Suc d) :: u8) = word_of_nat a * (256 * 256 ^ d)"
      by (simp only: of_nat_mult of_nat_power of_nat_numeral power_Suc)
    then show ?thesis by (simp only: z mult_zero_left mult_zero_right)
  qed
  ultimately show ?case using Suc by simp
qed simp

lemma be_bytes_be_value: "be_bytes (length bs) (be_value bs) = bs"
proof (induction bs)
  case (Cons b bs)
  have "be_value bs < 256 ^ length bs" by (rule be_value_less)
  then have "be_value (b # bs) div 256 ^ length bs = unat b" by simp
  with Cons show ?case
    using be_bytes_high [of "length bs" "length bs" "unat b" "be_value bs"] by simp
qed simp

section \<open>The standard library's address parser\<close>

text \<open>
  \<open>std::net\<close>'s recursive-descent parser: a reader takes the remaining bytes and returns a value
  with what is left, or nothing without consuming (\<open>read_atomically\<close>).
\<close>

type_synonym 'a reader = "string \<Rightarrow> ('a \<times> string) option"

definition read_given_char :: "char \<Rightarrow> unit reader" where
  "read_given_char c s = (case s of [] \<Rightarrow> None | x # xs \<Rightarrow> if x = c then Some ((), xs) else None)"

definition read_separator :: "char \<Rightarrow> nat \<Rightarrow> 'a reader \<Rightarrow> 'a reader" where
  "read_separator sep index inner s =
     (if index = 0 then inner s
      else case read_given_char sep s of None \<Rightarrow> None | Some (_, s') \<Rightarrow> inner s')"

fun read_digits :: "nat \<Rightarrow> nat \<Rightarrow> nat \<Rightarrow> nat \<Rightarrow> (nat \<times> nat) reader" where
  "read_digits radix max_digits acc count [] = Some ((acc, count), [])"
| "read_digits radix max_digits acc count (c # s) =
     (case to_digit radix c of
        None \<Rightarrow> Some ((acc, count), c # s)
      | Some d \<Rightarrow>
          if Suc count > max_digits then None
          else read_digits radix max_digits (acc * radix + d) (Suc count) s)"

definition read_number :: "nat \<Rightarrow> nat \<Rightarrow> bool \<Rightarrow> nat \<Rightarrow> nat reader" where
  "read_number radix max_digits allow_zero_prefix bound s =
     (case read_digits radix max_digits 0 0 s of
        None \<Rightarrow> None
      | Some ((value, digit_count), rest) \<Rightarrow>
          if digit_count = 0 then None
          else if \<not> allow_zero_prefix \<and> hd s = CHR ''0'' \<and> digit_count > 1 then None
          else if value < bound then Some (value, rest) else None)"

text \<open>Octets \<open>index\<close> to 3 of a dotted quad, as one list.\<close>

fun read_octets :: "nat \<Rightarrow> nat \<Rightarrow> nat list reader" where
  "read_octets 0 index s = Some ([], s)"
| "read_octets (Suc n) index s =
     (case read_separator (CHR ''.'') index (read_number 10 3 False 256) s of
        None \<Rightarrow> None
      | Some (octet, s') \<Rightarrow>
          (case read_octets n (Suc index) s' of
             None \<Rightarrow> None
           | Some (octets, s'') \<Rightarrow> Some (octet # octets, s'')))"

definition read_ipv4_addr :: "nat list reader" where
  "read_ipv4_addr = read_octets 4 0"

text \<open>
  One run of colon-separated groups, at most \<open>n\<close> more of them; a dotted quad may stand for the
  last two. The flag tells whether it did.
\<close>

fun read_groups :: "nat \<Rightarrow> nat \<Rightarrow> string \<Rightarrow> nat list \<times> bool \<times> string" where
  "read_groups 0 index s = ([], False, s)"
| "read_groups (Suc n) index s =
     (case (if 0 < n then read_separator (CHR '':'') index read_ipv4_addr s else None) of
        Some (octets, rest) \<Rightarrow>
          ([octets ! 0 * 256 + octets ! 1, octets ! 2 * 256 + octets ! 3], True, rest)
      | None \<Rightarrow>
          (case read_separator (CHR '':'') index (read_number 16 4 True 65536) s of
             None \<Rightarrow> ([], False, s)
           | Some (grp, rest) \<Rightarrow>
               (let (groups, ipv4, rest') = read_groups n (Suc index) rest
                in (grp # groups, ipv4, rest'))))"

definition read_ipv6_addr :: "nat list reader" where
  "read_ipv6_addr s =
     (let (head, head_ipv4, s1) = read_groups 8 0 s
      in if length head = 8 then Some (head, s1)
         else if head_ipv4 then None
         else case read_given_char (CHR '':'') s1 of
                None \<Rightarrow> None
              | Some (_, s2) \<Rightarrow>
                  (case read_given_char (CHR '':'') s2 of
                     None \<Rightarrow> None
                   | Some (_, s3) \<Rightarrow>
                       (let (tail, tail_ipv4, s4) = read_groups (8 - (length head + 1)) 0 s3
                        in Some (head @ replicate (8 - (length head + length tail)) 0 @ tail,
                                 s4))))"

text \<open>The value of a list of digits in a given base, most significant first.\<close>

definition digits_value :: "nat \<Rightarrow> nat list \<Rightarrow> nat" where
  "digits_value base ds = foldl (\<lambda>acc d. acc * base + d) 0 ds"

text \<open>\<open>str::parse::<IpAddr>()\<close>: the IPv4 reader first, then the IPv6 reader, and no rest.\<close>

definition parse_ip_addr :: "string \<Rightarrow> ip_addr option" where
  "parse_ip_addr s =
     (case read_ipv4_addr s of
        Some (octets, rest) \<Rightarrow>
          if rest = [] then Some (V4 (word_of_nat (digits_value 256 octets))) else None
      | None \<Rightarrow>
          (case read_ipv6_addr s of
             None \<Rightarrow> None
           | Some (groups, rest) \<Rightarrow>
               if rest = [] then Some (V6 (word_of_nat (digits_value 65536 groups))) else None))"

text \<open>A reader only ever returns characters of its input.\<close>

lemma read_digits_rest: "read_digits r m a k s = Some (v, t) \<Longrightarrow> set t \<subseteq> set s"
  by (induction r m a k s rule: read_digits.induct) (auto split: option.splits if_splits)

lemma read_number_rest: "read_number r m z b s = Some (v, t) \<Longrightarrow> set t \<subseteq> set s"
  by (auto simp: read_number_def dest: read_digits_rest [THEN subsetD] split: option.splits if_splits)

lemma read_given_char_Some:
  "read_given_char c s = Some (u, t) \<longleftrightarrow> s = c # t"
  by (auto simp: read_given_char_def split: list.splits)

lemma read_separator_rest:
  assumes "\<And>v t s. inner s = Some (v, t) \<Longrightarrow> set t \<subseteq> set s"
    and "read_separator c i inner s = Some (v, t)"
  shows "set t \<subseteq> set s"
  using assms by (fastforce simp: read_separator_def read_given_char_Some
    split: if_splits option.splits)

lemma read_separator_absent:
  "0 < i \<Longrightarrow> c \<notin> set s \<Longrightarrow> read_separator c i inner s = None"
  by (auto simp: read_separator_def read_given_char_def split: list.splits option.splits)

lemma read_octets_rest: "read_octets n i s = Some (v, t) \<Longrightarrow> set t \<subseteq> set s"
proof (induction n i s arbitrary: v rule: read_octets.induct)
  case (2 n i s)
  then obtain x s' where
    x: "read_separator (CHR ''.'') i (read_number 10 3 False 256) s = Some (x, s')"
    by (auto split: option.splits)
  then have "set s' \<subseteq> set s" by (rule read_separator_rest [rotated]) (rule read_number_rest)
  moreover from 2 x have "set t \<subseteq> set s'" by (fastforce split: option.splits)
  ultimately show ?case by blast
qed simp

lemma read_groups_no_colon:
  assumes "CHR '':'' \<notin> set s"
  shows "0 < i \<Longrightarrow> read_groups n i s = ([], False, s)"
  using assms by (cases n) (auto simp: read_separator_absent)

lemma read_groups_head_no_colon:
  assumes "CHR '':'' \<notin> set s" and "read_groups n 0 s = (gs, v4, t)"
  shows "length gs \<le> 2 \<and> CHR '':'' \<notin> set t"
proof (cases n)
  case 0
  with assms show ?thesis by auto
next
  case (Suc m)
  consider (quad) os r where "0 < m" "read_ipv4_addr s = Some (os, r)"
    | (num) g r where "read_number 16 4 True 65536 s = Some (g, r)" "\<not> (0 < m \<and> read_ipv4_addr s \<noteq> None)"
    | (none) "gs = []" "t = s"
    using assms(2) unfolding Suc read_groups.simps
    by (auto simp: read_separator_def split: option.splits if_splits)
  then show ?thesis
  proof cases
    case quad
    with assms Suc have "gs = [os ! 0 * 256 + os ! 1, os ! 2 * 256 + os ! 3]" "t = r"
      by (auto simp: read_separator_def)
    moreover from quad have "set r \<subseteq> set s"
      by (auto simp: read_ipv4_addr_def dest: read_octets_rest)
    ultimately show ?thesis using assms(1) by auto
  next
    case num
    then have "set r \<subseteq> set s" by (auto dest: read_number_rest)
    with assms(1) have "CHR '':'' \<notin> set r" by auto
    with num assms Suc show ?thesis
      by (auto simp: read_separator_def read_groups_no_colon Let_def split: if_splits option.splits)
  next
    case none
    with assms(1) show ?thesis by simp
  qed
qed

lemma read_ipv6_addr_no_colon:
  assumes "CHR '':'' \<notin> set s"
  shows "read_ipv6_addr s = None"
proof -
  obtain gs v4 t where g: "read_groups 8 0 s = (gs, v4, t)" by (metis prod_cases3)
  with assms have "length gs \<le> 2" "CHR '':'' \<notin> set t"
    by (auto dest: read_groups_head_no_colon)
  with g show ?thesis
    by (auto simp: read_ipv6_addr_def read_given_char_Some split: option.splits)
qed

lemma parse_ip_addr_no_colon:
  assumes "CHR '':'' \<notin> set s"
  shows "parse_ip_addr s = None \<longleftrightarrow> (\<forall>octets. read_ipv4_addr s \<noteq> Some (octets, []))"
  using assms by (auto simp: parse_ip_addr_def read_ipv6_addr_no_colon
    split: option.splits if_splits)

text \<open>Evaluation of the parser on concrete strings, whose counters are numerals.\<close>

lemmas read_octets_numeral [simp] =
  read_octets.simps(2) [of "pred_numeral k" for k, folded numeral_eq_Suc]

lemmas read_groups_numeral [simp] =
  read_groups.simps(2) [of "pred_numeral k" for k, folded numeral_eq_Suc]

lemmas ip_eval =
  parse_ip_addr_def read_ipv4_addr_def read_ipv6_addr_def read_separator_def read_number_def
  to_digit_def digit_value_def read_given_char_def is_ascii_digit_def

end
