(* ===== verification/Hostname.thy ===== *)
theory Hostname
  imports Ip_Address
begin

text \<open>
  Hostname normalisation and validation, \<open>src/src/hostname.rs\<close>. \<open>PublicHostname\<close> and
  \<open>ServerHostname\<close> wrap the string that \<open>validate_public_hostname\<close> returns; both types are the
  validated string here. Routing compares hostnames by equality, so what matters is that the
  accepted strings are exactly the well-formed ones and that spelling variants collapse.
\<close>

datatype PublicHostnameError =
    Empty | TooLong | EmptyLabel | LabelTooLong | InvalidCharacter
  | LeadingOrTrailingHyphen | Wildcard | IpLiteral | RawUnicode

type_synonym public_hostname = string
type_synonym server_hostname = string

definition normalize_public_hostname :: "string \<Rightarrow> string" where
  "normalize_public_hostname hostname =
     map to_ascii_lowercase (trim_end_matches (CHR ''.'') hostname)"

definition label_char :: "char \<Rightarrow> bool" where
  "label_char c = (is_ascii_lowercase c \<or> is_ascii_digit c \<or> c = CHR ''-'')"

definition check_label :: "string \<Rightarrow> (PublicHostnameError, unit) result" where
  "check_label label =
     (if label = [] then Inl EmptyLabel
      else if length label > 63 then Inl LabelTooLong
      else if starts_with (CHR ''-'') label \<or> ends_with (CHR ''-'') label
        then Inl LeadingOrTrailingHyphen
      else if \<not> list_all label_char label then Inl InvalidCharacter
      else Inr ())"

fun check_labels :: "string list \<Rightarrow> (PublicHostnameError, unit) result" where
  "check_labels [] = Inr ()"
| "check_labels (label # labels) = and_then (check_label label) (\<lambda>_. check_labels labels)"

definition validate_public_hostname :: "string \<Rightarrow> (PublicHostnameError, string) result" where
  "validate_public_hostname hostname =
     (let normalized = normalize_public_hostname hostname
      in if normalized = [] then Inl Empty
         else if \<not> is_ascii normalized then Inl RawUnicode
         else if CHR ''*'' \<in> set normalized then Inl Wildcard
         else if parse_ip_addr normalized \<noteq> None then Inl IpLiteral
         else if length normalized > 253 then Inl TooLong
         else and_then (check_labels (split_on (CHR ''.'') normalized))
                (\<lambda>_. Inr normalized))"

text \<open>
  The specification: an LDH hostname of at most 253 bytes with labels of 1 to 63 bytes, written
  in lower case without a trailing dot, that is not a dotted-quad address.
\<close>

definition hostname_label :: "string \<Rightarrow> bool" where
  "hostname_label l \<longleftrightarrow> l \<noteq> [] \<and> length l \<le> 63 \<and> hd l \<noteq> CHR ''-'' \<and> last l \<noteq> CHR ''-'' \<and>
     (\<forall>c\<in>set l. label_char c)"

definition valid_hostname :: "string \<Rightarrow> bool" where
  "valid_hostname h \<longleftrightarrow> length h \<le> 253 \<and> (\<forall>l\<in>set (split_on (CHR ''.'') h). hostname_label l) \<and>
     (\<forall>octets. read_ipv4_addr h \<noteq> Some (octets, []))"

section \<open>Lemmas\<close>

lemma check_label_Inr [result_simps]: "check_label l = Inr u \<longleftrightarrow> hostname_label l"
  by (auto simp: check_label_def hostname_label_def starts_with_def ends_with_def list_all_iff)

lemma check_labels_Inr [result_simps]:
  "check_labels ls = Inr u \<longleftrightarrow> (\<forall>l\<in>set ls. hostname_label l)"
  by (induction ls) (auto simp: result_simps)

lemma label_char_lower [simp]: "label_char c \<Longrightarrow> to_ascii_lowercase c = c"
  by (rule to_ascii_lowercase_id) (auto simp: label_char_def ascii_defs)

lemma label_char_facts:
  assumes "label_char c"
  shows "code c < 128" and "c \<noteq> CHR ''*''" and "c \<noteq> CHR '':''" and "c \<noteq> CHR ''.''"
    and "c \<noteq> CHR ''/''"
  using assms by (auto simp: label_char_def ascii_defs)

text \<open>Every character of a valid hostname is a dot or a label character.\<close>

lemma valid_hostname_char:
  assumes "valid_hostname h" and "c \<in> set h"
  shows "label_char c \<or> c = CHR ''.''"
proof (rule disjCI)
  assume "c \<noteq> CHR ''.''"
  with assms(2) obtain l where "l \<in> set (split_on (CHR ''.'') h)" "c \<in> set l"
    using in_split_on by blast
  with assms(1) show "label_char c" by (auto simp: valid_hostname_def hostname_label_def)
qed

lemma valid_hostname_no_special:
  assumes "valid_hostname h"
  shows "CHR '':'' \<notin> set h" and "CHR ''*'' \<notin> set h" and "CHR ''/'' \<notin> set h"
    and "is_ascii h"
  using valid_hostname_char [OF assms] label_char_facts
  by (fastforce simp: is_ascii_def list_all_iff)+

lemma valid_hostname_not_Nil: "valid_hostname h \<Longrightarrow> h \<noteq> []"
  by (auto simp: valid_hostname_def hostname_label_def)

lemma split_on_snoc_sep: "split_on c (s @ [c]) = split_on c s @ [[]]"
  by (induction s) auto

lemma valid_hostname_no_trailing_dot: "valid_hostname h \<Longrightarrow> \<not> ends_with (CHR ''.'') h"
proof
  assume v: "valid_hostname h" and "ends_with (CHR ''.'') h"
  then obtain s where "h = s @ [CHR ''.'']"
    by (metis append_butlast_last_id ends_with_def)
  with split_on_snoc_sep [of "CHR ''.''" s] have "[] \<in> set (split_on (CHR ''.'') h)" by auto
  with v show False by (auto simp: valid_hostname_def hostname_label_def)
qed

lemma normalize_valid: "valid_hostname h \<Longrightarrow> normalize_public_hostname h = h"
proof -
  assume v: "valid_hostname h"
  have "to_ascii_lowercase c = c" if "c \<in> set h" for c
    using valid_hostname_char [OF v that]
  proof
    assume "c = CHR ''.''"
    then show ?thesis by (simp add: to_ascii_lowercase_def is_ascii_uppercase_def)
  qed simp
  then show ?thesis
    using valid_hostname_no_trailing_dot [OF v]
    by (simp add: normalize_public_hostname_def trim_end_matches_id map_idI)
qed

lemma validate_Inr [result_simps]:
  "validate_public_hostname h = Inr n \<longleftrightarrow>
     n = normalize_public_hostname h \<and> valid_hostname n"
proof
  assume v: "validate_public_hostname h = Inr n"
  then have n: "n = normalize_public_hostname h" and
    labels: "\<forall>l\<in>set (split_on (CHR ''.'') n). hostname_label l" and
    rest: "length n \<le> 253" "parse_ip_addr n = None"
    by (auto simp: validate_public_hostname_def Let_def result_simps split: if_splits)
  have "read_ipv4_addr n \<noteq> Some (octets, [])" for octets
    using rest(2) by (auto simp: parse_ip_addr_def)
  with labels rest(1) n show "n = normalize_public_hostname h \<and> valid_hostname n"
    by (auto simp: valid_hostname_def)
next
  assume "n = normalize_public_hostname h \<and> valid_hostname n"
  then have n: "normalize_public_hostname h = n" and v: "valid_hostname n" by auto
  from v have "parse_ip_addr n = None"
    using parse_ip_addr_no_colon [of n] valid_hostname_no_special(1) [of n]
    by (auto simp: valid_hostname_def)
  moreover from v have "length n \<le> 253" "\<forall>l\<in>set (split_on (CHR ''.'') n). hostname_label l"
    by (auto simp: valid_hostname_def)
  ultimately show "validate_public_hostname h = Inr n"
    using valid_hostname_no_special [OF v] valid_hostname_not_Nil [OF v]
    by (simp add: validate_public_hostname_def Let_def result_simps n)
qed

text \<open>Evaluation of the component on concrete names.\<close>

lemmas hostname_eval =
  validate_public_hostname_def normalize_public_hostname_def trim_end_matches_def
  to_ascii_lowercase_def ascii_defs is_ascii_def check_label_def label_char_def
  starts_with_def ends_with_def ip_eval char_of_def bit_0 Let_def

section \<open>Properties\<close>

text \<open>
  C30: \<open>validate_public_hostname\<close> accepts an input exactly when its normal form is a
  well-formed hostname, and then returns that normal form.
\<close>

theorem validate_public_hostname_exact:
  "validate_public_hostname h = Inr n \<longleftrightarrow>
     n = normalize_public_hostname h \<and> valid_hostname n"
  by (rule validate_Inr)

text \<open>
  Accepted hostnames are fixed points: validating a returned hostname again returns it
  unchanged, so a hostname can be stored, printed and parsed back without drifting.
\<close>

theorem validate_public_hostname_idempotent:
  assumes "validate_public_hostname h = Inr n"
  shows "validate_public_hostname n = Inr n"
proof -
  from assms have "valid_hostname n" unfolding validate_Inr by blast
  then show ?thesis by (simp add: validate_Inr normalize_valid)
qed

theorem validate_public_hostname_idempotent_witness:
  "validate_public_hostname ''A.dev.'' = Inr ''a.dev'' \<and>
   validate_public_hostname ''a.dev'' = Inr ''a.dev''"
proof -
  have "validate_public_hostname ''A.dev.'' = Inr ''a.dev''"
    by (simp add: hostname_eval)
  with validate_public_hostname_idempotent show ?thesis by blast
qed

end
