(* ===== verification/Byte_Stream.thy ===== *)
theory Byte_Stream
  imports Prelude
begin

text \<open>
  A connection being read, as the asynchronous readers of the source see it: the bytes arrive in
  non-empty segments of unknown size, and after the last segment the peer either closed the
  stream or the transport failed. \<open>read\<close> returns at most one segment; \<open>read_exact\<close> fills its
  buffer across segments. The last section states the contract between a self-delimiting
  encoder and a decoder of such streams as a locale.
\<close>

datatype stream_end = Eof | Failed

type_synonym segments = "u8 list list"

definition nonempty_segments :: "segments \<Rightarrow> bool" where
  "nonempty_segments segs = ([] \<notin> set segs)"

fun read_some :: "nat \<Rightarrow> segments \<Rightarrow> u8 list \<times> segments" where
  "read_some n [] = ([], [])"
| "read_some n (seg # segs) =
     (take n seg, if length seg \<le> n then segs else drop n seg # segs)"

fun read_exact :: "nat \<Rightarrow> segments \<Rightarrow> (u8 list \<times> segments) option" where
  "read_exact n [] = (if n = 0 then Some ([], []) else None)"
| "read_exact n (seg # segs) =
     (if n < length seg then Some (take n seg, drop n seg # segs)
      else map_option (\<lambda>(bs, rest). (seg @ bs, rest)) (read_exact (n - length seg) segs))"

lemma read_some_concat: "read_some n segs = (bs, segs') \<Longrightarrow> concat segs = bs @ concat segs'"
  by (cases segs) (auto split: if_splits)

lemma read_some_length: "read_some n segs = (bs, segs') \<Longrightarrow> length bs \<le> n"
  by (cases segs) auto

lemma read_some_nonempty_segments:
  "nonempty_segments segs \<Longrightarrow> read_some n segs = (bs, segs') \<Longrightarrow> nonempty_segments segs'"
  by (cases segs) (auto simp: nonempty_segments_def split: if_splits)

lemma read_some_Nil:
  "nonempty_segments segs \<Longrightarrow> 0 < n \<Longrightarrow> fst (read_some n segs) = [] \<longleftrightarrow> segs = []"
  by (cases segs) (auto simp: nonempty_segments_def)

text \<open>\<open>read_exact\<close> sees only the bytes, not how they were segmented.\<close>

lemma read_exact_None: "read_exact n segs = None \<longleftrightarrow> length (concat segs) < n"
  by (induction n segs rule: read_exact.induct) auto

lemma read_exact_Some:
  "read_exact n segs = Some (bs, segs') \<Longrightarrow> length bs = n \<and> concat segs = bs @ concat segs'"
proof (induction n segs arbitrary: bs rule: read_exact.induct)
  case (1 n)
  then show ?case by (simp split: if_splits)
next
  case (2 n seg segs)
  show ?case
  proof (cases "n < length seg")
    case True
    with "2.prems" show ?thesis by (auto simp flip: append.assoc)
  next
    case False
    with "2.prems" obtain cs where
      cs: "read_exact (n - length seg) segs = Some (cs, segs')" "bs = seg @ cs" by auto
    with "2.IH" [OF False] False show ?thesis by simp
  qed
qed

lemma read_exact_nonempty_segments:
  "nonempty_segments segs \<Longrightarrow> read_exact n segs = Some (bs, segs') \<Longrightarrow> nonempty_segments segs'"
proof (induction n segs arbitrary: bs rule: read_exact.induct)
  case (1 n)
  then show ?case by (simp split: if_splits)
next
  case (2 n seg segs)
  show ?case
  proof (cases "n < length seg")
    case True
    with "2.prems" show ?thesis by (auto simp: nonempty_segments_def)
  next
    case False
    with "2.prems" obtain cs where
      cs: "read_exact (n - length seg) segs = Some (cs, segs')" by auto
    with "2.IH" [OF False] "2.prems"(1) show ?thesis by (simp add: nonempty_segments_def)
  qed
qed

lemma read_exact_append:
  assumes "concat segs = bs @ rest" and "length bs = n"
  shows "\<exists>segs'. read_exact n segs = Some (bs, segs') \<and> concat segs' = rest"
proof (cases "read_exact n segs")
  case None
  with assms show ?thesis by (simp add: read_exact_None)
next
  case (Some p)
  then obtain cs segs' where r: "read_exact n segs = Some (cs, segs')" by (cases p) auto
  then have "length cs = n" "concat segs = cs @ concat segs'"
    using read_exact_Some [OF r] by auto
  with assms have "cs = bs \<and> concat segs' = rest" by (metis append_eq_append_conv)
  with r show ?thesis by blast
qed

section \<open>Self-delimiting encodings\<close>

text \<open>
  The contract of a frame header on a byte stream: decoding a stream that starts with an
  encoding returns the encoded value and leaves exactly the bytes after it, however the stream
  was segmented.
\<close>

locale stream_codec =
  fixes encode :: "'a \<Rightarrow> u8 list option"
    and decode :: "segments \<Rightarrow> ('e, 'a \<times> segments) result"
  assumes decode_encode:
    "encode a = Some bs \<Longrightarrow> concat segs = bs @ rest \<Longrightarrow>
       \<exists>segs'. decode segs = Inr (a, segs') \<and> concat segs' = rest"
begin

lemma encodings_prefix_free:
  assumes "encode a = Some bs" and "encode b = Some cs" and "bs @ r = cs @ s"
  shows "a = b \<and> r = s"
proof -
  obtain u where "decode [bs @ r] = Inr (a, u)" "concat u = r"
    using decode_encode [OF assms(1), of "[bs @ r]" r] by auto
  moreover obtain v where "decode [bs @ r] = Inr (b, v)" "concat v = s"
    using decode_encode [OF assms(2), of "[cs @ s]" s] unfolding assms(3) by auto
  ultimately show ?thesis by simp
qed

lemma encode_injective: "encode a = Some bs \<Longrightarrow> encode b = Some bs \<Longrightarrow> a = b"
  using encodings_prefix_free [of a bs b bs "[]" "[]"] by simp

end

end
