(* ===== verification/Proxy_Protocol.thy ===== *)
theory Proxy_Protocol
  imports Ip_Address Byte_Stream
begin

unbundle bit_operations_syntax

text \<open>
  PROXY protocol v2, \<open>src/src/proxy_protocol.rs\<close>: the canonical Visitor TCP tuple, its wire
  header, the strict header reader, and the trusted networks allowed to supply one. Every
  Tunnel stream starts with this header, so the reader must return the encoded tuple and leave
  the ClientHello bytes untouched. A panic of the source is \<open>None\<close> in the encoder.
\<close>

definition MAX_PROXY_V2_HEADER_LEN :: nat where
  "MAX_PROXY_V2_HEADER_LEN = 16 * 1024"

definition SIGNATURE :: "u8 list" where
  "SIGNATURE = [0x0d, 0x0a, 0x0d, 0x0a, 0x00, 0x0d, 0x0a, 0x51, 0x55, 0x49, 0x54, 0x0a]"

record visitor_tcp_addresses =
  source :: socket_addr
  destination :: socket_addr

datatype ProxyV2Error = Io | Invalid string

definition u16_bytes :: "u16 \<Rightarrow> u8 list" where
  "u16_bytes w = be_bytes 2 (unat w)"

definition u16_from :: "u8 list \<Rightarrow> u16" where
  "u16_from bs = word_of_nat (be_value bs)"

definition encode_proxy_v2 :: "visitor_tcp_addresses \<Rightarrow> u8 list option" where
  "encode_proxy_v2 a =
     (case (ip (source a), ip (destination a)) of
        (V4 s, V4 d) \<Rightarrow>
          Some (SIGNATURE @ [0x21] @ [0x11] @ u16_bytes 12 @ be_bytes 4 (unat s) @
                be_bytes 4 (unat d) @ u16_bytes (port (source a)) @
                u16_bytes (port (destination a)))
      | (V6 s, V6 d) \<Rightarrow>
          Some (SIGNATURE @ [0x21] @ [0x21] @ u16_bytes 36 @ be_bytes 16 (unat s) @
                be_bytes 16 (unat d) @ u16_bytes (port (source a)) @
                u16_bytes (port (destination a)))
      | _ \<Rightarrow> None)"

text \<open>A byte range \<open>payload[i..i + n]\<close>.\<close>

definition byte_range :: "nat \<Rightarrow> nat \<Rightarrow> u8 list \<Rightarrow> u8 list" where
  "byte_range i n bs = take n (drop i bs)"

definition decode_payload :: "u8 \<Rightarrow> u8 list \<Rightarrow> visitor_tcp_addresses" where
  "decode_payload family payload =
     (if family = 0x11 then
        \<lparr>source = \<lparr>ip = V4 (word_of_nat (be_value (byte_range 0 4 payload))),
                   port = u16_from (byte_range 8 2 payload)\<rparr>,
         destination = \<lparr>ip = V4 (word_of_nat (be_value (byte_range 4 4 payload))),
                        port = u16_from (byte_range 10 2 payload)\<rparr>\<rparr>
      else
        \<lparr>source = \<lparr>ip = V6 (word_of_nat (be_value (byte_range 0 16 payload))),
                   port = u16_from (byte_range 32 2 payload)\<rparr>,
         destination = \<lparr>ip = V6 (word_of_nat (be_value (byte_range 16 16 payload))),
                        port = u16_from (byte_range 34 2 payload)\<rparr>\<rparr>)"

definition read_proxy_v2 ::
  "segments \<Rightarrow> (ProxyV2Error, visitor_tcp_addresses \<times> segments) result" where
  "read_proxy_v2 reader =
     and_then (ok_or Io (read_exact 16 reader)) (\<lambda>(fixed, reader).
     if take 12 fixed \<noteq> SIGNATURE then Inl (Invalid ''signature mismatch'')
     else if fixed ! 12 \<noteq> 0x21 then Inl (Invalid ''only the PROXY command is supported'')
     else let payload_len = be_value [fixed ! 14, fixed ! 15] in
     if 16 + payload_len > MAX_PROXY_V2_HEADER_LEN
       then Inl (Invalid ''header exceeds the 16 KiB limit'')
     else and_then
       (if fixed ! 13 = 0x11 then Inr (12::nat)
        else if fixed ! 13 = 0x21 then Inr 36
        else Inl (Invalid ''only TCP over IPv4 or IPv6 is supported'')) (\<lambda>required.
     if payload_len < required then Inl (Invalid ''address payload is truncated'')
     else and_then (ok_or Io (read_exact payload_len reader)) (\<lambda>(payload, reader).
     Inr (decode_payload (fixed ! 13) payload, reader))))"

section \<open>Trusted networks\<close>

record trusted_network =
  network :: ip_addr
  prefix :: nat

definition mask_u32 :: "nat \<Rightarrow> u32" where
  "mask_u32 p = (if p = 0 then 0 else push_bit (32 - p) (- 1))"

definition mask_u128 :: "nat \<Rightarrow> u128" where
  "mask_u128 p = (if p = 0 then 0 else push_bit (128 - p) (- 1))"

definition trusted_network_contains :: "trusted_network \<Rightarrow> ip_addr \<Rightarrow> bool" where
  "trusted_network_contains t address =
     (case (network t, address) of
        (V4 n, V4 a) \<Rightarrow> n AND mask_u32 (prefix t) = a AND mask_u32 (prefix t)
      | (V6 n, V6 a) \<Rightarrow> n AND mask_u128 (prefix t) = a AND mask_u128 (prefix t)
      | _ \<Rightarrow> False)"

definition trusted_network_from_str :: "string \<Rightarrow> (string, trusted_network) result" where
  "trusted_network_from_str value =
     and_then (ok_or ''must use CIDR notation'' (split_once (CHR ''/'') value))
       (\<lambda>(address, prefix).
     and_then (ok_or ''contains an invalid IP address'' (parse_ip_addr address)) (\<lambda>network.
     and_then (ok_or ''contains an invalid prefix'' (parse_u8 prefix)) (\<lambda>prefix.
     let maximum = (if is_ipv4 network then 32 else 128) in
     if prefix > maximum then Inl ''contains an invalid prefix''
     else if \<not> (case network of
                  V4 n \<Rightarrow> n AND mask_u32 prefix = n
                | V6 n \<Rightarrow> n AND mask_u128 prefix = n)
       then Inl ''must use a canonical network address''
     else Inr \<lparr>network = network, prefix = prefix\<rparr>)))"

section \<open>Lemmas\<close>

lemma u32_octets [simp]: "(word_of_nat (be_value (be_bytes 4 (unat (w :: u32)))) :: u32) = w"
  using unsigned_less [of w, where 'a = nat] by (simp add: be_value_be_bytes)

lemma u128_octets [simp]: "(word_of_nat (be_value (be_bytes 16 (unat (w :: u128)))) :: u128) = w"
  using unsigned_less [of w, where 'a = nat] by (simp add: be_value_be_bytes)

lemma u16_octets [simp]: "u16_from (u16_bytes w) = w"
  using unsigned_less [of w, where 'a = nat]
  by (simp add: u16_from_def u16_bytes_def be_value_be_bytes)

lemma length_u16_bytes [simp]: "length (u16_bytes w) = 2"
  by (simp add: u16_bytes_def)

lemma u16_bytes_pair: "\<exists>b0 b1. u16_bytes w = [b0, b1]"
  by (simp add: u16_bytes_def numeral_2_eq_2)

lemma be_value_u16_bytes [simp]: "be_value (u16_bytes w) = unat w"
  using unsigned_less [of w, where 'a = nat]
  by (simp add: u16_bytes_def be_value_be_bytes)

lemma length_SIGNATURE [simp]: "length SIGNATURE = 12"
  by (simp add: SIGNATURE_def)

text \<open>
  Any header with the PROXY command, a TCP family, and a payload that fits is read: the tuple is
  taken from the front of the payload and extensions after it are skipped with the payload.
\<close>

lemma read_proxy_v2_frame:
  assumes "concat segs = SIGNATURE @ [0x21, family] @ u16_bytes len @ payload @ rest"
    and "length payload = unat len" and "16 + unat len \<le> MAX_PROXY_V2_HEADER_LEN"
    and "family = 0x11 \<and> 12 \<le> unat len \<or> family = 0x21 \<and> 36 \<le> unat len"
  shows "\<exists>segs'. read_proxy_v2 segs = Inr (decode_payload family payload, segs') \<and>
                 concat segs' = rest"
proof -
  obtain b0 b1 where len: "u16_bytes len = [b0, b1]"
    using u16_bytes_pair by blast
  then have "be_value [b0, b1] = unat len" by (metis be_value_u16_bytes)
  then have len_value: "unat b0 * 256 + unat b1 = unat len" by simp
  let ?fixed = "SIGNATURE @ [0x21, family, b0, b1]"
  obtain segs1 where 1: "read_exact 16 segs = Some (?fixed, segs1)" "concat segs1 = payload @ rest"
    using read_exact_append [of segs ?fixed "payload @ rest" 16] assms(1) len by auto
  obtain segs2 where 2: "read_exact (unat len) segs1 = Some (payload, segs2)" "concat segs2 = rest"
    using read_exact_append [OF 1(2) assms(2)] by blast
  show ?thesis
    using 1 2 assms(3,4) len_value by (auto simp: read_proxy_v2_def nth_append)
qed

lemma decode_payload_V4:
  "decode_payload 0x11 (be_bytes 4 (unat s) @ be_bytes 4 (unat d) @ u16_bytes p @ u16_bytes q @ ext)
     = \<lparr>source = \<lparr>ip = V4 s, port = p\<rparr>, destination = \<lparr>ip = V4 d, port = q\<rparr>\<rparr>"
  by (simp add: decode_payload_def byte_range_def)

lemma decode_payload_V6:
  "decode_payload 0x21 (be_bytes 16 (unat s) @ be_bytes 16 (unat d) @ u16_bytes p @ u16_bytes q @ ext)
     = \<lparr>source = \<lparr>ip = V6 s, port = p\<rparr>, destination = \<lparr>ip = V6 d, port = q\<rparr>\<rparr>"
  by (simp add: decode_payload_def byte_range_def)

lemma encode_proxy_v2_Some:
  assumes "encode_proxy_v2 a = Some bs"
  shows "\<exists>family len payload.
    bs = SIGNATURE @ [0x21, family] @ u16_bytes len @ payload \<and> length payload = unat len \<and>
    (family = 0x11 \<and> unat len = 12 \<or> family = 0x21 \<and> unat len = 36) \<and>
    decode_payload family payload = a"
proof -
  obtain s p d q where a: "a = \<lparr>source = \<lparr>ip = s, port = p\<rparr>, destination = \<lparr>ip = d, port = q\<rparr>\<rparr>"
    by (metis visitor_tcp_addresses.surjective socket_addr.surjective old.unit.exhaust)
  show ?thesis
  proof (cases s)
    case s: (V4 x)
    then obtain y where "d = V4 y" using assms
      by (cases d) (auto simp: encode_proxy_v2_def a)
    with s assms show ?thesis
      using decode_payload_V4 [of x y p q "[]"]
      by (intro exI [of _ "0x11"] exI [of _ "12"]
                exI [of _ "be_bytes 4 (unat x) @ be_bytes 4 (unat y) @ u16_bytes p @ u16_bytes q"])
         (simp add: encode_proxy_v2_def a)
  next
    case s: (V6 x)
    then obtain y where "d = V6 y" using assms
      by (cases d) (auto simp: encode_proxy_v2_def a)
    with s assms show ?thesis
      using decode_payload_V6 [of x y p q "[]"]
      by (intro exI [of _ "0x21"] exI [of _ "36"]
                exI [of _ "be_bytes 16 (unat x) @ be_bytes 16 (unat y) @ u16_bytes p @ u16_bytes q"])
         (simp add: encode_proxy_v2_def a)
  qed
qed

lemma read_encode_proxy_v2:
  assumes "encode_proxy_v2 a = Some bs" and "concat segs = bs @ rest"
  shows "\<exists>segs'. read_proxy_v2 segs = Inr (a, segs') \<and> concat segs' = rest"
proof -
  obtain family len payload where
    e: "bs = SIGNATURE @ [0x21, family] @ u16_bytes len @ payload" "length payload = unat len"
       "family = 0x11 \<and> unat len = 12 \<or> family = 0x21 \<and> unat len = 36"
       "decode_payload family payload = a"
    using encode_proxy_v2_Some [OF assms(1)] by blast
  show ?thesis
    using read_proxy_v2_frame [of segs family len payload rest] assms(2) e
    by (auto simp: MAX_PROXY_V2_HEADER_LEN_def)
qed

text \<open>The PROXY v2 encoder and reader form a self-delimiting codec.\<close>

interpretation proxy_v2: stream_codec encode_proxy_v2 read_proxy_v2
  by unfold_locales (rule read_encode_proxy_v2)

lemma read_proxy_v2_Inr:
  assumes "read_proxy_v2 segs = Inr (a, segs')"
  shows "\<exists>header. concat segs = header @ concat segs' \<and> length header \<le> MAX_PROXY_V2_HEADER_LEN \<and>
    take 13 header = SIGNATURE @ [0x21] \<and> encode_proxy_v2 a \<noteq> None"
proof -
  obtain fixed segs1 payload where
    1: "read_exact 16 segs = Some (fixed, segs1)" and
    2: "read_exact (be_value [fixed ! 14, fixed ! 15]) segs1 = Some (payload, segs')" and
    sig: "take 12 fixed = SIGNATURE" "fixed ! 12 = 0x21" and
    len: "16 + be_value [fixed ! 14, fixed ! 15] \<le> MAX_PROXY_V2_HEADER_LEN" and
    a: "a = decode_payload (fixed ! 13) payload"
    using assms by (auto simp: read_proxy_v2_def Let_def result_simps split: if_splits)
  from read_exact_Some [OF 1] read_exact_Some [OF 2]
  have "concat segs = (fixed @ payload) @ concat segs'" and l: "length fixed = 16"
    and "length (fixed @ payload) = 16 + be_value [fixed ! 14, fixed ! 15]" by auto
  moreover have "take 13 (fixed @ payload) = SIGNATURE @ [0x21]"
    using sig l take_Suc_conv_app_nth [of 12 fixed] by simp
  moreover have "encode_proxy_v2 a \<noteq> None"
    by (simp add: a decode_payload_def encode_proxy_v2_def)
  ultimately show ?thesis using len by metis
qed

text \<open>The comparison under a mask looks at exactly the leading \<open>p\<close> bits.\<close>

lemma bit_mask_u32: "p \<le> 32 \<Longrightarrow> bit (mask_u32 p) i \<longleftrightarrow> 32 - p \<le> i \<and> i < 32"
  by (cases "p = 0") (auto simp: mask_u32_def bit_not_iff bit_mask_iff)

lemma bit_mask_u128: "p \<le> 128 \<Longrightarrow> bit (mask_u128 p) i \<longleftrightarrow> 128 - p \<le> i \<and> i < 128"
  by (cases "p = 0") (auto simp: mask_u128_def bit_not_iff bit_mask_iff)

lemma mask_u32_eq:
  assumes "p \<le> 32"
  shows "n AND mask_u32 p = a AND mask_u32 p \<longleftrightarrow> (\<forall>i. 32 - p \<le> i \<and> i < 32 \<longrightarrow> bit n i = bit a i)"
  unfolding bit_eq_iff bit_and_iff bit_mask_u32 [OF assms] by auto

lemma mask_u128_eq:
  assumes "p \<le> 128"
  shows "n AND mask_u128 p = a AND mask_u128 p \<longleftrightarrow>
    (\<forall>i. 128 - p \<le> i \<and> i < 128 \<longrightarrow> bit n i = bit a i)"
  unfolding bit_eq_iff bit_and_iff bit_mask_u128 [OF assms] by auto

text \<open>The address width, and the bit of an address.\<close>

fun ip_width :: "ip_addr \<Rightarrow> nat" where
  "ip_width (V4 _) = 32"
| "ip_width (V6 _) = 128"

fun ip_bit :: "ip_addr \<Rightarrow> nat \<Rightarrow> bool" where
  "ip_bit (V4 w) i = bit w i"
| "ip_bit (V6 w) i = bit w i"

lemma trusted_network_from_str_Inr:
  assumes "trusted_network_from_str v = Inr t"
  shows "prefix t \<le> ip_width (network t)" and "trusted_network_contains t (network t)"
  using assms
  by (auto simp: trusted_network_from_str_def trusted_network_contains_def is_ipv4_def Let_def
    result_simps split: if_splits ip_addr.splits)

section \<open>Properties\<close>


definition example_addresses :: visitor_tcp_addresses where
  "example_addresses = \<lparr>source = \<lparr>ip = V4 0xC0000201, port = 51000\<rparr>,
                        destination = \<lparr>ip = V4 0xC6336407, port = 443\<rparr>\<rparr>"

definition example_header :: "u8 list" where
  "example_header = SIGNATURE @ [0x21, 0x11, 0, 12, 192, 0, 2, 1, 198, 51, 100, 7, 199, 56, 1, 187]"

lemma encode_example: "encode_proxy_v2 example_addresses = Some example_header"
  by (simp add: encode_proxy_v2_def example_addresses_def example_header_def u16_bytes_def
    be_bytes_numeral)




text \<open>
  A network parsed from CIDR text contains an address exactly when the address has the same
  family and agrees with the network on its leading \<open>prefix\<close> bits.
\<close>

theorem trusted_network_contains_prefix:
  assumes "trusted_network_from_str v = Inr t"
  shows "trusted_network_contains t a \<longleftrightarrow>
    is_ipv4 a = is_ipv4 (network t) \<and>
    (\<forall>i. ip_width a - prefix t \<le> i \<and> i < ip_width a \<longrightarrow> ip_bit (network t) i = ip_bit a i)"
  using trusted_network_from_str_Inr(1) [OF assms]
  by (cases "network t"; cases a)
     (auto simp: trusted_network_contains_def is_ipv4_def mask_u32_eq mask_u128_eq)

theorem trusted_network_contains_prefix_witness:
  "trusted_network_from_str ''10.0.0.0/8'' = Inr \<lparr>network = V4 0x0A000000, prefix = 8\<rparr> \<and>
   (trusted_network_contains \<lparr>network = V4 0x0A000000, prefix = 8\<rparr> (V4 0x0A010203) \<longleftrightarrow>
    is_ipv4 (V4 0x0A010203) = is_ipv4 (V4 0x0A000000) \<and>
    (\<forall>i. ip_width (V4 0x0A010203) - 8 \<le> i \<and> i < ip_width (V4 0x0A010203) \<longrightarrow>
      ip_bit (V4 0x0A000000) i = ip_bit (V4 0x0A010203) i))"
proof -
  have p: "trusted_network_from_str ''10.0.0.0/8'' = Inr \<lparr>network = V4 0x0A000000, prefix = 8\<rparr>"
    by (simp add: trusted_network_from_str_def ip_eval digits_value_def from_str_radix_def
      starts_with_def is_ipv4_def mask_u32_def mask_eq_exp_minus_1)
  from trusted_network_contains_prefix [OF p, of "V4 0x0A010203"] p show ?thesis by simp
qed

end
