(* ===== verification/Client_Hello.thy ===== *)
theory Client_Hello
  imports Hostname Proxy_Protocol
begin

text \<open>
  Reading a TLS ClientHello (\<open>src/src/client_hello.rs\<close>) and the framing of a Tunnel stream
  (\<open>src/src/tunnel_framing.rs\<close>). The Server peeks at the ClientHello to route by SNI and must
  hand every byte it took on to the Client, which reads the same bytes again behind a PROXY v2
  header. The TLS state machine is rustls' \<open>Acceptor\<close>, a parameter of the reader.
\<close>

definition CLIENT_HELLO_BUFFER_LIMIT :: nat where
  "CLIENT_HELLO_BUFFER_LIMIT = 16 * 1024"

definition READ_BUFFER :: nat where
  "READ_BUFFER = 4096"

record parsed_client_hello =
  buffered_bytes :: "u8 list"
  public_hostname :: public_hostname
  alpn_protocols :: "u8 list list"

datatype ClientHelloError =
    HelloIo | InvalidTls | InvalidSni | MissingSni | HelloTooLong nat | UnexpectedEof

text \<open>What \<open>Acceptor::accept\<close> reports: an error, not enough bytes yet, or a ClientHello.\<close>

datatype 'acc accept_outcome =
    AcceptError | Incomplete 'acc | Accepted "string option" "u8 list list option"

record 'acc tls_acceptor =
  acceptor_default :: 'acc
  read_tls :: "'acc \<Rightarrow> u8 list \<Rightarrow> 'acc option"
  accept :: "'acc \<Rightarrow> 'acc accept_outcome"

definition finish_client_hello ::
  "u8 list \<Rightarrow> string option \<Rightarrow> u8 list list option \<Rightarrow> (ClientHelloError, parsed_client_hello) result"
where
  "finish_client_hello buffered server_name alpn =
     and_then (ok_or MissingSni server_name) (\<lambda>server_name.
     and_then (map_err (\<lambda>_. InvalidSni) (validate_public_hostname server_name)) (\<lambda>hostname.
     Inr \<lparr>buffered_bytes = buffered, public_hostname = hostname,
          alpn_protocols = (case alpn of None \<Rightarrow> [] | Some ps \<Rightarrow> ps)\<rparr>))"

function read_client_hello_loop ::
  "'acc tls_acceptor \<Rightarrow> stream_end \<Rightarrow> 'acc \<Rightarrow> u8 list \<Rightarrow> segments \<Rightarrow>
   (ClientHelloError, parsed_client_hello \<times> segments) result" where
  "read_client_hello_loop tls ending acceptor buffered reader =
     (if reader = [] \<and> ending = Failed then Inl HelloIo
      else let (chunk, reader') = read_some READ_BUFFER reader
           in if chunk = [] then Inl UnexpectedEof
              else let buffered' = buffered @ chunk
                   in if length buffered' > CLIENT_HELLO_BUFFER_LIMIT
                        then Inl (HelloTooLong CLIENT_HELLO_BUFFER_LIMIT)
                      else case read_tls tls acceptor chunk of
                             None \<Rightarrow> Inl HelloIo
                           | Some acceptor' \<Rightarrow>
                               (case accept tls acceptor' of
                                  AcceptError \<Rightarrow> Inl InvalidTls
                                | Incomplete acceptor'' \<Rightarrow>
                                    read_client_hello_loop tls ending acceptor'' buffered' reader'
                                | Accepted server_name alpn \<Rightarrow>
                                    and_then (finish_client_hello buffered' server_name alpn)
                                      (\<lambda>hello. Inr (hello, reader'))))"
  by pat_completeness auto
termination
  by (relation "measure (\<lambda>(tls, ending, acceptor, buffered, reader). length (concat reader))")
     (auto dest: read_some_concat [OF sym])

declare read_client_hello_loop.simps [simp del]

definition read_client_hello ::
  "'acc tls_acceptor \<Rightarrow> stream_end \<Rightarrow> segments \<Rightarrow>
   (ClientHelloError, parsed_client_hello \<times> segments) result" where
  "read_client_hello tls ending reader =
     read_client_hello_loop tls ending (acceptor_default tls) [] reader"

definition offers_alpn_protocol :: "parsed_client_hello \<Rightarrow> u8 list \<Rightarrow> bool" where
  "offers_alpn_protocol hello protocol = list_ex (\<lambda>offered. offered = protocol) (alpn_protocols hello)"

text \<open>The protocol of ACME challenges, \<open>acme-tls/1\<close>.\<close>

definition ACME_TLS_ALPN :: "u8 list" where
  "ACME_TLS_ALPN = [0x61, 0x63, 0x6d, 0x65, 0x2d, 0x74, 0x6c, 0x73, 0x2f, 0x31]"

section \<open>Tunnel stream framing\<close>

record decoded_tunnel_stream =
  addresses :: visitor_tcp_addresses
  client_hello :: parsed_client_hello

datatype TunnelFramingError = ProxyHeader ProxyV2Error | Hello ClientHelloError

definition encode_tunnel_stream :: "visitor_tcp_addresses \<Rightarrow> u8 list \<Rightarrow> u8 list option" where
  "encode_tunnel_stream a buffered_client_hello =
     map_option (\<lambda>header. header @ buffered_client_hello) (encode_proxy_v2 a)"

definition read_tunnel_stream ::
  "'acc tls_acceptor \<Rightarrow> stream_end \<Rightarrow> segments \<Rightarrow>
   (TunnelFramingError, decoded_tunnel_stream \<times> segments) result" where
  "read_tunnel_stream tls ending reader =
     and_then (map_err ProxyHeader (read_proxy_v2 reader)) (\<lambda>(a, reader).
     and_then (map_err Hello (read_client_hello tls ending reader)) (\<lambda>(hello, reader).
     Inr (\<lparr>addresses = a, client_hello = hello\<rparr>, reader)))"

section \<open>Lemmas\<close>

lemma finish_client_hello_Inr:
  "finish_client_hello b sn alpn = Inr h \<Longrightarrow>
     buffered_bytes h = b \<and> valid_hostname (public_hostname h)"
  by (auto simp: finish_client_hello_def result_simps)

lemma read_client_hello_loop_Inr:
  "read_client_hello_loop tls ending acceptor buffered reader = Inr (h, reader') \<Longrightarrow>
     buffered @ concat reader = buffered_bytes h @ concat reader' \<and>
     length (buffered_bytes h) \<le> CLIENT_HELLO_BUFFER_LIMIT \<and>
     valid_hostname (public_hostname h)"
proof (induction tls ending acceptor buffered reader rule: read_client_hello_loop.induct)
  case (1 tls ending acceptor buffered reader)
  obtain chunk reader1 where r: "read_some READ_BUFFER reader = (chunk, reader1)" by fastforce
  then have c: "concat reader = chunk @ concat reader1" by (rule read_some_concat)
  from "1.prems" r obtain acceptor' where
    guards: "\<not> (reader = [] \<and> ending = Failed)" "chunk \<noteq> []"
      "length (buffered @ chunk) \<le> CLIENT_HELLO_BUFFER_LIMIT"
      "read_tls tls acceptor chunk = Some acceptor'"
    by (subst (asm) read_client_hello_loop.simps) (auto simp: Let_def split: if_splits option.splits)
  show ?case
  proof (cases "accept tls acceptor'")
    case AcceptError
    with "1.prems" r guards show ?thesis
      by (subst (asm) read_client_hello_loop.simps) (simp add: Let_def)
  next
    case (Incomplete acceptor'')
    with "1.prems" r guards
    have "read_client_hello_loop tls ending acceptor'' (buffered @ chunk) reader1 = Inr (h, reader')"
      by (subst (asm) read_client_hello_loop.simps) (simp add: Let_def)
    with "1.IH" [OF guards(1) r [symmetric] refl guards(2) refl _ guards(4) Incomplete] guards(3)
    show ?thesis by (simp add: c)
  next
    case (Accepted sn alpn)
    with "1.prems" r guards
    have "finish_client_hello (buffered @ chunk) sn alpn = Inr h" "reader' = reader1"
      by (subst (asm) read_client_hello_loop.simps, auto simp: Let_def result_simps)+
    with finish_client_hello_Inr guards(3) show ?thesis by (fastforce simp: c)
  qed
qed

text \<open>An encoded Tunnel stream is read back as its addresses and the bytes behind its header.\<close>

lemma read_tunnel_stream_encoded:
  assumes "encode_tunnel_stream a hello_bytes = Some bs" and "concat reader = bs @ rest"
    and "read_tunnel_stream tls ending reader = Inr (d, reader')"
  obtains reader1 where "addresses d = a" "concat reader1 = hello_bytes @ rest"
    "read_client_hello tls ending reader1 = Inr (client_hello d, reader')"
proof -
  from assms(1) obtain header where h: "encode_proxy_v2 a = Some header" "bs = header @ hello_bytes"
    by (auto simp: encode_tunnel_stream_def)
  with assms(2) obtain reader1 where "read_proxy_v2 reader = Inr (a, reader1)" "concat reader1 = hello_bytes @ rest"
    using proxy_v2.decode_encode [of a header reader "hello_bytes @ rest"] by auto
  with assms(3) that show thesis by (auto simp: read_tunnel_stream_def result_simps)
qed

lemma read_client_hello_loop_TooLong:
  assumes "\<And>a c. \<exists>a'. read_tls tls a c = Some a'" and "\<And>a. \<exists>a'. accept tls a = Incomplete a'"
  shows "nonempty_segments reader \<Longrightarrow>
     length buffered \<le> CLIENT_HELLO_BUFFER_LIMIT \<Longrightarrow>
     length buffered + length (concat reader) > CLIENT_HELLO_BUFFER_LIMIT \<Longrightarrow>
     read_client_hello_loop tls ending acceptor buffered reader =
       Inl (HelloTooLong CLIENT_HELLO_BUFFER_LIMIT)"
proof (induction "length (concat reader)" arbitrary: acceptor buffered reader rule: less_induct)
  case less
  obtain chunk reader1 where r: "read_some READ_BUFFER reader = (chunk, reader1)" by fastforce
  then have c: "concat reader = chunk @ concat reader1" by (rule read_some_concat)
  from less.prems have ne: "reader \<noteq> []" by auto
  with less.prems(1) r have chunk: "chunk \<noteq> []"
    using read_some_Nil [of reader READ_BUFFER] by (simp add: READ_BUFFER_def)
  obtain a1 where a1: "read_tls tls acceptor chunk = Some a1" using assms(1) by blast
  obtain a2 where a2: "accept tls a1 = Incomplete a2" using assms(2) by blast
  show ?case
  proof (cases "length (buffered @ chunk) > CLIENT_HELLO_BUFFER_LIMIT")
    case True
    with ne chunk r show ?thesis
      by (subst read_client_hello_loop.simps) (simp add: Let_def)
  next
    case False
    have "read_client_hello_loop tls ending a2 (buffered @ chunk) reader1 =
        Inl (HelloTooLong CLIENT_HELLO_BUFFER_LIMIT)"
      using less.prems False chunk read_some_nonempty_segments [OF less.prems(1) r]
      by (intro less.hyps) (auto simp: c)
    with False ne chunk r a1 a2 show ?thesis
      by (subst read_client_hello_loop.simps) (simp add: Let_def)
  qed
qed

section \<open>Properties\<close>

text \<open>
  C33: A ClientHello that is accepted was buffered byte for byte: the buffered bytes followed by
  what is left in the connection are the bytes the peer sent, so forwarding them replays the
  handshake unchanged. At most 16 KiB are buffered and the SNI is a well-formed hostname.
\<close>

theorem read_client_hello_sound:
  assumes "read_client_hello tls ending reader = Inr (h, reader')"
  shows "concat reader = buffered_bytes h @ concat reader' \<and>
     length (buffered_bytes h) \<le> CLIENT_HELLO_BUFFER_LIMIT \<and>
     valid_hostname (public_hostname h)"
  using read_client_hello_loop_Inr assms unfolding read_client_hello_def by fastforce

text \<open>A TLS acceptor for the witnesses: it accepts once three bytes arrived.\<close>

definition example_tls :: "u8 list tls_acceptor" where
  "example_tls = \<lparr>acceptor_default = [], read_tls = (\<lambda>a c. Some (a @ c)),
     accept = (\<lambda>a. if length a < 3 then Incomplete a else Accepted (Some ''a.dev'') None)\<rparr>"

definition example_hello :: parsed_client_hello where
  "example_hello = \<lparr>buffered_bytes = [22, 3, 1, 0], public_hostname = ''a.dev'', alpn_protocols = []\<rparr>"

lemma validate_example: "validate_public_hostname ''a.dev'' = Inr ''a.dev''"
  by (simp add: hostname_eval)

lemma read_example_hello:
  "read_client_hello example_tls Eof [[22, 3], [1, 0], [7]] = Inr (example_hello, [[7]])"
  by (simp add: read_client_hello_def read_client_hello_loop.simps example_tls_def
    example_hello_def READ_BUFFER_def CLIENT_HELLO_BUFFER_LIMIT_def finish_client_hello_def
    validate_example)

theorem read_client_hello_sound_witness:
  "concat [[22, 3], [1, 0], [7]] = buffered_bytes example_hello @ concat [[7]] \<and>
     length (buffered_bytes example_hello) \<le> CLIENT_HELLO_BUFFER_LIMIT \<and>
     valid_hostname (public_hostname example_hello)"
  using read_client_hello_sound [OF read_example_hello] .

text \<open>
  A peer whose bytes never complete a ClientHello is cut off: once more than 16 KiB have been
  sent the reader returns the size error, so it neither loops nor buffers without bound.
\<close>

theorem read_client_hello_bounded:
  assumes "\<And>a c. \<exists>a'. read_tls tls a c = Some a'" and "\<And>a. \<exists>a'. accept tls a = Incomplete a'"
    and "nonempty_segments reader" and "length (concat reader) > CLIENT_HELLO_BUFFER_LIMIT"
  shows "read_client_hello tls ending reader = Inl (HelloTooLong CLIENT_HELLO_BUFFER_LIMIT)"
  using read_client_hello_loop_TooLong [OF assms(1,2,3), of "[]"] assms(4)
  by (simp add: read_client_hello_def)

theorem read_client_hello_bounded_witness:
  "read_client_hello \<lparr>acceptor_default = (), read_tls = (\<lambda>a c. Some ()), accept = Incomplete\<rparr> Eof
     (replicate 4097 [0, 0, 0, 0]) = Inl (HelloTooLong CLIENT_HELLO_BUFFER_LIMIT)"
proof -
  have "nonempty_segments (replicate 4097 [0, 0, 0, 0])"
    by (simp add: nonempty_segments_def)
  moreover have "length (concat (replicate n [0, 0, 0, 0 :: u8])) = 4 * n" for n
    by (induction n) auto
  then have "length (concat (replicate 4097 [0, 0, 0, 0 :: u8])) > CLIENT_HELLO_BUFFER_LIMIT"
    unfolding CLIENT_HELLO_BUFFER_LIMIT_def by (simp only:)
  ultimately show ?thesis by (intro read_client_hello_bounded) simp_all
qed

text \<open>
  The Client decodes from a Tunnel stream the very tuple the Server put in front of it, and
  the ClientHello it buffers together with the rest of the stream is exactly what the Server
  forwarded after the header.
\<close>

theorem tunnel_stream_roundtrip:
  assumes "encode_tunnel_stream a hello_bytes = Some bs" and "concat reader = bs @ rest"
    and "read_tunnel_stream tls ending reader = Inr (d, reader')"
  shows "addresses d = a \<and>
    hello_bytes @ rest = buffered_bytes (client_hello d) @ concat reader'"
proof -
  obtain reader1 where "addresses d = a" "concat reader1 = hello_bytes @ rest"
    "read_client_hello tls ending reader1 = Inr (client_hello d, reader')"
    using read_tunnel_stream_encoded [OF assms] .
  then show ?thesis using read_client_hello_loop_Inr unfolding read_client_hello_def by fastforce
qed

theorem tunnel_stream_roundtrip_witness:
  "read_tunnel_stream example_tls Eof [example_header, [22, 3, 1, 0], [7]] =
     Inr (\<lparr>addresses = example_addresses, client_hello = example_hello\<rparr>, [[7]]) \<and>
   addresses \<lparr>addresses = example_addresses, client_hello = example_hello\<rparr> = example_addresses \<and>
   [22, 3, 1, 0] @ [7] = buffered_bytes example_hello @ concat [[7]]"
proof -
  have e: "encode_tunnel_stream example_addresses [22, 3, 1, 0] =
      Some (example_header @ [22, 3, 1, 0])"
    by (simp add: encode_tunnel_stream_def encode_example)
  have p: "read_proxy_v2 [example_header, [22, 3, 1, 0], [7]] =
      Inr (example_addresses, [[22, 3, 1, 0], [7]])"
    by (simp add: read_proxy_v2_def example_header_def example_addresses_def SIGNATURE_def
      MAX_PROXY_V2_HEADER_LEN_def decode_payload_def byte_range_def u16_from_def)
  have r: "read_tunnel_stream example_tls Eof [example_header, [22, 3, 1, 0], [7]] =
      Inr (\<lparr>addresses = example_addresses, client_hello = example_hello\<rparr>, [[7]])"
    unfolding read_tunnel_stream_def p
    by (simp add: read_client_hello_def read_client_hello_loop.simps example_tls_def
      example_hello_def READ_BUFFER_def CLIENT_HELLO_BUFFER_LIMIT_def finish_client_hello_def
      validate_example)
  from tunnel_stream_roundtrip [OF e _ r, of "[7]"] r show ?thesis by simp
qed

end
