(* ===== verification/Tunnel_Stream.thy ===== *)
theory Tunnel_Stream
  imports Prelude "HOL-Library.Sublist"
begin

text \<open>
  The byte-stream adapters over one Visitor stream (\<open>src/src/tunnel/stream.rs\<close>): the write half with
  its one chunk in flight, the read half, and the lease that both halves share.

  The WebTransport stream below is an environment: each poll of the adapter carries the answers the
  transport gives during that poll, in order, and when they run out the transport is pending. An
  answer to \<open>poll_send\<close> says how many bytes it took from the front of the chunk. The transport's
  side of a send half is the bytes it took, whether it was finished and whether it was reset.
\<close>

section \<open>Transport\<close>

datatype stream_io_error = ConnectionReset | BrokenPipe

datatype 'a poll = Pending | Ready "(stream_io_error, 'a) result"

datatype send_answer = Took nat | SendFailed

datatype finish_answer = FinishDone | FinishFailed

record send_half =
  sent :: "u8 list"
  fin :: bool
  was_reset :: bool

definition send_half_new :: send_half where
  "send_half_new = \<lparr>sent = [], fin = False, was_reset = False\<rparr>"

definition reset_half :: "send_half \<Rightarrow> send_half" where
  "reset_half h = h\<lparr>was_reset := True\<rparr>"

text \<open>
  One poll of the future of \<open>send_data\<close>: the half, the bytes still to send, and the outcome, \<open>None\<close>
  while the transport is pending.
\<close>

fun send_data :: "send_answer list \<Rightarrow> send_half \<Rightarrow> u8 list \<Rightarrow> send_half \<times> u8 list \<times> bool option" where
  "send_data answers h [] = (h, [], Some True)"
| "send_data [] h (b # data) = (h, b # data, None)"
| "send_data (SendFailed # answers) h (b # data) = (h, b # data, Some False)"
| "send_data (Took n # answers) h (b # data) =
     send_data answers (h\<lparr>sent := sent h @ take n (b # data)\<rparr>) (drop n (b # data))"

section \<open>Write half\<close>

definition MAX_WRITE_CHUNK :: nat where
  "MAX_WRITE_CHUNK = 64 * 1024"

record reset_on_drop =
  half :: send_half
  finished :: bool

definition disarm :: "reset_on_drop \<Rightarrow> reset_on_drop" where
  "disarm r = r\<lparr>finished := True\<rparr>"

definition drop_reset_on_drop :: "reset_on_drop \<Rightarrow> send_half" where
  "drop_reset_on_drop r = (if \<not> finished r then reset_half (half r) else half r)"

datatype write_state =
    Idle reset_on_drop
  | Writing reset_on_drop "u8 list"
  | Finishing reset_on_drop
  | Finished reset_on_drop
  | Failed "reset_on_drop option"

definition write_half_new :: "send_half \<Rightarrow> write_state" where
  "write_half_new h = Idle \<lparr>half = h, finished = False\<rparr>"

fun poll_pending_write :: "send_answer list \<Rightarrow> write_state \<Rightarrow> write_state \<times> unit poll" where
  "poll_pending_write answers (Writing r data) =
     (case send_data answers (half r) data of
        (h, rest, None) \<Rightarrow> (Writing (r\<lparr>half := h\<rparr>) rest, Pending)
      | (h, rest, Some True) \<Rightarrow> (Idle (r\<lparr>half := h\<rparr>), Ready (Inr ()))
      | (h, rest, Some False) \<Rightarrow> (Failed (Some (r\<lparr>half := h\<rparr>)), Ready (Inl ConnectionReset)))"
| "poll_pending_write answers s = (s, Ready (Inr ()))"

text \<open>
  The answers are split between the chunk in flight before the call and the chunk the call starts.
\<close>

definition start_write :: "send_answer list \<Rightarrow> u8 list \<Rightarrow> write_state \<Rightarrow> write_state \<times> nat poll" where
  "start_write answers buffer s =
     (case s of
        Idle r \<Rightarrow>
          (let size = min (length buffer) MAX_WRITE_CHUNK
           in case poll_pending_write answers (Writing r (take size buffer)) of
                (s', Ready (Inl e)) \<Rightarrow> (s', Ready (Inl e))
              | (s', _) \<Rightarrow> (s', Ready (Inr size)))
      | _ \<Rightarrow> (s, Ready (Inl BrokenPipe)))"

definition poll_write ::
  "send_answer list \<Rightarrow> send_answer list \<Rightarrow> u8 list \<Rightarrow> write_state \<Rightarrow> write_state \<times> nat poll" where
  "poll_write before answers buffer s =
     (case poll_pending_write before s of
        (s', Pending) \<Rightarrow> (s', Pending)
      | (s', Ready (Inl e)) \<Rightarrow> (s', Ready (Inl e))
      | (s', Ready (Inr _)) \<Rightarrow> start_write answers buffer s')"

definition poll_flush :: "send_answer list \<Rightarrow> write_state \<Rightarrow> write_state \<times> unit poll" where
  "poll_flush answers s = poll_pending_write answers s"

text \<open>One poll of the future that finishes the stream, and the loop of \<open>poll_shutdown\<close> around it.\<close>

definition poll_finish :: "finish_answer option \<Rightarrow> reset_on_drop \<Rightarrow> write_state \<times> unit poll" where
  "poll_finish answer r =
     (case answer of
        None \<Rightarrow> (Finishing r, Pending)
      | Some FinishDone \<Rightarrow> (Finished (disarm (r\<lparr>half := (half r)\<lparr>fin := True\<rparr>\<rparr>)), Ready (Inr ()))
      | Some FinishFailed \<Rightarrow> (Failed (Some r), Ready (Inl ConnectionReset)))"

fun shutdown_state :: "finish_answer option \<Rightarrow> write_state \<Rightarrow> write_state \<times> unit poll" where
  "shutdown_state answer (Idle r) = poll_finish answer r"
| "shutdown_state answer (Finishing r) = poll_finish answer r"
| "shutdown_state answer (Finished r) = (Finished r, Ready (Inr ()))"
| "shutdown_state answer (Writing r data) = (Writing r data, Ready (Inl BrokenPipe))"
| "shutdown_state answer (Failed r) = (Failed r, Ready (Inl BrokenPipe))"

definition poll_shutdown ::
  "send_answer list \<Rightarrow> finish_answer option \<Rightarrow> write_state \<Rightarrow> write_state \<times> unit poll" where
  "poll_shutdown before answer s =
     (case poll_pending_write before s of
        (s', Pending) \<Rightarrow> (s', Pending)
      | (s', Ready (Inl e)) \<Rightarrow> (s', Ready (Inl e))
      | (s', Ready (Inr _)) \<Rightarrow> shutdown_state answer s')"

text \<open>What the transport holds, and what it holds once the write half is dropped.\<close>

fun transport :: "write_state \<Rightarrow> send_half option" where
  "transport (Idle r) = Some (half r)"
| "transport (Writing r data) = Some (half r)"
| "transport (Finishing r) = Some (half r)"
| "transport (Finished r) = Some (half r)"
| "transport (Failed r) = map_option half r"

fun drop_write_state :: "write_state \<Rightarrow> send_half option" where
  "drop_write_state (Idle r) = Some (drop_reset_on_drop r)"
| "drop_write_state (Writing r data) = Some (drop_reset_on_drop r)"
| "drop_write_state (Finishing r) = Some (drop_reset_on_drop r)"
| "drop_write_state (Finished r) = Some (drop_reset_on_drop r)"
| "drop_write_state (Failed r) = map_option drop_reset_on_drop r"

section \<open>Read half\<close>

datatype recv_answer = Chunk "u8 list" | Fin | RecvFailed

record read_half =
  buffered :: "u8 list"
  ended :: bool

definition read_half_new :: read_half where
  "read_half_new = \<lparr>buffered = [], ended = False\<rparr>"

text \<open>
  The receive loop takes answers while nothing is buffered and the stream has not ended; the rest of
  the answers is left to the next poll.
\<close>

fun fill :: "recv_answer list \<Rightarrow> read_half \<Rightarrow> recv_answer list \<times> read_half \<times> unit poll" where
  "fill answers r =
     (if buffered r \<noteq> [] \<or> ended r then (answers, r, Ready (Inr ()))
      else case answers of
             [] \<Rightarrow> ([], r, Pending)
           | Chunk c # rest \<Rightarrow> fill rest (r\<lparr>buffered := c\<rparr>)
           | Fin # rest \<Rightarrow> fill rest (r\<lparr>ended := True\<rparr>)
           | RecvFailed # rest \<Rightarrow> (rest, r, Ready (Inl ConnectionReset)))"

declare fill.simps [simp del]

definition poll_read ::
  "recv_answer list \<Rightarrow> nat \<Rightarrow> read_half \<Rightarrow> recv_answer list \<times> read_half \<times> u8 list poll" where
  "poll_read answers remaining r =
     (case fill answers r of
        (rest, r', Pending) \<Rightarrow> (rest, r', Pending)
      | (rest, r', Ready (Inl e)) \<Rightarrow> (rest, r', Ready (Inl e))
      | (rest, r', Ready (Inr _)) \<Rightarrow>
          (let size = min (length (buffered r')) remaining
           in (rest, r'\<lparr>buffered := drop size (buffered r')\<rparr>, Ready (Inr (take size (buffered r'))))))"

section \<open>Users of the halves\<close>

text \<open>
  Calls on a write half in the order they are made, with the bytes accepted so far (the prefix of the
  buffer that \<open>poll_write\<close> reported) and whether a shutdown has completed.
\<close>

datatype write_call =
    Write "send_answer list" "send_answer list" "u8 list"
  | Flush "send_answer list"
  | ShutdownWrite "send_answer list" "finish_answer option"

record writer =
  state :: write_state
  accepted :: "u8 list"
  shut :: bool
  broken :: bool

definition writer_new :: writer where
  "writer_new = \<lparr>state = write_half_new send_half_new, accepted = [], shut = False, broken = False\<rparr>"

fun do_write :: "write_call \<Rightarrow> writer \<Rightarrow> writer" where
  "do_write (Write before answers buffer) w =
     (case poll_write before answers buffer (state w) of
        (s, Ready (Inr n)) \<Rightarrow> w\<lparr>state := s, accepted := accepted w @ take n buffer\<rparr>
      | (s, Ready (Inl e)) \<Rightarrow> w\<lparr>state := s, broken := True\<rparr>
      | (s, Pending) \<Rightarrow> w\<lparr>state := s\<rparr>)"
| "do_write (Flush answers) w =
     (case poll_flush answers (state w) of
        (s, Ready (Inl e)) \<Rightarrow> w\<lparr>state := s, broken := True\<rparr>
      | (s, _) \<Rightarrow> w\<lparr>state := s\<rparr>)"
| "do_write (ShutdownWrite before answer) w =
     (case poll_shutdown before answer (state w) of
        (s, Ready (Inr _)) \<Rightarrow> w\<lparr>state := s, shut := True\<rparr>
      | (s, Ready (Inl e)) \<Rightarrow> w\<lparr>state := s, broken := True\<rparr>
      | (s, Pending) \<Rightarrow> w\<lparr>state := s\<rparr>)"

definition run_writer :: "write_call list \<Rightarrow> writer" where
  "run_writer calls = fold do_write calls writer_new"

record reader =
  source :: "recv_answer list"
  reading :: read_half
  got :: "u8 list"
  eof :: bool

text \<open>Reads with the given buffer sizes; a read of no bytes into a non-empty buffer is end-of-file.\<close>

definition read_call :: "nat \<Rightarrow> reader \<Rightarrow> reader" where
  "read_call remaining r =
     (case poll_read (source r) remaining (reading r) of
        (rest, h, Ready (Inr bytes)) \<Rightarrow>
          r\<lparr>source := rest, reading := h, got := got r @ bytes, eof := (eof r \<or> bytes = [] \<and> 0 < remaining)\<rparr>
      | (rest, h, _) \<Rightarrow> r\<lparr>source := rest, reading := h\<rparr>)"

definition run_reader :: "recv_answer list \<Rightarrow> nat list \<Rightarrow> reader" where
  "run_reader answers sizes =
     fold read_call sizes \<lparr>source = answers, reading = read_half_new, got = [], eof = False\<rparr>"

text \<open>
  A reliable ordered stream: the chunks a receiver is given concatenate to a prefix of the bytes the
  sender's side took, and the end is reported only for a finished stream whose bytes were all given.
\<close>

fun received_bytes :: "recv_answer list \<Rightarrow> u8 list" where
  "received_bytes [] = []"
| "received_bytes (Chunk c # answers) = c @ received_bytes answers"
| "received_bytes (Fin # answers) = []"
| "received_bytes (RecvFailed # answers) = received_bytes answers"

definition delivers :: "send_half \<Rightarrow> recv_answer list \<Rightarrow> bool" where
  "delivers h answers =
     (prefix (received_bytes answers) (sent h) \<and>
      (Fin \<in> set answers \<longrightarrow> fin h \<and> received_bytes answers = sent h))"

section \<open>Lease\<close>

text \<open>
  The lease both halves share. Dropping a half runs \<open>dropping_half\<close>, then drops the half's transport
  handles, then its reference to the lease; the two halves may be dropped by different tasks, so
  these steps interleave. The resource is released with the last reference.
\<close>

datatype half_phase = InUse | Counted | HandlesDropped | LeaseReleased

record stream_lease =
  halves :: nat
  before_drops :: nat
  phases :: "bool \<Rightarrow> half_phase"

definition stream_lease_new :: stream_lease where
  "stream_lease_new = \<lparr>halves = 2, before_drops = 0, phases = (\<lambda>_. InUse)\<rparr>"

definition dropping_half :: "stream_lease \<Rightarrow> stream_lease" where
  "dropping_half l =
     (let before = halves l; l = l\<lparr>halves := halves l - 1\<rparr>
      in if before = 1 then l\<lparr>before_drops := before_drops l + 1\<rparr> else l)"

definition half_step :: "bool \<Rightarrow> stream_lease \<Rightarrow> stream_lease" where
  "half_step h l =
     (case phases l h of
        InUse \<Rightarrow> (dropping_half l)\<lparr>phases := (phases l)(h := Counted)\<rparr>
      | Counted \<Rightarrow> l\<lparr>phases := (phases l)(h := HandlesDropped)\<rparr>
      | HandlesDropped \<Rightarrow> l\<lparr>phases := (phases l)(h := LeaseReleased)\<rparr>
      | LeaseReleased \<Rightarrow> l)"

definition run_lease :: "bool list \<Rightarrow> stream_lease" where
  "run_lease steps = fold half_step steps stream_lease_new"

definition resource_released :: "stream_lease \<Rightarrow> bool" where
  "resource_released l = (phases l True = LeaseReleased \<and> phases l False = LeaseReleased)"

section \<open>Facts\<close>

lemma send_data_conserves:
  "send_data answers h data = (h', rest, outcome) \<Longrightarrow>
     sent h' @ rest = sent h @ data \<and> length rest \<le> length data \<and> fin h' = fin h \<and> was_reset h' = was_reset h \<and>
     (outcome = Some True \<longrightarrow> rest = [])"
  by (induction answers h data arbitrary: h' rest outcome rule: send_data.induct) auto

definition comparable :: "'a list \<Rightarrow> 'a list \<Rightarrow> bool" where
  "comparable xs ys = (prefix xs ys \<or> prefix ys xs)"

lemma comparable_append [simp]: "comparable xs (xs @ ys)" "comparable xs xs"
  by (simp_all add: comparable_def)

text \<open>
  The write half after bytes were accepted: every accepted byte was sent, or is left in the chunk in
  flight, as long as no call failed; the stream is finished exactly when a shutdown completed.
\<close>

fun write_ok :: "write_state \<Rightarrow> u8 list \<Rightarrow> bool \<Rightarrow> bool \<Rightarrow> bool" where
  "write_ok (Idle r) bytes done failed =
     (sent (half r) = bytes \<and> \<not> fin (half r) \<and> \<not> was_reset (half r) \<and> \<not> finished r \<and> \<not> done)"
| "write_ok (Writing r data) bytes done failed =
     (sent (half r) @ data = bytes \<and> length data \<le> MAX_WRITE_CHUNK \<and> \<not> fin (half r) \<and> \<not> was_reset (half r) \<and> \<not> finished r \<and> \<not> done)"
| "write_ok (Finishing r) bytes done failed =
     (sent (half r) = bytes \<and> \<not> fin (half r) \<and> \<not> was_reset (half r) \<and> \<not> finished r \<and> \<not> done)"
| "write_ok (Finished r) bytes done failed =
     (sent (half r) = bytes \<and> fin (half r) \<and> \<not> was_reset (half r) \<and> finished r \<and> done)"
| "write_ok (Failed None) bytes done failed = False"
| "write_ok (Failed (Some r)) bytes done failed =
     (comparable (sent (half r)) bytes \<and> \<not> fin (half r) \<and> \<not> was_reset (half r) \<and> \<not> finished r \<and>
      \<not> done \<and> failed)"

lemma write_ok_failed [intro]: "write_ok s bytes done failed \<Longrightarrow> write_ok s bytes done True"
  by (cases "(s, bytes, done, failed)" rule: write_ok.cases) auto

definition in_flight :: "write_state \<Rightarrow> bool" where
  "in_flight s = (case s of Writing r data \<Rightarrow> True | _ \<Rightarrow> False)"

lemma pending_write_ok:
  assumes "write_ok s bytes done failed" "poll_pending_write answers s = (s', p)"
  shows "(p = Pending \<and> write_ok s' bytes done failed) \<or>
    (p = Ready (Inr ()) \<and> write_ok s' bytes done failed \<and> \<not> in_flight s') \<or>
    (\<exists>e. p = Ready (Inl e) \<and> write_ok s' bytes done True)"
proof (cases s)
  case (Writing r data)
  obtain h rest outcome where "send_data answers (half r) data = (h, rest, outcome)" by (metis prod_cases3)
  with send_data_conserves [OF this] Writing assms show ?thesis
    by (cases outcome) (auto simp: in_flight_def split: bool.splits if_splits)
qed (use assms in \<open>auto simp: in_flight_def\<close>)

lemma shutdown_state_ok:
  assumes "write_ok s bytes done failed" "shutdown_state answer s = (s', p)" "\<not> in_flight s"
  shows "(p = Pending \<and> write_ok s' bytes done failed) \<or>
    (p = Ready (Inr ()) \<and> write_ok s' bytes True failed) \<or>
    (\<exists>e. p = Ready (Inl e) \<and> write_ok s' bytes done True)"
  using assms
  by (cases s) (auto simp: in_flight_def poll_finish_def disarm_def comparable_def
                     split: option.splits finish_answer.splits)

lemma start_write_ok:
  assumes "write_ok s bytes done failed" "start_write answers buffer s = (s', p)" "\<not> in_flight s"
  shows "(\<exists>n. p = Ready (Inr n) \<and> write_ok s' (bytes @ take n buffer) done failed) \<or>
    (\<exists>e. p = Ready (Inl e) \<and> write_ok s' bytes done True)"
proof (cases s)
  case (Idle r)
  let ?chunk = "take (min (length buffer) MAX_WRITE_CHUNK) buffer"
  obtain h rest outcome where sd: "send_data answers (half r) ?chunk = (h, rest, outcome)" by (metis prod_cases3)
  note c = send_data_conserves [OF sd]
  have "comparable (sent h) bytes" if "sent h @ rest = bytes @ ?chunk"
    using that by (auto simp: comparable_def append_eq_append_conv2)
  with sd c Idle assms show ?thesis
    by (cases outcome) (auto simp: start_write_def Let_def split: bool.splits if_splits)
qed (use assms in \<open>auto simp: start_write_def in_flight_def\<close>)

lemma do_write_ok:
  assumes "write_ok (state w) (accepted w) (shut w) (broken w)"
  shows "let w' = do_write call w in write_ok (state w') (accepted w') (shut w') (broken w')"
proof (cases call)
  case (Write before answers buffer)
  obtain s p where s: "poll_pending_write before (state w) = (s, p)" by fastforce
  show ?thesis
    using pending_write_ok [OF assms s]
  proof (elim disjE conjE exE)
    assume p: "p = Ready (Inr ())" and ok: "write_ok s (accepted w) (shut w) (broken w)" and "\<not> in_flight s"
    moreover obtain s' p' where s': "start_write answers buffer s = (s', p')" by fastforce
    ultimately show ?thesis
      using start_write_ok [OF ok s'] s Write by (auto simp: poll_write_def)
  qed (use s Write in \<open>auto simp: poll_write_def\<close>)
next
  case (Flush answers)
  obtain s p where s: "poll_pending_write answers (state w) = (s, p)" by fastforce
  with pending_write_ok [OF assms s] Flush show ?thesis by (auto simp: poll_flush_def)
next
  case (ShutdownWrite before answer)
  obtain s p where s: "poll_pending_write before (state w) = (s, p)" by fastforce
  show ?thesis
    using pending_write_ok [OF assms s]
  proof (elim disjE conjE exE)
    assume p: "p = Ready (Inr ())" and ok: "write_ok s (accepted w) (shut w) (broken w)" and "\<not> in_flight s"
    moreover obtain s' p' where s': "shutdown_state answer s = (s', p')" by fastforce
    ultimately show ?thesis
      using shutdown_state_ok [OF ok s'] s ShutdownWrite by (auto simp: poll_shutdown_def)
  qed (use s ShutdownWrite in \<open>auto simp: poll_shutdown_def\<close>)
qed

lemma run_writer_ok:
  "write_ok (state (run_writer calls)) (accepted (run_writer calls)) (shut (run_writer calls)) (broken (run_writer calls))"
proof (induction calls rule: rev_induct)
  case Nil
  then show ?case by (simp add: run_writer_def writer_new_def write_half_new_def send_half_new_def)
next
  case (snoc call calls)
  with do_write_ok [OF snoc, of call] show ?case by (simp add: run_writer_def Let_def)
qed

section \<open>Reader\<close>

definition reader_ok :: "recv_answer list \<Rightarrow> reader \<Rightarrow> bool" where
  "reader_ok answers r =
     (got r @ buffered (reading r) @ (if ended (reading r) then [] else received_bytes (source r)) = received_bytes answers \<and>
      set (source r) \<subseteq> set answers \<and> (ended (reading r) \<longrightarrow> Fin \<in> set answers) \<and>
      (eof r \<longrightarrow> ended (reading r) \<and> buffered (reading r) = []))"

lemma fill_conserves:
  "fill answers r = (rest, r', p) \<Longrightarrow> r = \<lparr>buffered = b, ended = d\<rparr> \<Longrightarrow>
     buffered r' @ (if ended r' then [] else received_bytes rest) = b @ (if d then [] else received_bytes answers) \<and>
     set rest \<subseteq> set answers \<and> (ended r' \<longrightarrow> d \<or> Fin \<in> set answers) \<and> (d \<longrightarrow> r' = r) \<and>
     (p = Ready (Inr ()) \<longrightarrow> buffered r' \<noteq> [] \<or> ended r')"
proof (induction answers arbitrary: r b d)
  case Nil
  then show ?case by (auto simp: fill.simps [of "[]"] split: if_splits)
next
  case (Cons a answers)
  show ?case
  proof (cases "b \<noteq> [] \<or> d")
    case True
    with Cons.prems show ?thesis by (auto simp: fill.simps [of "a # answers"])
  next
    case False
    show ?thesis
    proof (cases a)
      case (Chunk c)
      with False Cons.prems Cons.IH [of "\<lparr>buffered = c, ended = False\<rparr>" c False] show ?thesis
        by (auto simp: fill.simps [of "Chunk c # answers"])
    next
      case Fin
      with False Cons.prems Cons.IH [of "\<lparr>buffered = [], ended = True\<rparr>" "[]" True] show ?thesis
        by (auto simp: fill.simps [of "Fin # answers"])
    next
      case RecvFailed
      with False Cons.prems show ?thesis by (auto simp: fill.simps [of "RecvFailed # answers"])
    qed
  qed
qed

lemma take_drop_append: "take k xs @ drop k xs @ ys = xs @ ys"
  by (metis append_assoc append_take_drop_id)

lemma read_call_ok:
  assumes "reader_ok answers r"
  shows "reader_ok answers (read_call n r)"
proof -
  obtain rest h p where f: "fill (source r) (reading r) = (rest, h, p)" by (metis prod_cases3)
  have c:
    "buffered h @ (if ended h then [] else received_bytes rest) =
       buffered (reading r) @ (if ended (reading r) then [] else received_bytes (source r))"
    "set rest \<subseteq> set (source r)" "ended h \<longrightarrow> ended (reading r) \<or> Fin \<in> set (source r)"
    "ended (reading r) \<longrightarrow> h = reading r" "p = Ready (Inr ()) \<longrightarrow> buffered h \<noteq> [] \<or> ended h"
    using fill_conserves [OF f, of "buffered (reading r)" "ended (reading r)"] by simp_all
  have ok: "got r @ buffered h @ (if ended h then [] else received_bytes rest) = received_bytes answers"
    "set rest \<subseteq> set answers" "ended h \<longrightarrow> Fin \<in> set answers" "eof r \<longrightarrow> ended h \<and> buffered h = []"
    subgoal using assms c(1) by (simp add: reader_ok_def)
    subgoal using assms c(2) by (auto simp: reader_ok_def)
    subgoal using assms c(3) by (auto simp: reader_ok_def)
    subgoal using assms c(4) by (auto simp: reader_ok_def)
    done
  show ?thesis
  proof (cases "p = Ready (Inr ())")
    case True
    have "eof (read_call n r) \<longrightarrow> ended h \<and> buffered h = []"
      using True ok(4) c(5) by (cases "buffered h"; cases n) (auto simp: read_call_def poll_read_def f Let_def)
    then show ?thesis
      using True ok by (auto simp: read_call_def poll_read_def f Let_def reader_ok_def take_drop_append)
  next
    case False
    then have "read_call n r = r\<lparr>source := rest, reading := h\<rparr>"
      by (auto simp: read_call_def poll_read_def f split: poll.splits sum.splits)
    with ok show ?thesis by (auto simp: reader_ok_def)
  qed
qed

lemma run_reader_ok: "reader_ok answers (run_reader answers sizes)"
proof (induction sizes rule: rev_induct)
  case Nil
  show ?case by (simp add: run_reader_def reader_ok_def read_half_new_def)
next
  case (snoc n sizes)
  with read_call_ok [OF snoc, of n] show ?case by (simp add: run_reader_def)
qed

section \<open>Properties\<close>

text \<open>
  C13: however the transport splits, delays or fails a Visitor stream, the bytes read on one side are
  those accepted by the other, in order: after any calls on the write half and its drop, the stream
  was finished exactly when a shutdown completed and was reset otherwise, at most one 64 KiB chunk is
  in flight, and every sequence of reads of what a reliable ordered transport delivers yields a prefix
  of the accepted bytes as long as no write failed. End-of-file is reported only after all of them, so
  an aborted stream never looks complete.
\<close>

theorem visitor_stream_lossless:
  assumes "run_writer calls = w"
  shows "(\<exists>h. drop_write_state (state w) = Some h \<and> (fin h \<longleftrightarrow> shut w) \<and> (was_reset h \<longleftrightarrow> \<not> shut w) \<and>
      (\<forall>answers sizes. delivers h answers \<longrightarrow>
         (\<not> broken w \<longrightarrow> prefix (got (run_reader answers sizes)) (accepted w)) \<and>
         (eof (run_reader answers sizes) \<longrightarrow> got (run_reader answers sizes) = accepted w \<and> shut w))) \<and>
    (\<forall>r data. state w = Writing r data \<longrightarrow> length data \<le> MAX_WRITE_CHUNK)"
proof -
  have ok: "write_ok (state w) (accepted w) (shut w) (broken w)" using run_writer_ok [of calls] assms by simp
  then obtain h where h: "drop_write_state (state w) = Some h" "fin h \<longleftrightarrow> shut w" "was_reset h \<longleftrightarrow> \<not> shut w"
    "\<not> broken w \<longrightarrow> prefix (sent h) (accepted w)" "shut w \<longrightarrow> sent h = accepted w"
    by (cases "(state w, accepted w, shut w, broken w)" rule: write_ok.cases)
       (auto simp: drop_reset_on_drop_def reset_half_def)
  have "(\<not> broken w \<longrightarrow> prefix (got r) (accepted w)) \<and> (eof r \<longrightarrow> got r = accepted w \<and> shut w)"
    if "delivers h answers" "r = run_reader answers sizes" for answers sizes r
  proof -
    have r: "reader_ok answers r" using run_reader_ok that(2) by simp
    then have "prefix (got r) (received_bytes answers)" by (metis prefixI reader_ok_def)
    moreover have "eof r \<longrightarrow> got r = received_bytes answers \<and> Fin \<in> set answers" using r by (auto simp: reader_ok_def)
    ultimately show ?thesis using that(1) h unfolding delivers_def by (metis prefix_order.trans)
  qed
  moreover have "length data \<le> MAX_WRITE_CHUNK" if "state w = Writing r data" for r data
    using ok that by simp
  ultimately show ?thesis using h(1-3) by blast
qed

theorem visitor_stream_lossless_witness:
  "let w = run_writer [Write [] [Took 1] [1, 2, 3], Flush [Took 5], Write [] [] [4], ShutdownWrite [Took 1] None,
          ShutdownWrite [] (Some FinishDone)];
       r = run_reader [Chunk [1, 2], Chunk [], Chunk [3, 4], Fin] [1, 8, 8, 8]
   in shut w \<and> eof r \<and> got r = accepted w \<and> accepted w = [1, 2, 3, 4]"
proof -
  define calls where "calls = [Write [] [Took 1] [1, 2, 3], Flush [Took 5], Write [] [] [4],
    ShutdownWrite [Took 1] None, ShutdownWrite [] (Some FinishDone)]"
  define answers where "answers = [Chunk [1, 2], Chunk [], Chunk [3, 4], Fin]"
  define w where "w = run_writer calls"
  note d = run_writer_def writer_new_def write_half_new_def send_half_new_def poll_write_def start_write_def
    poll_flush_def poll_shutdown_def poll_finish_def disarm_def drop_reset_on_drop_def MAX_WRITE_CHUNK_def
  have dropped: "drop_write_state (state w) = Some \<lparr>sent = [1, 2, 3, 4], fin = True, was_reset = False\<rparr>"
    "accepted w = [1, 2, 3, 4]"
    by (simp_all add: w_def calls_def d)
  have "eof (run_reader answers [1, 8, 8, 8])"
    by (simp add: answers_def run_reader_def read_call_def poll_read_def fill.simps read_half_new_def)
  moreover have "delivers \<lparr>sent = [1, 2, 3, 4], fin = True, was_reset = False\<rparr> answers"
    by (simp add: delivers_def answers_def)
  ultimately have "got (run_reader answers [1, 8, 8, 8]) = accepted w \<and> shut w"
    using visitor_stream_lossless [of calls w] dropped(1) w_def by auto
  then show ?thesis
    using \<open>eof (run_reader answers [1, 8, 8, 8])\<close> dropped(2)
    by (simp add: w_def calls_def answers_def Let_def)
qed

section \<open>Lease order\<close>

definition lease_ok :: "stream_lease \<Rightarrow> bool" where
  "lease_ok l =
     (halves l = of_bool (phases l True = InUse) + of_bool (phases l False = InUse) \<and>
      before_drops l = of_bool (halves l = 0))"

lemma half_step_ok: "lease_ok l \<Longrightarrow> lease_ok (half_step h l)"
  by (cases h; cases "phases l True"; cases "phases l False")
     (auto simp: lease_ok_def half_step_def dropping_half_def Let_def)

lemma run_lease_ok: "lease_ok (run_lease steps)"
proof (induction steps rule: rev_induct)
  case Nil
  show ?case by (simp add: run_lease_def stream_lease_new_def lease_ok_def)
next
  case (snoc h steps)
  with half_step_ok [OF snoc, of h] show ?case by (simp add: run_lease_def)
qed

text \<open>
  The resource's \<open>before_drop\<close> runs once, only after both halves began to drop, and before the later
  half drops its transport handles; the resource goes after the handles of both.
\<close>

lemma lease_order:
  "before_drops (run_lease steps) \<le> 1"
  "before_drops (run_lease steps) = 1 \<longleftrightarrow> (\<forall>h. phases (run_lease steps) h \<noteq> InUse)"
  "(\<forall>h. phases (run_lease steps) h \<in> {HandlesDropped, LeaseReleased}) \<Longrightarrow> before_drops (run_lease steps) = 1"
  "resource_released (run_lease steps) \<Longrightarrow>
     before_drops (run_lease steps) = 1 \<and> (\<forall>h. phases (run_lease steps) h \<in> {HandlesDropped, LeaseReleased})"
  using run_lease_ok [of steps] by (auto simp: lease_ok_def resource_released_def all_bool_eq of_bool_def split: if_splits)

end
