(* ===== verification/Stream_Replay.thy ===== *)
theory Stream_Replay
  imports Tunnel_Stream
begin

text \<open>
  Two readers that give back bytes already taken from a stream before they go on with it: the
  Client's \<open>ReplayedTunnelStream\<close> (\<open>src/src/client/tunnel_stream.rs\<close>) and the Server's
  \<open>PrefixedStream\<close> (\<open>src/src/server/visitor_stream.rs\<close>). Both feed a buffered ClientHello to a TLS
  acceptor. Their contract is one locale; the inner stream is any reader.
\<close>

type_synonym 'i byte_reader = "nat \<Rightarrow> 'i \<Rightarrow> 'i \<times> u8 list poll"

record 'i replayed_tunnel_stream =
  replayed_inner :: 'i
  replayed_bytes :: "u8 list"
  replay_offset :: nat

definition replayed_tunnel_stream_new :: "'i \<Rightarrow> u8 list \<Rightarrow> 'i replayed_tunnel_stream" where
  "replayed_tunnel_stream_new stream bytes =
     \<lparr>replayed_inner = stream, replayed_bytes = bytes, replay_offset = 0\<rparr>"

definition replayed_poll_read :: "'i byte_reader \<Rightarrow> 'i replayed_tunnel_stream byte_reader" where
  "replayed_poll_read inner_read space s =
     (if replay_offset s < length (replayed_bytes s) then
        let remaining = drop (replay_offset s) (replayed_bytes s);
            to_copy = min (length remaining) space
        in (s\<lparr>replay_offset := replay_offset s + to_copy\<rparr>, Ready (Inr (take to_copy remaining)))
      else
        let (inner, p) = inner_read space (replayed_inner s)
        in (s\<lparr>replayed_inner := inner\<rparr>, p))"

text \<open>The Server's variant keeps its position in a cursor of 64 bits.\<close>

record 'i prefixed_stream =
  prefix_bytes :: "u8 list"
  prefix_position :: u64
  prefixed_inner :: 'i

definition prefixed_stream_new :: "u8 list \<Rightarrow> 'i \<Rightarrow> 'i prefixed_stream" where
  "prefixed_stream_new bytes inner = \<lparr>prefix_bytes = bytes, prefix_position = 0, prefixed_inner = inner\<rparr>"

definition prefixed_poll_read :: "'i byte_reader \<Rightarrow> 'i prefixed_stream byte_reader" where
  "prefixed_poll_read inner_read space s =
     (if prefix_position s < word_of_nat (length (prefix_bytes s)) then
        let remaining = drop (unat (prefix_position s)) (prefix_bytes s);
            to_copy = min (length remaining) space
        in (s\<lparr>prefix_position := prefix_position s + word_of_nat to_copy\<rparr>, Ready (Inr (take to_copy remaining)))
      else
        let (inner, p) = inner_read space (prefixed_inner s)
        in (s\<lparr>prefixed_inner := inner\<rparr>, p))"

section \<open>Contract\<close>

text \<open>Reads with the given buffer sizes and the bytes they return together.\<close>

fun run_reads :: "'s byte_reader \<Rightarrow> nat list \<Rightarrow> 's \<Rightarrow> 's \<times> u8 list" where
  "run_reads rd [] s = (s, [])"
| "run_reads rd (n # ns) s =
     (case rd n s of
        (s', Ready (Inr bytes)) \<Rightarrow> (let (s'', more) = run_reads rd ns s' in (s'', bytes @ more))
      | (s', _) \<Rightarrow> run_reads rd ns s')"

locale replaying_reader =
  fixes rd :: "'s byte_reader"
    and ok :: "'s \<Rightarrow> bool"
    and pending :: "'s \<Rightarrow> u8 list"
    and inner :: "'s \<Rightarrow> 'i"
    and inner_rd :: "'i byte_reader"
  assumes replays: "ok s \<Longrightarrow> pending s \<noteq> [] \<Longrightarrow>
      \<exists>s'. rd n s = (s', Ready (Inr (take n (pending s)))) \<and> ok s' \<and> pending s' = drop n (pending s) \<and> inner s' = inner s"
    and passes: "ok s \<Longrightarrow> pending s = [] \<Longrightarrow>
      \<exists>s'. rd n s = (s', snd (inner_rd n (inner s))) \<and> ok s' \<and> pending s' = [] \<and> inner s' = fst (inner_rd n (inner s))"
begin

lemma reads_after_replay:
  assumes "ok s" "pending s = []"
  shows "\<exists>s'. run_reads rd ns s = (s', snd (run_reads inner_rd ns (inner s))) \<and> ok s' \<and> pending s' = [] \<and>
    inner s' = fst (run_reads inner_rd ns (inner s))"
  using assms
proof (induction ns arbitrary: s)
  case (Cons n ns)
  obtain s' where s': "rd n s = (s', snd (inner_rd n (inner s)))" "ok s'" "pending s' = []"
    "inner s' = fst (inner_rd n (inner s))" using passes Cons.prems by blast
  obtain s'' where s'': "run_reads rd ns s' = (s'', snd (run_reads inner_rd ns (inner s')))" "ok s''" "pending s'' = []"
    "inner s'' = fst (run_reads inner_rd ns (inner s'))" using Cons.IH s'(2,3) by blast
  then show ?case using s'
    by (cases "inner_rd n (inner s)") (auto simp: split_def Let_def split: poll.splits sum.splits)
qed simp

text \<open>The buffered bytes come first and once, then what the inner stream gives to the remaining reads.\<close>

lemma reads_replay_first:
  assumes "ok s"
  shows "\<exists>s' got ms. run_reads rd ns s = (s', got) \<and> ok s' \<and>
    inner s' = fst (run_reads inner_rd ms (inner s)) \<and>
    pending s @ snd (run_reads inner_rd ms (inner s)) = got @ pending s' \<and> (pending s' \<noteq> [] \<longrightarrow> ms = [])"
  using assms
proof (induction ns arbitrary: s)
  case Nil
  then show ?case by (intro exI [of _ s] exI [of _ "[]"]) simp
next
  case (Cons n ns)
  show ?case
  proof (cases "pending s = []")
    case True
    with reads_after_replay [OF Cons.prems True, of "n # ns"] show ?thesis by (metis append_Nil append_Nil2)
  next
    case False
    obtain s' where s': "rd n s = (s', Ready (Inr (take n (pending s))))" "ok s'" "pending s' = drop n (pending s)"
      "inner s' = inner s" using replays [OF Cons.prems False] by blast
    obtain s'' got ms where s'': "run_reads rd ns s' = (s'', got)" "ok s''"
      "inner s'' = fst (run_reads inner_rd ms (inner s'))"
      "pending s' @ snd (run_reads inner_rd ms (inner s')) = got @ pending s''" "pending s'' \<noteq> [] \<longrightarrow> ms = []"
      using Cons.IH s'(2) by blast
    have "pending s @ snd (run_reads inner_rd ms (inner s)) =
        take n (pending s) @ (pending s' @ snd (run_reads inner_rd ms (inner s')))"
      by (simp add: s'(3,4) take_drop_append)
    then have "pending s @ snd (run_reads inner_rd ms (inner s)) = (take n (pending s) @ got) @ pending s''"
      by (simp only: s''(4) append_assoc)
    then show ?thesis
      using s' s'' by (intro exI [of _ s''] exI [of _ "take n (pending s) @ got"] exI [of _ ms]) simp
  qed
qed

end

section \<open>The two readers\<close>

definition replayed_ok :: "'i replayed_tunnel_stream \<Rightarrow> bool" where
  "replayed_ok s = (replay_offset s \<le> length (replayed_bytes s))"

definition replayed_pending :: "'i replayed_tunnel_stream \<Rightarrow> u8 list" where
  "replayed_pending s = drop (replay_offset s) (replayed_bytes s)"

interpretation replayed: replaying_reader "replayed_poll_read inner_read" replayed_ok replayed_pending replayed_inner inner_read
  for inner_read :: "'i byte_reader"
proof (unfold_locales, goal_cases)
  case (1 s n)
  then show ?case
    by (auto simp: replayed_poll_read_def replayed_ok_def replayed_pending_def Let_def min_def add.commute)
next
  case (2 s n)
  then show ?case by (simp add: replayed_poll_read_def replayed_ok_def replayed_pending_def split_def Let_def)
qed

definition prefixed_ok :: "'i prefixed_stream \<Rightarrow> bool" where
  "prefixed_ok s = (length (prefix_bytes s) < 2 ^ 64 \<and> unat (prefix_position s) \<le> length (prefix_bytes s))"

definition prefixed_pending :: "'i prefixed_stream \<Rightarrow> u8 list" where
  "prefixed_pending s = drop (unat (prefix_position s)) (prefix_bytes s)"

lemma u64_less_nat: "n < 2 ^ 64 \<Longrightarrow> (p :: u64) < word_of_nat n \<longleftrightarrow> unat p < n"
  by (simp add: word_less_nat_alt unat_of_nat take_bit_nat_eq_self)

lemma take_min: "take (min (length xs) n) xs = take n xs"
  by (simp add: min_def)

lemma take_min_drop: "take (min (length xs - i) n) (drop i xs) = take n (drop i xs)"
  using take_min [of "drop i xs" n] by simp

lemma u64_plus_nat: "unat (p :: u64) + k < 2 ^ 64 \<Longrightarrow> unat (p + word_of_nat k) = unat p + k"
  by (simp add: unat_word_ariths unat_of_nat)

interpretation prefixed: replaying_reader "prefixed_poll_read inner_read" prefixed_ok prefixed_pending prefixed_inner inner_read
  for inner_read :: "'i byte_reader"
proof (unfold_locales, goal_cases)
  case (1 s n)
  define k where "k = min (length (prefix_bytes s) - unat (prefix_position s)) n"
  have k: "unat (prefix_position s) + k \<le> length (prefix_bytes s)" "length (prefix_bytes s) < 2 ^ 64"
    using 1 by (auto simp: prefixed_ok_def k_def)
  then have step: "unat (prefix_position s + word_of_nat k) = unat (prefix_position s) + k"
    by (intro u64_plus_nat) simp
  have "prefixed_poll_read inner_read n s =
      (s\<lparr>prefix_position := prefix_position s + word_of_nat k\<rparr>, Ready (Inr (take n (prefixed_pending s))))"
    using 1 k(2) by (simp add: prefixed_poll_read_def prefixed_pending_def Let_def u64_less_nat k_def take_min_drop)
  moreover have "drop (unat (prefix_position s) + k) (prefix_bytes s) = drop n (prefixed_pending s)"
    by (cases "length (prefix_bytes s) - unat (prefix_position s) \<le> n")
       (auto simp: k_def prefixed_pending_def add.commute)
  ultimately show ?case using k step by (simp add: prefixed_ok_def prefixed_pending_def)
next
  case (2 s n)
  then show ?case by (simp add: prefixed_poll_read_def prefixed_ok_def prefixed_pending_def split_def Let_def u64_less_nat)
qed

end
