(* ===== verification/Client_Stream.thy ===== *)
theory Client_Stream
  imports Client_Hello Stream_Replay "HOL-Library.Multiset"
begin

text \<open>
  A Visitor stream on the Client: the services and their selection (\<open>src/src/client/service.rs\<close>), the
  handler of one Tunnel stream (\<open>src/src/client/tunnel_stream.rs\<close>) with the TLS configurations it
  looks up (\<open>src/src/client/termination_tls.rs\<close>), the log of the stream budget
  (\<open>src/src/client/stream_limits.rs\<close>) and the relay both roles use (\<open>src/src/proxy.rs\<close>).

  Backends and TLS handshakes answer through \<open>stream_surroundings\<close>: what connecting, writing and
  accepting came to.
\<close>

section \<open>Services\<close>

datatype ClientTlsMode = Passthrough | Terminate

record service_config =
  service_hostnames :: "public_hostname list option"
  backend_address :: string
  tls_mode :: ClientTlsMode
  sends_proxy_header :: bool

definition select_service :: "service_config list \<Rightarrow> public_hostname \<Rightarrow> service_config option" where
  "select_service services hostname =
     (if length services = 1 \<and> service_hostnames (hd services) = None then Some (hd services)
      else find (\<lambda>service. case service_hostnames service of
                   None \<Rightarrow> False
                 | Some hostnames \<Rightarrow> list_ex (\<lambda>h. h = hostname) hostnames) services)"

datatype ClientServiceValidationError =
    CatchAllRequiresSingleService | EmptyPublicHostnameList | DuplicatePublicHostname public_hostname

fun validate_services_from ::
  "bool \<Rightarrow> public_hostname set \<Rightarrow> service_config list \<Rightarrow> (ClientServiceValidationError, service_config list) result" where
  "validate_services_from multiple seen [] = Inr []"
| "validate_services_from multiple seen (service # services) =
     and_then
       (case service_hostnames service of
          Some hostnames \<Rightarrow>
            if hostnames = [] then Inl EmptyPublicHostnameList
            else and_then (check_unique DuplicatePublicHostname seen hostnames) (\<lambda>_. Inr (set hostnames \<union> seen))
        | None \<Rightarrow> if multiple then Inl CatchAllRequiresSingleService else Inr seen) (\<lambda>seen.
     and_then (validate_services_from multiple seen services) (\<lambda>validated.
     Inr (service # validated)))"

definition validate_services :: "service_config list \<Rightarrow> (ClientServiceValidationError, service_config list) result" where
  "validate_services services = validate_services_from (1 < length services) {} services"

section \<open>Relay\<close>

datatype relay_failure = RelayRead | RelayWrite | RelayShutdown

text \<open>
  One direction of the relay: first bytes, then everything read until its end, then a shutdown. The
  writer takes \<open>space\<close> bytes before it fails, or all of them.
\<close>

definition relay_half ::
  "u8 list \<Rightarrow> segments \<Rightarrow> stream_end \<Rightarrow> nat option \<Rightarrow> bool \<Rightarrow> u8 list \<times> bool \<times> (relay_failure, unit) result" where
  "relay_half initial segs ending space shutdown_works =
     (let all = initial @ concat segs
      in if (case space of None \<Rightarrow> False | Some k \<Rightarrow> k < length all)
           then (take (the space) all, False, Inl RelayWrite)
         else if ending = Byte_Stream.Failed then (all, False, Inl RelayRead)
         else if shutdown_works then (all, True, Inr ())
         else (all, False, Inl RelayShutdown))"

record relay_side =
  relay_input :: segments
  relay_ending :: stream_end
  relay_space :: "nat option"
  relay_shutdown :: bool

text \<open>
  Both directions run to their own end; the bytes each delivered and whether it was shut down, and
  the first failure in the order tunnel, backend.
\<close>

definition proxy_tcp_over_tunnel ::
  "u8 list \<Rightarrow> relay_side \<Rightarrow> relay_side \<Rightarrow> (u8 list \<times> bool) \<times> (u8 list \<times> bool) \<times> (relay_failure, unit) result" where
  "proxy_tcp_over_tunnel initial to_tunnel to_tcp =
     (let (sent, closed, r) = relay_half initial (relay_input to_tunnel) (relay_ending to_tunnel)
            (relay_space to_tunnel) (relay_shutdown to_tunnel);
          (sent', closed', r') = relay_half [] (relay_input to_tcp) (relay_ending to_tcp)
            (relay_space to_tcp) (relay_shutdown to_tcp)
      in ((sent, closed), (sent', closed'), and_then r (\<lambda>_. r')))"

section \<open>Handler\<close>

datatype ClientRouteOutcome =
    RoutePassthrough string | RouteTerminated string | RejectedNoMatchingService
  | BackendConnectFailed string | BackendWriteFailed string | MissingTlsConfig

datatype stream_failure =
    IntakeTimeout | IntakeRejected TunnelFramingError
  | BackendRefused | BackendConnectTimeout | BackendWrite | BackendWriteTimeout
  | NoTlsConfig public_hostname | HandshakeFailed | HandshakeTimeout
  | ChallengeHandshakeFailed | ChallengeHandshakeTimeout

datatype timed = InTime | FailedInTime | TooLate

record 'acc stream_handler =
  handler_services :: "service_config list"
  default_server_config :: "string \<Rightarrow> bool"
  acme_challenge_server_config :: "string \<Rightarrow> bool"
  handler_tls :: "'acc tls_acceptor"

record stream_surroundings =
  intake_in_time :: bool
  connecting :: "string \<Rightarrow> timed"
  initial_write :: timed
  handshake :: timed

text \<open>
  What handling a stream came to: the result, the routes logged, the backend that was connected with
  the bytes written to it before any relay, the bytes a TLS acceptor reads, and the relay that follows.
\<close>

datatype relay = RawRelay segments | TlsRelay | ChallengeClose

record handled =
  handled_result :: "(stream_failure, unit) result"
  handled_log :: "ClientRouteOutcome list"
  handled_backend :: "(string \<times> u8 list) option"
  handled_tls :: "u8 list option"
  handled_relay :: "relay option"

definition rejected_stream :: "stream_failure \<Rightarrow> ClientRouteOutcome list \<Rightarrow> handled" where
  "rejected_stream failure routes =
     \<lparr>handled_result = Inl failure, handled_log = routes, handled_backend = None, handled_tls = None,
      handled_relay = None\<rparr>"

definition connect_backend :: "stream_surroundings \<Rightarrow> string \<Rightarrow> (stream_failure, unit) result" where
  "connect_backend env address =
     (case connecting env address of
        InTime \<Rightarrow> Inr () | FailedInTime \<Rightarrow> Inl BackendRefused | TooLate \<Rightarrow> Inl BackendConnectTimeout)"

definition write_backend_with_timeout :: "stream_surroundings \<Rightarrow> (stream_failure, unit) result" where
  "write_backend_with_timeout env =
     (case initial_write env of
        InTime \<Rightarrow> Inr () | FailedInTime \<Rightarrow> Inl BackendWrite | TooLate \<Rightarrow> Inl BackendWriteTimeout)"

text \<open>The header in front of the backend's bytes; \<open>None\<close> is the panic of the encoder.\<close>

definition proxy_header :: "service_config \<Rightarrow> visitor_tcp_addresses \<Rightarrow> u8 list option" where
  "proxy_header service a = (if sends_proxy_header service then encode_proxy_v2 a else Some [])"

definition handle_passthrough ::
  "stream_surroundings \<Rightarrow> service_config \<Rightarrow> visitor_tcp_addresses \<Rightarrow> u8 list \<Rightarrow> segments \<Rightarrow> handled option" where
  "handle_passthrough env service a bytes rest =
     (let address = backend_address service
      in case connect_backend env address of
           Inl failure \<Rightarrow> Some (rejected_stream failure [BackendConnectFailed address])
         | Inr _ \<Rightarrow>
             map_option (\<lambda>header.
               case write_backend_with_timeout env of
                 Inl failure \<Rightarrow> rejected_stream failure [BackendWriteFailed address]
               | Inr _ \<Rightarrow>
                   \<lparr>handled_result = Inr (), handled_log = [RoutePassthrough address],
                    handled_backend = Some (address, header @ bytes), handled_tls = None,
                    handled_relay = Some (RawRelay rest)\<rparr>) (proxy_header service a))"

text \<open>A terminated stream: the acceptor reads the buffered ClientHello again, then the stream.\<close>

definition handle_acme_tls_alpn_challenge :: "stream_surroundings \<Rightarrow> u8 list \<Rightarrow> segments \<Rightarrow> handled" where
  "handle_acme_tls_alpn_challenge env bytes rest =
     (case handshake env of
        InTime \<Rightarrow> \<lparr>handled_result = Inr (), handled_log = [], handled_backend = None,
                   handled_tls = Some (bytes @ concat rest), handled_relay = Some ChallengeClose\<rparr>
      | FailedInTime \<Rightarrow> rejected_stream ChallengeHandshakeFailed []
      | TooLate \<Rightarrow> rejected_stream ChallengeHandshakeTimeout [])"

definition finish_terminate ::
  "stream_surroundings \<Rightarrow> service_config \<Rightarrow> visitor_tcp_addresses \<Rightarrow> u8 list \<Rightarrow> segments \<Rightarrow> handled option" where
  "finish_terminate env service a bytes rest =
     (let address = backend_address service;
          relayed = (\<lambda>first. \<lparr>handled_result = Inr (), handled_log = [RouteTerminated address],
                      handled_backend = Some (address, first), handled_tls = Some (bytes @ concat rest),
                      handled_relay = Some TlsRelay\<rparr>)
      in case connect_backend env address of
           Inl failure \<Rightarrow> Some (rejected_stream failure [BackendConnectFailed address])
         | Inr _ \<Rightarrow>
             if sends_proxy_header service
             then map_option (\<lambda>header.
                    case write_backend_with_timeout env of
                      Inl failure \<Rightarrow> rejected_stream failure [RouteTerminated address]
                    | Inr _ \<Rightarrow> relayed header) (encode_proxy_v2 a)
             else Some (relayed []))"

definition handle_terminate ::
  "'acc stream_handler \<Rightarrow> stream_surroundings \<Rightarrow> service_config \<Rightarrow> parsed_client_hello \<Rightarrow>
   visitor_tcp_addresses \<Rightarrow> segments \<Rightarrow> handled option" where
  "handle_terminate handler env service hello a rest =
     (let hostname = public_hostname hello; bytes = buffered_bytes hello
      in if offers_alpn_protocol hello ACME_TLS_ALPN \<and> acme_challenge_server_config handler hostname
           then Some (handle_acme_tls_alpn_challenge env bytes rest)
         else if \<not> default_server_config handler hostname
           then Some (rejected_stream (NoTlsConfig hostname) [MissingTlsConfig])
         else case handshake env of
                FailedInTime \<Rightarrow> Some (rejected_stream HandshakeFailed [])
              | TooLate \<Rightarrow> Some (rejected_stream HandshakeTimeout [])
              | InTime \<Rightarrow> finish_terminate env service a bytes rest)"

definition handle_stream ::
  "'acc stream_handler \<Rightarrow> stream_surroundings \<Rightarrow> stream_end \<Rightarrow> segments \<Rightarrow> handled option" where
  "handle_stream handler env ending stream =
     (if \<not> intake_in_time env then Some (rejected_stream IntakeTimeout [])
      else case read_tunnel_stream (handler_tls handler) ending stream of
             Inl failure \<Rightarrow> Some (rejected_stream (IntakeRejected failure) [])
           | Inr (decoded, rest) \<Rightarrow>
               (let hello = client_hello decoded
                in case select_service (handler_services handler) (public_hostname hello) of
                     None \<Rightarrow>
                       Some \<lparr>handled_result = Inr (), handled_log = [RejectedNoMatchingService],
                             handled_backend = None, handled_tls = None, handled_relay = None\<rparr>
                   | Some service \<Rightarrow>
                       if tls_mode service = Terminate
                       then handle_terminate handler env service hello (addresses decoded) rest
                       else handle_passthrough env service (addresses decoded) (buffered_bytes hello) rest))"

section \<open>Stream budget log\<close>

definition CLIENT_SATURATION_LOG_INTERVAL :: nat where
  "CLIENT_SATURATION_LOG_INTERVAL = 10 * 1000000000"

record client_stream_budget =
  last_saturation_log :: "nat option"
  budget_saturated :: bool

definition note_saturation :: "nat \<Rightarrow> client_stream_budget \<Rightarrow> bool \<times> client_stream_budget" where
  "note_saturation now b =
     (if (case last_saturation_log b of
            None \<Rightarrow> False
          | Some logged \<Rightarrow> now - logged < CLIENT_SATURATION_LOG_INTERVAL) then (False, b)
      else (True, \<lparr>last_saturation_log = Some now, budget_saturated = True\<rparr>))"

definition note_recovery :: "client_stream_budget \<Rightarrow> bool \<times> client_stream_budget" where
  "note_recovery b = (budget_saturated b, b\<lparr>budget_saturated := False\<rparr>)"

section \<open>Validated services\<close>

definition hostnames_of :: "service_config \<Rightarrow> public_hostname list" where
  "hostnames_of service = (case service_hostnames service of None \<Rightarrow> [] | Some hostnames \<Rightarrow> hostnames)"

definition claims :: "service_config \<Rightarrow> public_hostname \<Rightarrow> bool" where
  "claims service hostname =
     (case service_hostnames service of None \<Rightarrow> True | Some hostnames \<Rightarrow> hostname \<in> set hostnames)"

lemma validate_services_from_Inr:
  "validate_services_from multiple seen services = Inr validated \<Longrightarrow>
     validated = services \<and> distinct (concat (map hostnames_of services)) \<and>
     set (concat (map hostnames_of services)) \<inter> seen = {} \<and>
     (\<forall>service\<in>set services. service_hostnames service \<noteq> Some [] \<and>
        (multiple \<longrightarrow> service_hostnames service \<noteq> None))"
proof (induction services arbitrary: seen validated)
  case (Cons service services)
  show ?case
  proof (cases "service_hostnames service")
    case None
    with Cons.prems obtain rest where "\<not> multiple" "validate_services_from multiple seen services = Inr rest"
      "validated = service # rest" by (auto simp: result_simps split: if_splits)
    with Cons.IH [of seen rest] None show ?thesis by (auto simp: hostnames_of_def)
  next
    case (Some hostnames)
    with Cons.prems obtain rest where "hostnames \<noteq> []" "distinct hostnames" "set hostnames \<inter> seen = {}"
      "validate_services_from multiple (set hostnames \<union> seen) services = Inr rest" "validated = service # rest"
      by (auto simp: result_simps split: if_splits)
    with Cons.IH [of "set hostnames \<union> seen" rest] Some show ?thesis by (auto simp: hostnames_of_def)
  qed
qed simp

lemma distinct_concat_owner:
  assumes "distinct (concat (map f xs))" "x \<in> set xs" "y \<in> set xs" "a \<in> set (f x)" "a \<in> set (f y)"
  shows "x = y"
  using assms by (induction xs) auto

lemma validated_claims_unique:
  assumes "validate_services services = Inr validated" "x \<in> set services" "y \<in> set services"
    "claims x hostname" "claims y hostname"
  shows "x = y"
proof -
  note v = validate_services_from_Inr [OF assms(1) [unfolded validate_services_def]]
  show ?thesis
  proof (cases "1 < length services")
    case True
    with v assms(2,3) obtain hx hy where "service_hostnames x = Some hx" "service_hostnames y = Some hy" by blast
    with assms(4,5) distinct_concat_owner [of hostnames_of services x y hostname] v assms(2,3) show ?thesis
      by (simp add: claims_def hostnames_of_def)
  next
    case False
    with assms(2,3) show ?thesis by (cases services) auto
  qed
qed

lemma select_service_claims:
  assumes "select_service services hostname = Some service"
  shows "service \<in> set services \<and> claims service hostname"
proof (cases "length services = 1 \<and> service_hostnames (hd services) = None")
  case True
  with assms show ?thesis by (cases services) (auto simp: select_service_def claims_def)
next
  case False
  with assms show ?thesis
    by (auto simp: select_service_def claims_def find_Some_iff list_ex_iff split: if_splits option.splits)
qed

definition catch_all_alone :: "service_config list \<Rightarrow> bool" where
  "catch_all_alone services = (\<forall>service\<in>set services. service_hostnames service = None \<longrightarrow> length services = 1)"

lemma validated_catch_all:
  assumes "validate_services services = Inr validated"
  shows "catch_all_alone services"
  unfolding catch_all_alone_def
proof (intro ballI impI)
  fix service
  assume "service \<in> set services" "service_hostnames service = None"
  with validate_services_from_Inr [OF assms [unfolded validate_services_def]] have "\<not> 1 < length services" by blast
  with \<open>service \<in> set services\<close> show "length services = 1" by (cases services) auto
qed

lemma select_service_None:
  assumes "catch_all_alone services" "select_service services hostname = None" "service \<in> set services"
  shows "\<not> claims service hostname"
proof -
  have "service_hostnames service \<noteq> None"
  proof
    assume none: "service_hostnames service = None"
    with assms(1,3) have "services = [service]" by (cases services) (auto simp: catch_all_alone_def)
    with none assms(2) show False by (simp add: select_service_def)
  qed
  with assms(2,3) show ?thesis
    by (auto simp: select_service_def claims_def find_None_iff list_ex_iff split: if_splits option.splits)
qed

section \<open>Properties\<close>

text \<open>
  C16: over validated services a Visitor's hostname selects exactly the service that claims it: the one
  that lists it, or the single service without a list. No other service claims it, so the order of the
  services does not matter, and without a claim none is selected. Validation changes no service and
  refuses an empty list, a hostname listed twice, and a catch-all beside others.
\<close>

theorem service_selection_exact:
  assumes "validate_services services = Inr validated"
  shows "validated = services \<and>
    (\<forall>hostname service. select_service services hostname = Some service \<longleftrightarrow>
       service \<in> set services \<and> claims service hostname) \<and>
    (\<forall>reordered hostname. mset reordered = mset services \<longrightarrow>
       select_service reordered hostname = select_service services hostname)"
proof (intro conjI allI impI)
  show "validated = services"
    using validate_services_from_Inr assms unfolding validate_services_def by blast
  have selected: "select_service us hostname = Some service \<longleftrightarrow> service \<in> set services \<and> claims service hostname"
    if "set us = set services" "catch_all_alone us" for us hostname service
    using select_service_claims [of us hostname] select_service_None [OF that(2), of hostname]
      validated_claims_unique [OF assms, of _ service hostname] that(1)
    by (cases "select_service us hostname") auto
  note alone = validated_catch_all [OF assms]
  show "select_service services hostname = Some service \<longleftrightarrow> service \<in> set services \<and> claims service hostname"
    for hostname service by (rule selected [OF refl alone])
  fix reordered hostname
  assume m: "mset reordered = mset services"
  then have same: "set reordered = set services" "length reordered = length services"
    by (metis set_mset_mset, metis size_mset)
  then have "catch_all_alone reordered" using alone by (simp add: catch_all_alone_def)
  from selected [OF same(1) this] selected [OF refl alone]
  show "select_service reordered hostname = select_service services hostname" by (metis not_Some_eq)
qed

definition example_services :: "service_config list" where
  "example_services =
     [\<lparr>service_hostnames = Some [''a.dev''], backend_address = ''h:1'', tls_mode = Passthrough, sends_proxy_header = True\<rparr>,
      \<lparr>service_hostnames = Some [''b.dev'', ''c.dev''], backend_address = ''h:2'', tls_mode = Terminate, sends_proxy_header = False\<rparr>]"

lemma example_services_valid: "validate_services example_services = Inr example_services"
  by (simp add: validate_services_def example_services_def)

theorem service_selection_exact_witness:
  "select_service example_services ''c.dev'' = Some (example_services ! 1) \<and>
   select_service (rev example_services) ''c.dev'' = Some (example_services ! 1) \<and>
   select_service example_services ''d.dev'' = None"
proof -
  note e = service_selection_exact [OF example_services_valid]
  have c: "select_service example_services ''c.dev'' = Some (example_services ! 1)"
    by (rule e [THEN conjunct2, THEN conjunct1, rule_format, THEN iffD2]) (simp add: claims_def example_services_def)
  moreover have "select_service (rev example_services) ''c.dev'' = select_service example_services ''c.dev''"
    by (rule e [THEN conjunct2, THEN conjunct2, rule_format]) simp
  moreover have "select_service example_services ''d.dev'' = None"
    by (simp add: select_service_def example_services_def)
  ultimately show ?thesis by simp
qed

end
