(* ===== verification/Identity.thy ===== *)
theory Identity
  imports Prelude
begin

text \<open>
  Pinned public-key identities (\<open>src/src/identity.rs\<close>, \<open>src/src/server_identity.rs\<close>):
  32-byte SHA-256 fingerprints and their 64-digit lowercase hexadecimal text. SHA-256 itself is a
  parameter wherever an identity is derived from key bytes.
\<close>

section \<open>Hexadecimal pairs\<close>

definition is_ascii_hexdigit :: "char \<Rightarrow> bool" where
  "is_ascii_hexdigit c =
     (is_ascii_digit c \<or> (65 \<le> code c \<and> code c \<le> 70) \<or> (97 \<le> code c \<and> code c \<le> 102))"

text \<open>One digit of the format \<open>{:x}\<close> and one byte of the format \<open>{:02x}\<close>.\<close>

definition hex_digit :: "nat \<Rightarrow> char" where
  "hex_digit n = char_of (if n < 10 then 48 + n else 87 + n)"

definition hex_byte :: "u8 \<Rightarrow> string" where
  "hex_byte b = [hex_digit (unat b div 16), hex_digit (unat b mod 16)]"

text \<open>
  The loop over two-byte chunks. A chunk that is not UTF-8 holds a byte outside ASCII, which is no
  hexadecimal digit either: both cases are the one error \<open>InvalidHex\<close>, here \<open>None\<close>.
\<close>

fun parse_hex_pairs :: "string \<Rightarrow> u8 list option" where
  "parse_hex_pairs (a # b # rest) =
     (if list_ex (\<lambda>c. \<not> is_ascii_hexdigit c \<or> is_ascii_uppercase c) [a, b] then None
      else case from_str_radix 16 255 [a, b] of
             None \<Rightarrow> None
           | Some n \<Rightarrow> map_option (\<lambda>bs. word_of_nat n # bs) (parse_hex_pairs rest))"
| "parse_hex_pairs _ = Some []"

section \<open>Client and Server identities\<close>

datatype client_identity = ClientIdentity "u8 list"

datatype ParseClientIdentityError = WrongLength | InvalidHex

definition client_identity_wf :: "client_identity \<Rightarrow> bool" where
  "client_identity_wf i = (case i of ClientIdentity bytes \<Rightarrow> length bytes = 32)"

definition client_identity_display :: "client_identity \<Rightarrow> string" where
  "client_identity_display i = (case i of ClientIdentity bytes \<Rightarrow> concat (map hex_byte bytes))"

definition client_identity_from_str ::
  "string \<Rightarrow> (ParseClientIdentityError, client_identity) result" where
  "client_identity_from_str value =
     (if length value \<noteq> 64 then Inl WrongLength
      else map_err (\<lambda>_. InvalidHex)
             (ok_or () (map_option ClientIdentity (parse_hex_pairs value))))"

datatype server_identity = ServerIdentity "u8 list"

datatype ParseServerIdentityError = ServerWrongLength | ServerInvalidHex

definition server_identity_wf :: "server_identity \<Rightarrow> bool" where
  "server_identity_wf i = (case i of ServerIdentity bytes \<Rightarrow> length bytes = 32)"

definition server_identity_display :: "server_identity \<Rightarrow> string" where
  "server_identity_display i = (case i of ServerIdentity bytes \<Rightarrow> concat (map hex_byte bytes))"

definition server_identity_from_str ::
  "string \<Rightarrow> (ParseServerIdentityError, server_identity) result" where
  "server_identity_from_str value =
     (if length value \<noteq> 64 then Inl ServerWrongLength
      else map_err (\<lambda>_. ServerInvalidHex)
             (ok_or () (map_option ServerIdentity (parse_hex_pairs value))))"

section \<open>Hexadecimal text and bytes determine each other\<close>

definition lower_hex :: "char \<Rightarrow> bool" where
  "lower_hex c = (is_ascii_hexdigit c \<and> \<not> is_ascii_uppercase c)"

lemma code_hex_digit: "n < 16 \<Longrightarrow> code (hex_digit n) = (if n < 10 then 48 + n else 87 + n)"
  by (simp add: hex_digit_def)

lemma lower_hex_digit: "n < 16 \<Longrightarrow> lower_hex (hex_digit n)"
  by (simp add: lower_hex_def is_ascii_hexdigit_def ascii_defs code_hex_digit)

lemma to_digit_hex_digit: "n < 16 \<Longrightarrow> to_digit 16 (hex_digit n) = Some n"
  by (simp add: to_digit_def digit_value_def ascii_defs code_hex_digit)

lemma lower_hex_is_digit:
  assumes "lower_hex c"
  obtains n where "n < 16" "c = hex_digit n"
proof
  let ?n = "if code c < 58 then code c - 48 else code c - 87"
  have r: "48 \<le> code c \<and> code c \<le> 57 \<or> 97 \<le> code c \<and> code c \<le> 102"
    using assms by (auto simp: lower_hex_def is_ascii_hexdigit_def ascii_defs)
  then show "?n < 16" by auto
  from r have n: "(if ?n < 10 then 48 + ?n else 87 + ?n) = code c" by auto
  show "c = hex_digit ?n" unfolding hex_digit_def n by simp
qed

lemma hex_digit_not_plus: "n < 16 \<Longrightarrow> hex_digit n \<noteq> CHR ''+''"
  using code_hex_digit [of n] by (auto split: if_splits)

lemma from_str_radix_hex_pair:
  "m < 16 \<Longrightarrow> n < 16 \<Longrightarrow> from_str_radix 16 255 [hex_digit m, hex_digit n] = Some (16 * m + n)"
  by (simp add: from_str_radix_def starts_with_def hex_digit_not_plus to_digit_hex_digit)

lemma parse_hex_pairs_Cons:
  "m < 16 \<Longrightarrow> n < 16 \<Longrightarrow> parse_hex_pairs (hex_digit m # hex_digit n # rest) =
     map_option (\<lambda>bs. word_of_nat (16 * m + n) # bs) (parse_hex_pairs rest)"
  using lower_hex_digit [of m] lower_hex_digit [of n]
  by (simp add: lower_hex_def from_str_radix_hex_pair)

declare parse_hex_pairs.simps(1) [simp del]

lemma unat_word_of_nat_u8: "k < 256 \<Longrightarrow> unat (word_of_nat k :: u8) = k"
  by (simp add: unat_of_nat take_bit_eq_mod)

lemma hex_byte_of_nat:
  assumes "m < 16" "n < 16"
  shows "hex_byte (word_of_nat (16 * m + n)) = [hex_digit m, hex_digit n]"
proof -
  from assms have "unat (word_of_nat (16 * m + n) :: u8) = 16 * m + n"
    by (intro unat_word_of_nat_u8) simp
  with assms show ?thesis unfolding hex_byte_def by simp
qed

lemma unat_u8: "unat (b :: u8) < 256"
  using unsigned_less [of b, where 'a = nat] by simp

lemma parse_hex_byte:
  "parse_hex_pairs (hex_byte b @ rest) = map_option (\<lambda>bs. b # bs) (parse_hex_pairs rest)"
proof -
  have "unat b div 16 < 16" "unat b mod 16 < 16"
    using unat_u8 [of b] by auto
  from parse_hex_pairs_Cons [OF this] show ?thesis
    unfolding hex_byte_def mult_div_mod_eq by simp
qed

lemma parse_hex_bytes: "parse_hex_pairs (concat (map hex_byte bs)) = Some bs"
  by (induction bs) (simp_all add: parse_hex_byte)

lemma parse_hex_pairs_Some:
  "parse_hex_pairs s = Some bs \<Longrightarrow> even (length s) \<Longrightarrow>
     concat (map hex_byte bs) = s \<and> 2 * length bs = length s"
proof (induction s arbitrary: bs rule: parse_hex_pairs.induct)
  case (1 a b rest)
  then have "lower_hex a" "lower_hex b"
    by (auto simp: lower_hex_def parse_hex_pairs.simps(1) split: if_splits)
  then obtain m n where mn: "m < 16" "n < 16" "a = hex_digit m" "b = hex_digit n"
    by (metis lower_hex_is_digit)
  with 1 obtain cs where "parse_hex_pairs rest = Some cs" "bs = word_of_nat (16 * m + n) # cs"
    by (auto simp: parse_hex_pairs_Cons simp del: of_nat_add of_nat_mult)
  moreover have "concat (map hex_byte cs) = rest \<and> 2 * length cs = length rest"
  proof (rule "1.IH" [OF _ from_str_radix_hex_pair [OF mn(1,2), folded mn(3,4)]])
    show "\<not> list_ex (\<lambda>c. \<not> is_ascii_hexdigit c \<or> is_ascii_uppercase c) [a, b]"
      using \<open>lower_hex a\<close> \<open>lower_hex b\<close> by (simp add: lower_hex_def)
  qed (use calculation 1 in simp_all)
  ultimately show ?case
    using mn by (simp add: hex_byte_of_nat del: of_nat_add of_nat_mult)
qed auto

lemma length_hex_bytes [simp]: "length (concat (map hex_byte bs)) = 2 * length bs"
  by (induction bs) (simp_all add: hex_byte_def)

interpretation client_identity: canonical_text_format
  client_identity_wf client_identity_display client_identity_from_str
proof
  fix i assume "client_identity_wf i"
  then show "client_identity_from_str (client_identity_display i) = Inr i"
    by (cases i) (simp add: client_identity_wf_def client_identity_display_def
        client_identity_from_str_def parse_hex_bytes)
next
  fix s i assume "client_identity_from_str s = Inr i"
  then obtain bs where "i = ClientIdentity bs" "length s = 64" "parse_hex_pairs s = Some bs"
    by (auto simp: client_identity_from_str_def result_simps split: if_splits)
  with parse_hex_pairs_Some [of s bs]
  show "client_identity_wf i" "client_identity_display i = s"
    by (simp_all add: client_identity_wf_def client_identity_display_def)
qed

interpretation server_identity: canonical_text_format
  server_identity_wf server_identity_display server_identity_from_str
proof
  fix i assume "server_identity_wf i"
  then show "server_identity_from_str (server_identity_display i) = Inr i"
    by (cases i) (simp add: server_identity_wf_def server_identity_display_def
        server_identity_from_str_def parse_hex_bytes)
next
  fix s i assume "server_identity_from_str s = Inr i"
  then obtain bs where "i = ServerIdentity bs" "length s = 64" "parse_hex_pairs s = Some bs"
    by (auto simp: server_identity_from_str_def result_simps split: if_splits)
  with parse_hex_pairs_Some [of s bs]
  show "server_identity_wf i" "server_identity_display i = s"
    by (simp_all add: server_identity_wf_def server_identity_display_def)
qed

section \<open>Properties\<close>

text \<open>
  Identity text is canonical: a text parses to an identity exactly when the identity has 32
  bytes and the text is its printed form. Two different texts never name the same Client, and
  printing an identity and parsing it back is the identity.
\<close>

theorem client_identity_text_canonical:
  "client_identity_from_str s = Inr i \<longleftrightarrow> client_identity_wf i \<and> s = client_identity_display i"
  by (rule client_identity.parse_iff)

end
