(* ===== verification/Authorization.thy ===== *)
theory Authorization
  imports Hostname Identity
begin

text \<open>
  Server authorization (\<open>src/src/server/authorization.rs\<close>): the immutable Authorization
  snapshot that routing and handshake admission consult, its construction from configured or
  Control-published Tunnels with every rejection, and the live replacement of a snapshot.
  A \<open>HashMap\<close> is a partial map, a \<open>HashSet\<close> a set; the messages of the one I/O error
  kind used here are the constructors of one error type.
\<close>

type_synonym tunnel_id = string

record server_tunnel_config =
  tunnel_config_id :: "tunnel_id option"
  tunnel_public_hostnames :: "public_hostname list"
  authorized_client_identities :: "client_identity list"

datatype AuthorizationContinuity = Static | Managed "tunnel_id list"

record authorization_snapshot =
  client_identity_to_tunnel :: "client_identity \<rightharpoonup> nat"
  public_hostname_to_tunnel :: "public_hostname \<rightharpoonup> nat"
  trusted_client_identities :: "client_identity set"
  continuity :: AuthorizationContinuity
  tunnel_count :: nat

datatype AuthorizationError =
    StaticTunnelIds
  | MissingTunnelId
  | DuplicateTunnelId tunnel_id
  | EmptyPublicHostnames
  | DuplicateClientIdentity client_identity
  | ServerHostnameListed server_hostname
  | DuplicatePublicHostname public_hostname
  | StaticReplacement

section \<open>Building the maps\<close>

record authorization_maps =
  identity_map :: "client_identity \<rightharpoonup> nat"
  hostname_map :: "public_hostname \<rightharpoonup> nat"
  seen_client_identities :: "client_identity set"
  seen_public_hostnames :: "public_hostname set"

definition empty_maps :: authorization_maps where
  "empty_maps = \<lparr>identity_map = Map.empty, hostname_map = Map.empty,
     seen_client_identities = {}, seen_public_hostnames = {}\<rparr>"

fun insert_client_identities ::
  "nat \<Rightarrow> client_identity list \<Rightarrow> authorization_maps \<Rightarrow>
   (AuthorizationError, authorization_maps) result" where
  "insert_client_identities index [] maps = Inr maps"
| "insert_client_identities index (identity # rest) maps =
     (if identity \<in> seen_client_identities maps then Inl (DuplicateClientIdentity identity)
      else insert_client_identities index rest
             (maps\<lparr>seen_client_identities := insert identity (seen_client_identities maps),
                   identity_map := (identity_map maps)(identity \<mapsto> index)\<rparr>))"

fun insert_public_hostnames ::
  "server_hostname \<Rightarrow> nat \<Rightarrow> public_hostname list \<Rightarrow> authorization_maps \<Rightarrow>
   (AuthorizationError, authorization_maps) result" where
  "insert_public_hostnames server index [] maps = Inr maps"
| "insert_public_hostnames server index (hostname # rest) maps =
     (if hostname = server then Inl (ServerHostnameListed server)
      else if hostname \<in> seen_public_hostnames maps then Inl (DuplicatePublicHostname hostname)
      else insert_public_hostnames server index rest
             (maps\<lparr>seen_public_hostnames := insert hostname (seen_public_hostnames maps),
                   hostname_map := (hostname_map maps)(hostname \<mapsto> index)\<rparr>))"

fun insert_tunnels ::
  "server_hostname \<Rightarrow> nat \<Rightarrow> server_tunnel_config list \<Rightarrow> authorization_maps \<Rightarrow>
   (AuthorizationError, authorization_maps) result" where
  "insert_tunnels server index [] maps = Inr maps"
| "insert_tunnels server index (tunnel # rest) maps =
     (if tunnel_public_hostnames tunnel = [] then Inl EmptyPublicHostnames
      else
        and_then (insert_client_identities index (authorized_client_identities tunnel) maps) (\<lambda>maps.
        and_then (insert_public_hostnames server index (tunnel_public_hostnames tunnel) maps) (\<lambda>maps.
        insert_tunnels server (Suc index) rest maps)))"

definition build_authorization_maps ::
  "server_hostname \<Rightarrow> server_tunnel_config list \<Rightarrow>
   (AuthorizationError, authorization_maps) result" where
  "build_authorization_maps server tunnels = insert_tunnels server 0 tunnels empty_maps"

section \<open>Snapshots\<close>

definition snapshot_of_maps ::
  "authorization_maps \<Rightarrow> AuthorizationContinuity \<Rightarrow> nat \<Rightarrow> authorization_snapshot" where
  "snapshot_of_maps maps kind count =
     \<lparr>client_identity_to_tunnel = identity_map maps,
      public_hostname_to_tunnel = hostname_map maps,
      trusted_client_identities = dom (identity_map maps),
      continuity = kind, tunnel_count = count\<rparr>"

definition try_from_static_tunnels ::
  "server_hostname \<Rightarrow> server_tunnel_config list \<Rightarrow>
   (AuthorizationError, authorization_snapshot) result" where
  "try_from_static_tunnels server tunnels =
     (if list_ex (\<lambda>tunnel. tunnel_config_id tunnel \<noteq> None) tunnels then Inl StaticTunnelIds
      else and_then (build_authorization_maps server tunnels) (\<lambda>maps.
           Inr (snapshot_of_maps maps Static (length tunnels))))"

fun collect_tunnel_ids ::
  "tunnel_id set \<Rightarrow> server_tunnel_config list \<Rightarrow> (AuthorizationError, tunnel_id list) result" where
  "collect_tunnel_ids seen [] = Inr []"
| "collect_tunnel_ids seen (tunnel # rest) =
     and_then (ok_or MissingTunnelId (tunnel_config_id tunnel)) (\<lambda>i.
       if i \<in> seen then Inl (DuplicateTunnelId i)
       else and_then (collect_tunnel_ids (insert i seen) rest) (\<lambda>ids. Inr (i # ids)))"

definition try_from_managed_tunnels ::
  "server_hostname \<Rightarrow> server_tunnel_config list \<Rightarrow>
   (AuthorizationError, authorization_snapshot) result" where
  "try_from_managed_tunnels server tunnels =
     and_then (collect_tunnel_ids {} tunnels) (\<lambda>ids.
     and_then (build_authorization_maps server tunnels) (\<lambda>maps.
     Inr (snapshot_of_maps maps (Managed ids) (length tunnels))))"

definition empty_managed :: authorization_snapshot where
  "empty_managed =
     \<lparr>client_identity_to_tunnel = Map.empty, public_hostname_to_tunnel = Map.empty,
      trusted_client_identities = {}, continuity = Managed [], tunnel_count = 0\<rparr>"

fun managed_tunnel_ids :: "authorization_snapshot \<Rightarrow> tunnel_id list option" where
  "managed_tunnel_ids snapshot =
     (case continuity snapshot of Managed ids \<Rightarrow> Some ids | Static \<Rightarrow> None)"

definition tunnel_index_for_public_hostname ::
  "authorization_snapshot \<Rightarrow> public_hostname \<Rightarrow> nat option" where
  "tunnel_index_for_public_hostname snapshot hostname = public_hostname_to_tunnel snapshot hostname"

definition tunnel_index_for_client_identity ::
  "authorization_snapshot \<Rightarrow> client_identity \<Rightarrow> nat option" where
  "tunnel_index_for_client_identity snapshot identity = client_identity_to_tunnel snapshot identity"

definition authorizes_client_identity :: "authorization_snapshot \<Rightarrow> client_identity \<Rightarrow> bool" where
  "authorizes_client_identity snapshot identity = (identity \<in> trusted_client_identities snapshot)"

section \<open>The live state\<close>

text \<open>
  \<open>AuthorizationState\<close> is the \<open>RwLock\<close> around the shared snapshot. The registry compares
  snapshots by \<open>Arc::ptr_eq\<close>, so a shared snapshot carries the number of the allocation that
  holds it; each commit installs a new allocation.
\<close>

record authorization_state =
  allocation :: nat
  snapshot :: authorization_snapshot

definition prepare_managed_replacement ::
  "authorization_state \<Rightarrow> server_hostname \<Rightarrow> server_tunnel_config list \<Rightarrow>
   (AuthorizationError, authorization_snapshot) result" where
  "prepare_managed_replacement current server tunnels =
     (case continuity (snapshot current) of
        Static \<Rightarrow> Inl StaticReplacement
      | Managed _ \<Rightarrow> try_from_managed_tunnels server tunnels)"

definition commit_snapshot ::
  "authorization_state \<Rightarrow> authorization_snapshot \<Rightarrow> authorization_state" where
  "commit_snapshot current prepared =
     \<lparr>allocation = Suc (allocation current), snapshot = prepared\<rparr>"

section \<open>What the tunnels say\<close>

text \<open>The first listed Tunnel that names a key, counted from an offset.\<close>

fun owner :: "('t \<Rightarrow> 'k list) \<Rightarrow> nat \<Rightarrow> 't list \<Rightarrow> 'k \<rightharpoonup> nat" where
  "owner keys i [] x = None"
| "owner keys i (t # ts) x = (if x \<in> set (keys t) then Some i else owner keys (Suc i) ts x)"

abbreviation all_keys :: "('t \<Rightarrow> 'k list) \<Rightarrow> 't list \<Rightarrow> 'k list" where
  "all_keys keys ts \<equiv> concat (map keys ts)"

lemma owner_None: "owner keys i ts x = None \<longleftrightarrow> x \<notin> set (all_keys keys ts)"
  by (induction ts arbitrary: i) auto

lemma owner_Some:
  assumes "distinct (all_keys keys ts)"
  shows "owner keys i ts x = Some k \<longleftrightarrow>
         i \<le> k \<and> k - i < length ts \<and> x \<in> set (keys (ts ! (k - i)))"
  using assms
proof (induction ts arbitrary: i)
  case (Cons t ts)
  show ?case
  proof (cases "x \<in> set (keys t)")
    case True
    with Cons.prems have "x \<notin> set (all_keys keys ts)" by auto
    then have "\<And>j. j < length ts \<Longrightarrow> x \<notin> set (keys (ts ! j))"
      by (metis image_eqI nth_mem set_concat set_map UN_I)
    with True show ?thesis by (auto simp: nth_Cons split: nat.splits)
  next
    case False
    show ?thesis
    proof (cases "i < k")
      case True
      then obtain j where "k = Suc (i + j)" by (auto dest: less_imp_Suc_add)
      with False Cons show ?thesis by simp
    qed (use False Cons in \<open>auto simp: le_less\<close>)
  qed
qed simp

section \<open>The loops compute the owners\<close>

definition owned_by :: "'k list \<Rightarrow> nat \<Rightarrow> 'k \<rightharpoonup> nat" where
  "owned_by ks i = (\<lambda>x. if x \<in> set ks then Some i else None)"

lemma owned_by_Nil [simp]: "m ++ owned_by [] i = m"
  by (simp add: owned_by_def map_add_def)

lemma owned_by_Cons: "m(k \<mapsto> i) ++ owned_by ks i = m ++ owned_by (k # ks) i"
  by (simp add: owned_by_def map_add_def fun_eq_iff)

lemma owner_Cons_add:
  assumes "set (keys t) \<inter> set (all_keys keys ts) = {}"
  shows "m ++ owned_by (keys t) i ++ owner keys (Suc i) ts = m ++ owner keys i (t # ts)"
proof
  fix x
  show "(m ++ owned_by (keys t) i ++ owner keys (Suc i) ts) x = (m ++ owner keys i (t # ts)) x"
  proof (cases "x \<in> set (keys t)")
    case True
    with assms have "owner keys (Suc i) ts x = None" by (auto simp: owner_None)
    with True show ?thesis by (simp add: owned_by_def map_add_def)
  qed (simp add: owned_by_def map_add_def split: option.split)
qed

lemma owner_Nil_add [simp]: "m ++ owner keys i [] = m"
  by (simp add: map_add_def fun_eq_iff)

lemma insert_client_identities_Inr:
  "insert_client_identities index ids maps = Inr maps' \<longleftrightarrow>
     distinct ids \<and> set ids \<inter> seen_client_identities maps = {} \<and>
     maps' = maps\<lparr>seen_client_identities := seen_client_identities maps \<union> set ids,
                  identity_map := identity_map maps ++ owned_by ids index\<rparr>"
proof (induction ids arbitrary: maps)
  case (Cons i ids)
  show ?case
    by (cases "i \<in> seen_client_identities maps")
      (simp_all add: Cons.IH owned_by_Cons del: fun_upd_apply, blast)
qed auto

lemma insert_public_hostnames_Inr:
  "insert_public_hostnames server index hs maps = Inr maps' \<longleftrightarrow>
     server \<notin> set hs \<and> distinct hs \<and> set hs \<inter> seen_public_hostnames maps = {} \<and>
     maps' = maps\<lparr>seen_public_hostnames := seen_public_hostnames maps \<union> set hs,
                  hostname_map := hostname_map maps ++ owned_by hs index\<rparr>"
proof (induction hs arbitrary: maps)
  case (Cons h hs)
  show ?case
    by (cases "h \<in> seen_public_hostnames maps")
      (simp_all add: Cons.IH owned_by_Cons del: fun_upd_apply, blast)
qed auto

definition tunnels_compatible ::
  "server_hostname \<Rightarrow> server_tunnel_config list \<Rightarrow> bool" where
  "tunnels_compatible server tunnels =
     (list_all (\<lambda>t. tunnel_public_hostnames t \<noteq> []) tunnels \<and>
      distinct (all_keys authorized_client_identities tunnels) \<and>
      distinct (all_keys tunnel_public_hostnames tunnels) \<and>
      server \<notin> set (all_keys tunnel_public_hostnames tunnels))"

lemma insert_tunnels_Inr:
  "insert_tunnels server index tunnels maps = Inr maps' \<longleftrightarrow>
     tunnels_compatible server tunnels \<and>
     set (all_keys authorized_client_identities tunnels) \<inter> seen_client_identities maps = {} \<and>
     set (all_keys tunnel_public_hostnames tunnels) \<inter> seen_public_hostnames maps = {} \<and>
     maps' = \<lparr>identity_map = identity_map maps ++ owner authorized_client_identities index tunnels,
              hostname_map = hostname_map maps ++ owner tunnel_public_hostnames index tunnels,
              seen_client_identities = seen_client_identities maps \<union>
                set (all_keys authorized_client_identities tunnels),
              seen_public_hostnames = seen_public_hostnames maps \<union>
                set (all_keys tunnel_public_hostnames tunnels)\<rparr>"
proof (induction tunnels arbitrary: index maps)
  case (Cons t ts)
  show ?case (is "?l = ?r")
  proof (cases "set (authorized_client_identities t) \<inter>
        set (all_keys authorized_client_identities ts) = {} \<and>
      set (tunnel_public_hostnames t) \<inter> set (all_keys tunnel_public_hostnames ts) = {}")
    case True
    note d = conjunct1 [OF True] conjunct2 [OF True]
    show ?thesis
      unfolding owner_Cons_add [OF d(1), symmetric] owner_Cons_add [OF d(2), symmetric]
      using True
      by (auto simp: result_simps insert_client_identities_Inr insert_public_hostnames_Inr Cons.IH
          tunnels_compatible_def simp del: owner.simps)
  next
    case False
    then have "\<not> ?r" by (auto simp: tunnels_compatible_def)
    moreover from False have "\<not> ?l"
      by (auto simp: result_simps insert_client_identities_Inr insert_public_hostnames_Inr Cons.IH)
    ultimately show ?thesis by blast
  qed
qed (auto simp: tunnels_compatible_def simp del: owner.simps)

lemma collect_tunnel_ids_Inr:
  "collect_tunnel_ids seen tunnels = Inr ids \<longleftrightarrow>
     map tunnel_config_id tunnels = map Some ids \<and> distinct ids \<and> set ids \<inter> seen = {}"
proof (induction tunnels arbitrary: seen ids)
  case (Cons t ts)
  show ?case
  proof (cases ids)
    case Nil
    then show ?thesis by (auto simp: result_simps split: if_splits)
  next
    case (Cons j js)
    then show ?thesis by (auto simp: result_simps Cons.IH split: if_splits)
  qed
qed auto

lemma build_authorization_maps_Inr:
  "build_authorization_maps server tunnels = Inr maps \<longleftrightarrow>
     tunnels_compatible server tunnels \<and>
     maps = \<lparr>identity_map = owner authorized_client_identities 0 tunnels,
             hostname_map = owner tunnel_public_hostnames 0 tunnels,
             seen_client_identities = set (all_keys authorized_client_identities tunnels),
             seen_public_hostnames = set (all_keys tunnel_public_hostnames tunnels)\<rparr>"
  by (simp add: build_authorization_maps_def insert_tunnels_Inr empty_maps_def)

text \<open>The snapshot that a compatible list of Tunnels stands for.\<close>

definition tunnels_snapshot ::
  "server_tunnel_config list \<Rightarrow> AuthorizationContinuity \<Rightarrow> authorization_snapshot" where
  "tunnels_snapshot tunnels kind =
     \<lparr>client_identity_to_tunnel = owner authorized_client_identities 0 tunnels,
      public_hostname_to_tunnel = owner tunnel_public_hostnames 0 tunnels,
      trusted_client_identities = set (all_keys authorized_client_identities tunnels),
      continuity = kind, tunnel_count = length tunnels\<rparr>"

lemma dom_owner: "dom (owner keys i ts) = set (all_keys keys ts)"
  using owner_None [of keys i ts] by (auto simp: dom_def)

lemma try_from_static_tunnels_Inr [result_simps]:
  "try_from_static_tunnels server tunnels = Inr snap \<longleftrightarrow>
     list_all (\<lambda>t. tunnel_config_id t = None) tunnels \<and> tunnels_compatible server tunnels \<and>
     snap = tunnels_snapshot tunnels Static"
  by (auto simp: try_from_static_tunnels_def result_simps build_authorization_maps_Inr
      snapshot_of_maps_def tunnels_snapshot_def dom_owner list_ex_iff list_all_iff)

lemma try_from_managed_tunnels_Inr [result_simps]:
  "try_from_managed_tunnels server tunnels = Inr snap \<longleftrightarrow>
     (\<exists>ids. map tunnel_config_id tunnels = map Some ids \<and> distinct ids \<and>
            tunnels_compatible server tunnels \<and> snap = tunnels_snapshot tunnels (Managed ids))"
  by (auto simp: try_from_managed_tunnels_def result_simps build_authorization_maps_Inr
      collect_tunnel_ids_Inr snapshot_of_maps_def tunnels_snapshot_def dom_owner)

section \<open>The contract of a snapshot\<close>

text \<open>
  What routing and the Tunnel registry rely on: every index a snapshot answers is the index of a
  Tunnel pool, handshake admission trusts exactly the identities that have a pool, and in managed
  mode the Tunnel IDs name the pools one to one.
\<close>

locale authorization_view =
  fixes wf :: "'s \<Rightarrow> bool"
    and route :: "'s \<Rightarrow> public_hostname \<Rightarrow> nat option"
    and home :: "'s \<Rightarrow> client_identity \<Rightarrow> nat option"
    and trusts :: "'s \<Rightarrow> client_identity \<Rightarrow> bool"
    and pools :: "'s \<Rightarrow> nat"
    and pool_ids :: "'s \<Rightarrow> tunnel_id list option"
  assumes route_pool: "wf s \<Longrightarrow> route s h = Some i \<Longrightarrow> i < pools s"
    and home_pool: "wf s \<Longrightarrow> home s c = Some i \<Longrightarrow> i < pools s"
    and trusts_home: "wf s \<Longrightarrow> trusts s c \<longleftrightarrow> home s c \<noteq> None"
    and pool_ids_length: "wf s \<Longrightarrow> pool_ids s = Some ids \<Longrightarrow> length ids = pools s"
    and pool_ids_distinct: "wf s \<Longrightarrow> pool_ids s = Some ids \<Longrightarrow> distinct ids"
begin

lemma trusted_has_pool: "wf s \<Longrightarrow> trusts s c \<Longrightarrow> \<exists>i < pools s. home s c = Some i"
  using trusts_home home_pool by blast

lemma no_pools_no_routes: "wf s \<Longrightarrow> pools s = 0 \<Longrightarrow> route s h = None \<and> \<not> trusts s c"
  by (metis not_less_zero not_None_eq route_pool trusted_has_pool)

lemma pool_id_unique:
  "wf s \<Longrightarrow> pool_ids s = Some ids \<Longrightarrow> i < pools s \<Longrightarrow> j < pools s \<Longrightarrow> ids ! i = ids ! j \<Longrightarrow> i = j"
  by (simp add: nth_eq_iff_index_eq pool_ids_distinct pool_ids_length)

end

definition snapshot_wf :: "authorization_snapshot \<Rightarrow> bool" where
  "snapshot_wf snap \<longleftrightarrow>
     ran (public_hostname_to_tunnel snap) \<subseteq> {..<tunnel_count snap} \<and>
     ran (client_identity_to_tunnel snap) \<subseteq> {..<tunnel_count snap} \<and>
     trusted_client_identities snap = dom (client_identity_to_tunnel snap) \<and>
     (case continuity snap of
        Static \<Rightarrow> True
      | Managed ids \<Rightarrow> length ids = tunnel_count snap \<and> distinct ids)"

interpretation snapshot: authorization_view snapshot_wf tunnel_index_for_public_hostname
  tunnel_index_for_client_identity authorizes_client_identity tunnel_count managed_tunnel_ids
  by unfold_locales
    (auto simp: snapshot_wf_def tunnel_index_for_public_hostname_def
      tunnel_index_for_client_identity_def authorizes_client_identity_def
      split: AuthorizationContinuity.splits dest: ranI)

lemma owner_range: "owner keys i ts x = Some k \<Longrightarrow> i \<le> k \<and> k < i + length ts"
  by (induction ts arbitrary: i) (fastforce split: if_splits)+

lemma owner_ran: "ran (owner keys 0 ts) \<subseteq> {..<length ts}"
  by (auto simp: ran_def dest: owner_range)

lemma tunnels_snapshot_wf:
  "(\<And>ids. kind = Managed ids \<Longrightarrow> length ids = length tunnels \<and> distinct ids) \<Longrightarrow>
     snapshot_wf (tunnels_snapshot tunnels kind)"
  using owner_ran [of tunnel_public_hostnames tunnels] owner_ran [of authorized_client_identities tunnels]
  by (auto simp: snapshot_wf_def tunnels_snapshot_def dom_owner split: AuthorizationContinuity.splits)

lemma try_from_managed_tunnels_wf:
  "try_from_managed_tunnels server tunnels = Inr snap \<Longrightarrow> snapshot_wf snap"
  by (auto simp: result_simps intro!: tunnels_snapshot_wf dest: map_eq_imp_length_eq)

lemma try_from_static_tunnels_wf:
  "try_from_static_tunnels server tunnels = Inr snap \<Longrightarrow> snapshot_wf snap"
  by (auto simp: result_simps intro: tunnels_snapshot_wf)

lemma empty_managed_wf: "snapshot_wf empty_managed"
  by (simp add: snapshot_wf_def empty_managed_def)

section \<open>Properties\<close>

text \<open>
  C25: Managed authorization is accepted exactly when every Tunnel carries its own Tunnel ID,
  names at least one hostname, no hostname and no Client identity appears twice anywhere, and the
  Server's own hostname is not listed; the snapshot then is the one the list stands for.
\<close>

theorem try_from_managed_tunnels_exact:
  "try_from_managed_tunnels server tunnels = Inr snap \<longleftrightarrow>
     (\<exists>ids. map tunnel_config_id tunnels = map Some ids \<and> distinct ids \<and>
            tunnels_compatible server tunnels \<and> snap = tunnels_snapshot tunnels (Managed ids))"
  by (rule try_from_managed_tunnels_Inr)

text \<open>
  C26: An accepted snapshot, static or managed, routes a hostname to a Tunnel exactly when that
  Tunnel lists it, assigns a Client identity to a Tunnel exactly when that Tunnel authorizes it,
  trusts exactly the authorized identities, and never routes the Server's own hostname.
\<close>

theorem snapshot_answers_config:
  assumes "try_from_managed_tunnels server tunnels = Inr snap \<or>
           try_from_static_tunnels server tunnels = Inr snap"
  shows "(tunnel_index_for_public_hostname snap h = Some i \<longleftrightarrow>
            i < length tunnels \<and> h \<in> set (tunnel_public_hostnames (tunnels ! i))) \<and>
         (tunnel_index_for_client_identity snap c = Some i \<longleftrightarrow>
            i < length tunnels \<and> c \<in> set (authorized_client_identities (tunnels ! i))) \<and>
         (authorizes_client_identity snap c \<longleftrightarrow>
            c \<in> set (concat (map authorized_client_identities tunnels))) \<and>
         tunnel_index_for_public_hostname snap server = None"
proof -
  from assms have "tunnels_compatible server tunnels" "\<exists>kind. snap = tunnels_snapshot tunnels kind"
    by (auto simp: result_simps)
  then show ?thesis
    by (auto simp: tunnel_index_for_public_hostname_def tunnel_index_for_client_identity_def
        authorizes_client_identity_def tunnels_snapshot_def tunnels_compatible_def
        owner_Some owner_None)
qed

definition example_tunnels :: "server_tunnel_config list" where
  "example_tunnels =
     [\<lparr>tunnel_config_id = Some ''t1'', tunnel_public_hostnames = [''a.dev'', ''b.dev''],
       authorized_client_identities = [ClientIdentity (replicate 32 1)]\<rparr>,
      \<lparr>tunnel_config_id = Some ''t2'', tunnel_public_hostnames = [''c.dev''],
       authorized_client_identities = [ClientIdentity (replicate 32 2), ClientIdentity (replicate 32 3)]\<rparr>]"

lemma example_tunnels_managed:
  "try_from_managed_tunnels ''s.dev'' example_tunnels =
     Inr (tunnels_snapshot example_tunnels (Managed [''t1'', ''t2'']))"
  unfolding try_from_managed_tunnels_Inr
  by (intro exI [of _ "[''t1'', ''t2'']"]) (simp add: example_tunnels_def tunnels_compatible_def)

theorem snapshot_answers_config_witness:
  "tunnel_index_for_public_hostname
     (tunnels_snapshot example_tunnels (Managed [''t1'', ''t2''])) ''c.dev'' = Some 1 \<and>
   tunnel_index_for_public_hostname
     (tunnels_snapshot example_tunnels (Managed [''t1'', ''t2''])) ''s.dev'' = None"
  using snapshot_answers_config [OF disjI1, OF example_tunnels_managed, of "''c.dev''" 1]
  by (simp add: example_tunnels_def)

end
