(* ===== verification/Counter_Map.thy ===== *)
theory Counter_Map
  imports Prelude "HOL-Library.Multiset"
begin

text \<open>
  Counts kept in a \<open>HashMap<K, usize>\<close>: the entry is created on the first increment and removed
  when a decrement reaches zero. The Server counts pending Visitors by source and Tunnel
  connections by Client identity this way (\<open>src/src/server/admission.rs\<close>). A decrement below
  zero is \<open>None\<close>: the \<open>-= 1\<close> on a \<open>usize\<close> would overflow.
\<close>

definition count_of :: "('k \<rightharpoonup> nat) \<Rightarrow> 'k \<Rightarrow> nat" where
  "count_of m k = (case m k of None \<Rightarrow> 0 | Some n \<Rightarrow> n)"

definition count_inc :: "('k \<rightharpoonup> nat) \<Rightarrow> 'k \<Rightarrow> ('k \<rightharpoonup> nat)" where
  "count_inc m k = m(k \<mapsto> count_of m k + 1)"

definition count_dec :: "('k \<rightharpoonup> nat) \<Rightarrow> 'k \<Rightarrow> ('k \<rightharpoonup> nat) option" where
  "count_dec m k =
     (case m k of
        None \<Rightarrow> Some m
      | Some n \<Rightarrow> if n = 0 then None
                  else if n - 1 = 0 then Some (m(k := None)) else Some (m(k \<mapsto> n - 1)))"

text \<open>The map that counts exactly the elements of a multiset and has no entry for anything else.\<close>

definition counts :: "'k multiset \<Rightarrow> ('k \<rightharpoonup> nat)" where
  "counts P = (\<lambda>k. if k \<in># P then Some (count P k) else None)"

section \<open>The contract of a keyed counter\<close>

text \<open>
  A counter represents the multiset of the holders it counts. Its laws are about one operation
  each; a client that pairs every increment with one later decrement never underflows.
\<close>

locale keyed_counter =
  fixes represents :: "'s \<Rightarrow> 'k multiset \<Rightarrow> bool"
    and lookup :: "'s \<Rightarrow> 'k \<Rightarrow> nat"
    and inc :: "'s \<Rightarrow> 'k \<Rightarrow> 's"
    and dec :: "'s \<Rightarrow> 'k \<Rightarrow> 's option"
  assumes lookup_represents: "represents s P \<Longrightarrow> lookup s k = count P k"
    and inc_represents: "represents s P \<Longrightarrow> represents (inc s k) (add_mset k P)"
    and dec_represents: "represents s (add_mset k P) \<Longrightarrow> \<exists>s'. dec s k = Some s' \<and> represents s' P"
begin

lemma dec_held:
  assumes "represents s P" "k \<in># P"
  obtains s' where "dec s k = Some s'" "represents s' (P - {#k#})"
  using dec_represents [of s k "P - {#k#}"] assms by auto

lemma dec_then_inc:
  assumes "represents s P" "j \<in># P" "dec s j = Some s'"
  shows "represents (inc s' k) (add_mset k (P - {#j#}))"
proof -
  obtain t where "dec s j = Some t" "represents t (P - {#j#})"
    using assms(1,2) by (rule dec_held)
  with assms(3) show ?thesis by (simp add: inc_represents)
qed

lemma represents_lookup_le:
  "represents s P \<Longrightarrow> lookup s k \<le> size P"
  by (simp add: lookup_represents count_le_size)

end

lemma count_of_counts [simp]: "count_of (counts P) k = count P k"
  by (simp add: count_of_def counts_def not_in_iff)

lemma count_inc_counts [simp]: "count_inc (counts P) k = counts (add_mset k P)"
  by (auto simp: count_inc_def counts_def fun_eq_iff count_of_def not_in_iff)

lemma count_dec_counts [simp]: "count_dec (counts (add_mset k P)) k = Some (counts P)"
  by (auto simp: count_dec_def counts_def fun_eq_iff not_in_iff)

lemma counts_empty [simp]: "counts {#} = Map.empty"
  by (simp add: counts_def)

lemma dom_counts: "dom (counts P) = set_mset P"
  by (auto simp: counts_def dom_def)

interpretation count_map: keyed_counter "\<lambda>m P. m = counts P" count_of count_inc count_dec
  by unfold_locales auto

end
