(* ===== verification/Admission.thy ===== *)
theory Admission
  imports Counter_Map Ip_Address Identity
begin

text \<open>
  Server admission (\<open>src/src/server/admission.rs\<close>): the capacity permits of Visitors,
  handshakes, stream opens, routed streams and Tunnel connections, the rate-limited saturation
  log and the accept backoff. Times are nanoseconds since an arbitrary origin, delays milliseconds.
  tokio's \<open>Semaphore\<close> is a parameter of the operations that use one.
\<close>

definition ACCEPT_BACKOFF_INITIAL :: nat where "ACCEPT_BACKOFF_INITIAL = 10"
definition ACCEPT_BACKOFF_MAX :: nat where "ACCEPT_BACKOFF_MAX = 1000"
definition SATURATION_LOG_INTERVAL :: nat where "SATURATION_LOG_INTERVAL = 10 * 1000000000"

record server_admission_limits =
  client_hello_timeout :: nat
  stream_open_timeout :: nat
  max_pending_visitors :: nat
  max_pending_visitors_per_source :: nat
  max_pending_handshakes :: nat
  max_pending_stream_opens :: nat
  max_active_routed_streams :: nat
  max_tunnel_connections :: nat
  max_tunnel_connections_per_tunnel :: nat
  max_tunnel_connections_per_identity :: nat

definition default_limits :: server_admission_limits where
  "default_limits =
     \<lparr>client_hello_timeout = 5000, stream_open_timeout = 5000,
      max_pending_visitors = 4096, max_pending_visitors_per_source = 256,
      max_pending_handshakes = 256, max_pending_stream_opens = 4096,
      max_active_routed_streams = 65536, max_tunnel_connections = 4096,
      max_tunnel_connections_per_tunnel = 256, max_tunnel_connections_per_identity = 64\<rparr>"

datatype AdmissionLimit =
    VisitorsGlobal | VisitorSource | Handshakes | PendingStreamOpens | ActiveRoutedStreams
  | TunnelConnectionsGlobal | TunnelConnectionsPerTunnel | TunnelConnectionsPerIdentity

record admission_rejection =
  rejected_limit :: AdmissionLimit
  active_work :: nat

definition rejection :: "AdmissionLimit \<Rightarrow> nat \<Rightarrow> admission_rejection" where
  "rejection limit work = \<lparr>rejected_limit = limit, active_work = work\<rparr>"

fun limit_value :: "server_admission_limits \<Rightarrow> AdmissionLimit \<Rightarrow> nat" where
  "limit_value limits VisitorsGlobal = max_pending_visitors limits"
| "limit_value limits VisitorSource = max_pending_visitors_per_source limits"
| "limit_value limits Handshakes = max_pending_handshakes limits"
| "limit_value limits PendingStreamOpens = max_pending_stream_opens limits"
| "limit_value limits ActiveRoutedStreams = max_active_routed_streams limits"
| "limit_value limits TunnelConnectionsGlobal = max_tunnel_connections limits"
| "limit_value limits TunnelConnectionsPerTunnel = max_tunnel_connections_per_tunnel limits"
| "limit_value limits TunnelConnectionsPerIdentity = max_tunnel_connections_per_identity limits"

section \<open>The semaphore\<close>

record 'sem semaphore_ops =
  sem_new :: "nat \<Rightarrow> 'sem"
  sem_try_acquire :: "'sem \<Rightarrow> 'sem option"
  sem_available :: "'sem \<Rightarrow> nat"
  sem_release :: "'sem \<Rightarrow> 'sem"

text \<open>
  What tokio documents: a semaphore starts with its permits, an open one refuses a permit only
  when none is left, an acquired permit is one fewer, a dropped permit one more.
\<close>

definition semaphore_laws :: "'sem semaphore_ops \<Rightarrow> bool" where
  "semaphore_laws sem \<longleftrightarrow>
     (\<forall>n. sem_available sem (sem_new sem n) = n) \<and>
     (\<forall>s. sem_try_acquire sem s = None \<longleftrightarrow> sem_available sem s = 0) \<and>
     (\<forall>s s'. sem_try_acquire sem s = Some s' \<longrightarrow>
        sem_available sem s = Suc (sem_available sem s')) \<and>
     (\<forall>s. sem_available sem (sem_release sem s) = Suc (sem_available sem s))"

definition try_admit ::
  "'sem semaphore_ops \<Rightarrow> AdmissionLimit \<Rightarrow> nat \<Rightarrow> 'sem \<Rightarrow> (admission_rejection, 'sem) result" where
  "try_admit sem limit maximum s =
     ok_or (rejection limit (maximum - sem_available sem s)) (sem_try_acquire sem s)"

section \<open>Tunnel connections\<close>

record tunnel_connection_admission =
  active :: nat
  active_by_identity :: "client_identity \<rightharpoonup> nat"

definition tunnel_connection_try_acquire ::
  "server_admission_limits \<Rightarrow> tunnel_connection_admission \<Rightarrow> client_identity \<Rightarrow>
   (admission_rejection, tunnel_connection_admission) result" where
  "tunnel_connection_try_acquire limits state identity =
     (if active state \<ge> max_tunnel_connections limits
        then Inl (rejection TunnelConnectionsGlobal (active state))
      else
        let identity_active = count_of (active_by_identity state) identity
        in if identity_active \<ge> max_tunnel_connections_per_identity limits
             then Inl (rejection TunnelConnectionsPerIdentity identity_active)
           else Inr (state\<lparr>active := active state + 1,
                           active_by_identity := count_inc (active_by_identity state) identity\<rparr>))"

definition tunnel_connection_drop ::
  "tunnel_connection_admission \<Rightarrow> client_identity \<Rightarrow> tunnel_connection_admission option" where
  "tunnel_connection_drop state identity =
     (if active state = 0 then None
      else map_option
             (\<lambda>counters. state\<lparr>active := active state - 1, active_by_identity := counters\<rparr>)
             (count_dec (active_by_identity state) identity))"

section \<open>Pending Visitors by source\<close>

text \<open>
  A Visitor permit holds one global permit and, once known, the source it is counted under. The
  first component of the result is the updated permit's source.
\<close>

definition use_canonical_source ::
  "(ip_addr \<rightharpoonup> nat) \<Rightarrow> ip_addr option \<Rightarrow> ip_addr \<Rightarrow> nat \<Rightarrow>
   (admission_rejection, (ip_addr option \<times> (ip_addr \<rightharpoonup> nat)) option) result" where
  "use_canonical_source sources permit source maximum =
     (if Some source = permit then Inr (Some (permit, sources))
      else
        let active = count_of sources source
        in if active \<ge> maximum then Inl (rejection VisitorSource active)
           else Inr (map_option (\<lambda>sources. (Some source, count_inc sources source))
                  (case permit of None \<Rightarrow> Some sources | Some previous \<Rightarrow> count_dec sources previous)))"

definition visitor_permit_drop ::
  "(ip_addr \<rightharpoonup> nat) \<Rightarrow> ip_addr option \<Rightarrow> (ip_addr \<rightharpoonup> nat) option" where
  "visitor_permit_drop sources permit =
     (case permit of None \<Rightarrow> Some sources | Some source \<Rightarrow> count_dec sources source)"

section \<open>The log gate\<close>

datatype AdmissionLogOutcome =
    Saturation AdmissionLimit | PublicAcceptRetry | TunnelHandshakeFailure

record admission_log_gate =
  last_logged :: "AdmissionLogOutcome \<rightharpoonup> nat"
  log_active :: "AdmissionLogOutcome set"

definition log_gate_default :: admission_log_gate where
  "log_gate_default = \<lparr>last_logged = Map.empty, log_active = {}\<rparr>"

definition should_log ::
  "admission_log_gate \<Rightarrow> AdmissionLogOutcome \<Rightarrow> nat \<Rightarrow> bool \<times> admission_log_gate" where
  "should_log gate outcome now =
     (let gate = gate\<lparr>log_active := insert outcome (log_active gate)\<rparr>
      in if (case last_logged gate outcome of
               None \<Rightarrow> False
             | Some logged \<Rightarrow> now - logged < SATURATION_LOG_INTERVAL)
         then (False, gate)
         else (True, gate\<lparr>last_logged := (last_logged gate)(outcome \<mapsto> now)\<rparr>))"

definition take_recovered ::
  "admission_log_gate \<Rightarrow> AdmissionLogOutcome \<Rightarrow> bool \<times> admission_log_gate" where
  "take_recovered gate outcome =
     (outcome \<in> log_active gate, gate\<lparr>log_active := log_active gate - {outcome}\<rparr>)"

section \<open>The policy\<close>

record 'sem server_admission_policy =
  policy_limits :: server_admission_limits
  pending_visitors :: 'sem
  pending_visitors_by_source :: "ip_addr \<rightharpoonup> nat"
  pending_handshakes :: 'sem
  pending_stream_opens :: 'sem
  active_routed_streams :: 'sem
  tunnel_connections :: tunnel_connection_admission
  log_gate :: admission_log_gate

definition server_admission_policy_new ::
  "'sem semaphore_ops \<Rightarrow> server_admission_limits \<Rightarrow> 'sem server_admission_policy" where
  "server_admission_policy_new sem limits =
     \<lparr>policy_limits = limits,
      pending_visitors = sem_new sem (max_pending_visitors limits),
      pending_visitors_by_source = Map.empty,
      pending_handshakes = sem_new sem (max_pending_handshakes limits),
      pending_stream_opens = sem_new sem (max_pending_stream_opens limits),
      active_routed_streams = sem_new sem (max_active_routed_streams limits),
      tunnel_connections = \<lparr>active = 0, active_by_identity = Map.empty\<rparr>,
      log_gate = log_gate_default\<rparr>"

definition try_admit_visitor_global ::
  "'sem semaphore_ops \<Rightarrow> 'sem server_admission_policy \<Rightarrow>
   (admission_rejection, 'sem server_admission_policy) result" where
  "try_admit_visitor_global sem policy =
     and_then (try_admit sem VisitorsGlobal (max_pending_visitors (policy_limits policy))
                 (pending_visitors policy)) (\<lambda>s.
     Inr (policy\<lparr>pending_visitors := s\<rparr>))"

definition try_admit_handshake ::
  "'sem semaphore_ops \<Rightarrow> 'sem server_admission_policy \<Rightarrow>
   (admission_rejection, 'sem server_admission_policy) result" where
  "try_admit_handshake sem policy =
     and_then (try_admit sem Handshakes (max_pending_handshakes (policy_limits policy))
                 (pending_handshakes policy)) (\<lambda>s.
     Inr (policy\<lparr>pending_handshakes := s\<rparr>))"

definition try_admit_pending_stream_open ::
  "'sem semaphore_ops \<Rightarrow> 'sem server_admission_policy \<Rightarrow>
   (admission_rejection, 'sem server_admission_policy) result" where
  "try_admit_pending_stream_open sem policy =
     and_then (try_admit sem PendingStreamOpens (max_pending_stream_opens (policy_limits policy))
                 (pending_stream_opens policy)) (\<lambda>s.
     Inr (policy\<lparr>pending_stream_opens := s\<rparr>))"

definition try_admit_active_routed_stream ::
  "'sem semaphore_ops \<Rightarrow> 'sem server_admission_policy \<Rightarrow>
   (admission_rejection, 'sem server_admission_policy) result" where
  "try_admit_active_routed_stream sem policy =
     and_then (try_admit sem ActiveRoutedStreams (max_active_routed_streams (policy_limits policy))
                 (active_routed_streams policy)) (\<lambda>s.
     Inr (policy\<lparr>active_routed_streams := s\<rparr>))"

definition report_saturation ::
  "'sem server_admission_policy \<Rightarrow> admission_rejection \<Rightarrow> nat \<Rightarrow>
   (AdmissionLimit \<times> nat \<times> nat) option \<times> 'sem server_admission_policy" where
  "report_saturation policy rejected now =
     (let (logged, gate) = should_log (log_gate policy) (Saturation (rejected_limit rejected)) now
      in (if logged
            then Some (rejected_limit rejected, active_work rejected,
                       limit_value (policy_limits policy) (rejected_limit rejected))
            else None,
          policy\<lparr>log_gate := gate\<rparr>))"

fun report_recovery ::
  "'sem server_admission_policy \<Rightarrow> AdmissionLimit list \<Rightarrow>
   AdmissionLimit list \<times> 'sem server_admission_policy" where
  "report_recovery policy [] = ([], policy)"
| "report_recovery policy (limit # limits) =
     (let (recovered, gate) = take_recovered (log_gate policy) (Saturation limit);
          (logged, policy) = report_recovery (policy\<lparr>log_gate := gate\<rparr>) limits
      in (if recovered then limit # logged else logged, policy))"

section \<open>Accept backoff\<close>

datatype io_error_kind =
    Interrupted | WouldBlock | ConnectionAborted | ConnectionReset | TimedOut | OutOfMemory | OtherKind

record io_error =
  error_kind :: io_error_kind
  raw_os_error :: "int option"

definition is_transient_accept_error :: "io_error \<Rightarrow> bool" where
  "is_transient_accept_error e =
     (error_kind e \<in> {Interrupted, WouldBlock, ConnectionAborted, ConnectionReset, TimedOut, OutOfMemory} \<or>
      raw_os_error e \<in> {Some 12, Some 23, Some 24, Some 55, Some 105})"

record accept_backoff =
  next_delay :: nat
  recovering :: bool

definition accept_backoff_default :: accept_backoff where
  "accept_backoff_default = \<lparr>next_delay = ACCEPT_BACKOFF_INITIAL, recovering = False\<rparr>"

definition on_error :: "accept_backoff \<Rightarrow> io_error \<Rightarrow> nat option \<times> accept_backoff" where
  "on_error backoff e =
     (if \<not> is_transient_accept_error e then (None, backoff)
      else (Some (next_delay backoff),
            \<lparr>next_delay = min (next_delay backoff * 2) ACCEPT_BACKOFF_MAX, recovering = True\<rparr>))"

definition on_success :: "accept_backoff \<Rightarrow> bool \<times> accept_backoff" where
  "on_success backoff =
     (recovering backoff, \<lparr>next_delay = ACCEPT_BACKOFF_INITIAL, recovering = False\<rparr>)"

section \<open>Permits in circulation\<close>

text \<open>
  Every permit handed out is held by some task until it is dropped. \<open>admission_run\<close> is the
  admission policy together with the permits in circulation, under any interleaving of the calls
  the Server makes: one rule per call that succeeds and per permit that is dropped.
\<close>

record held_permits =
  held_visitors :: "ip_addr option multiset"
  held_handshakes :: nat
  held_stream_opens :: nat
  held_routed_streams :: nat
  held_tunnel_connections :: "client_identity multiset"

definition no_permits :: held_permits where
  "no_permits = \<lparr>held_visitors = {#}, held_handshakes = 0, held_stream_opens = 0,
     held_routed_streams = 0, held_tunnel_connections = {#}\<rparr>"

inductive admission_run ::
  "'sem semaphore_ops \<Rightarrow> server_admission_limits \<Rightarrow> 'sem server_admission_policy \<Rightarrow> held_permits \<Rightarrow> bool"
  for sem limits where
  started: "admission_run sem limits (server_admission_policy_new sem limits) no_permits"
| visitor_admitted:
    "admission_run sem limits p H \<Longrightarrow> try_admit_visitor_global sem p = Inr p' \<Longrightarrow>
     admission_run sem limits p' (H\<lparr>held_visitors := add_mset None (held_visitors H)\<rparr>)"
| visitor_source_known:
    "admission_run sem limits p H \<Longrightarrow> held_visitors H = add_mset w V \<Longrightarrow>
     use_canonical_source (pending_visitors_by_source p) w source
       (max_pending_visitors_per_source (policy_limits p)) = Inr (Some (w', sources)) \<Longrightarrow>
     admission_run sem limits (p\<lparr>pending_visitors_by_source := sources\<rparr>)
       (H\<lparr>held_visitors := add_mset w' V\<rparr>)"
| visitor_dropped:
    "admission_run sem limits p H \<Longrightarrow> held_visitors H = add_mset w V \<Longrightarrow>
     visitor_permit_drop (pending_visitors_by_source p) w = Some sources \<Longrightarrow>
     admission_run sem limits
       (p\<lparr>pending_visitors_by_source := sources,
          pending_visitors := sem_release sem (pending_visitors p)\<rparr>)
       (H\<lparr>held_visitors := V\<rparr>)"
| handshake_admitted:
    "admission_run sem limits p H \<Longrightarrow> try_admit_handshake sem p = Inr p' \<Longrightarrow>
     admission_run sem limits p' (H\<lparr>held_handshakes := Suc (held_handshakes H)\<rparr>)"
| handshake_dropped:
    "admission_run sem limits p H \<Longrightarrow> held_handshakes H = Suc n \<Longrightarrow>
     admission_run sem limits (p\<lparr>pending_handshakes := sem_release sem (pending_handshakes p)\<rparr>)
       (H\<lparr>held_handshakes := n\<rparr>)"
| stream_open_admitted:
    "admission_run sem limits p H \<Longrightarrow> try_admit_pending_stream_open sem p = Inr p' \<Longrightarrow>
     admission_run sem limits p' (H\<lparr>held_stream_opens := Suc (held_stream_opens H)\<rparr>)"
| stream_open_dropped:
    "admission_run sem limits p H \<Longrightarrow> held_stream_opens H = Suc n \<Longrightarrow>
     admission_run sem limits (p\<lparr>pending_stream_opens := sem_release sem (pending_stream_opens p)\<rparr>)
       (H\<lparr>held_stream_opens := n\<rparr>)"
| routed_stream_admitted:
    "admission_run sem limits p H \<Longrightarrow> try_admit_active_routed_stream sem p = Inr p' \<Longrightarrow>
     admission_run sem limits p' (H\<lparr>held_routed_streams := Suc (held_routed_streams H)\<rparr>)"
| routed_stream_dropped:
    "admission_run sem limits p H \<Longrightarrow> held_routed_streams H = Suc n \<Longrightarrow>
     admission_run sem limits (p\<lparr>active_routed_streams := sem_release sem (active_routed_streams p)\<rparr>)
       (H\<lparr>held_routed_streams := n\<rparr>)"
| tunnel_connection_admitted:
    "admission_run sem limits p H \<Longrightarrow>
     tunnel_connection_try_acquire (policy_limits p) (tunnel_connections p) c = Inr t \<Longrightarrow>
     admission_run sem limits (p\<lparr>tunnel_connections := t\<rparr>)
       (H\<lparr>held_tunnel_connections := add_mset c (held_tunnel_connections H)\<rparr>)"
| tunnel_connection_dropped:
    "admission_run sem limits p H \<Longrightarrow> held_tunnel_connections H = add_mset c T \<Longrightarrow>
     tunnel_connection_drop (tunnel_connections p) c = Some t \<Longrightarrow>
     admission_run sem limits (p\<lparr>tunnel_connections := t\<rparr>) (H\<lparr>held_tunnel_connections := T\<rparr>)"
| saturation_reported:
    "admission_run sem limits p H \<Longrightarrow> report_saturation p r now = (line, p') \<Longrightarrow>
     admission_run sem limits p' H"
| recovery_reported:
    "admission_run sem limits p H \<Longrightarrow> report_recovery p ls = (lines, p') \<Longrightarrow>
     admission_run sem limits p' H"

text \<open>The sources of the Visitor permits that have been given one.\<close>

definition known_sources :: "ip_addr option multiset \<Rightarrow> ip_addr multiset" where
  "known_sources V = image_mset the (filter_mset (\<lambda>w. w \<noteq> None) V)"

lemma known_sources_simps [simp]:
  "known_sources {#} = {#}"
  "known_sources (add_mset None V) = known_sources V"
  "known_sources (add_mset (Some a) V) = add_mset a (known_sources V)"
  by (simp_all add: known_sources_def)

definition within_limits :: "server_admission_limits \<Rightarrow> held_permits \<Rightarrow> bool" where
  "within_limits limits H \<longleftrightarrow>
     size (held_visitors H) \<le> limit_value limits VisitorsGlobal \<and>
     (\<forall>source. count (known_sources (held_visitors H)) source \<le> limit_value limits VisitorSource) \<and>
     held_handshakes H \<le> limit_value limits Handshakes \<and>
     held_stream_opens H \<le> limit_value limits PendingStreamOpens \<and>
     held_routed_streams H \<le> limit_value limits ActiveRoutedStreams \<and>
     size (held_tunnel_connections H) \<le> limit_value limits TunnelConnectionsGlobal \<and>
     (\<forall>identity. count (held_tunnel_connections H) identity \<le>
        limit_value limits TunnelConnectionsPerIdentity)"

definition policy_counts ::
  "'sem semaphore_ops \<Rightarrow> server_admission_limits \<Rightarrow> 'sem server_admission_policy \<Rightarrow> held_permits \<Rightarrow> bool"
where
  "policy_counts sem limits p H \<longleftrightarrow>
     policy_limits p = limits \<and>
     sem_available sem (pending_visitors p) + size (held_visitors H) = max_pending_visitors limits \<and>
     sem_available sem (pending_handshakes p) + held_handshakes H = max_pending_handshakes limits \<and>
     sem_available sem (pending_stream_opens p) + held_stream_opens H = max_pending_stream_opens limits \<and>
     sem_available sem (active_routed_streams p) + held_routed_streams H = max_active_routed_streams limits \<and>
     pending_visitors_by_source p = counts (known_sources (held_visitors H)) \<and>
     active (tunnel_connections p) = size (held_tunnel_connections H) \<and>
     active_by_identity (tunnel_connections p) = counts (held_tunnel_connections H)"

section \<open>The counters count the permits\<close>

lemma semaphore_laws_new [simp]: "semaphore_laws sem \<Longrightarrow> sem_available sem (sem_new sem n) = n"
  by (simp add: semaphore_laws_def)

lemma semaphore_laws_release [simp]:
  "semaphore_laws sem \<Longrightarrow> sem_available sem (sem_release sem s) = Suc (sem_available sem s)"
  by (simp add: semaphore_laws_def)

lemma semaphore_laws_refuse:
  "semaphore_laws sem \<Longrightarrow> sem_try_acquire sem s = None \<longleftrightarrow> sem_available sem s = 0"
  unfolding semaphore_laws_def by blast

lemma semaphore_laws_acquire:
  "semaphore_laws sem \<Longrightarrow> sem_try_acquire sem s = Some s' \<Longrightarrow>
     sem_available sem s = Suc (sem_available sem s')"
  unfolding semaphore_laws_def by blast

lemma try_admit_Inr:
  "semaphore_laws sem \<Longrightarrow> try_admit sem limit maximum s = Inr s' \<Longrightarrow>
     sem_available sem s = Suc (sem_available sem s')"
  by (simp add: try_admit_def result_simps semaphore_laws_acquire)

lemma try_admit_Inl:
  "semaphore_laws sem \<Longrightarrow>
     try_admit sem limit maximum s = Inl r \<longleftrightarrow> sem_available sem s = 0 \<and> r = rejection limit maximum"
  by (auto simp: try_admit_def result_simps semaphore_laws_refuse)

lemmas admit_defs =
  try_admit_visitor_global_def try_admit_handshake_def try_admit_pending_stream_open_def
  try_admit_active_routed_stream_def

lemma report_saturation_policy:
  "report_saturation p r now = (line, p') \<Longrightarrow> \<exists>gate. p' = p\<lparr>log_gate := gate\<rparr>"
  by (auto simp: report_saturation_def Let_def split: prod.splits)

lemma report_recovery_policy:
  "report_recovery p ls = (lines, p') \<Longrightarrow> \<exists>gate. p' = p\<lparr>log_gate := gate\<rparr>"
proof (induction ls arbitrary: p lines p')
  case Nil
  then have "p' = p\<lparr>log_gate := log_gate p\<rparr>" by simp
  then show ?case by blast
next
  case (Cons l ls)
  then show ?case by (fastforce simp: Let_def split: prod.splits)
qed

lemma policy_counts_log_gate [simp]:
  "policy_counts sem limits (p\<lparr>log_gate := gate\<rparr>) H \<longleftrightarrow> policy_counts sem limits p H"
  by (simp add: policy_counts_def)

lemma count_le_add_mset: "count V x \<le> count (add_mset y V) x"
  by simp

lemma known_sources_mono: "count (known_sources V) x \<le> count (known_sources (add_mset w V)) x"
  by (cases w) simp_all

lemma use_canonical_source_counts:
  assumes "sources = counts (known_sources (add_mset w V))"
    and "use_canonical_source sources w source m = Inr r"
  shows "\<exists>w' sources'. r = Some (w', sources') \<and> w' = Some source \<and>
           sources' = counts (known_sources (add_mset w' V)) \<and>
           (w' = w \<or> count (known_sources (add_mset w V)) source < m)"
  using assms by (cases w) (auto simp: use_canonical_source_def Let_def split: if_splits)

lemma use_canonical_source_within:
  assumes "w' = Some source" "w' = w \<or> count (known_sources (add_mset w V)) source < m"
    and "\<forall>x. count (known_sources (add_mset w V)) x \<le> m"
  shows "count (known_sources (add_mset w' V)) x \<le> m"
proof (cases "x = source")
  case True
  from assms(2) show ?thesis
  proof
    assume "w' = w"
    with assms(3) show ?thesis by blast
  next
    assume "count (known_sources (add_mset w V)) source < m"
    with known_sources_mono [of V source w] assms(1) True show ?thesis by simp
  qed
next
  case False
  with assms(1) have "count (known_sources (add_mset w' V)) x = count (known_sources V) x" by simp
  also have "\<dots> \<le> m" using assms(3) known_sources_mono [of V x w] by (meson le_trans)
  finally show ?thesis .
qed

lemma visitor_permit_drop_counts:
  "visitor_permit_drop (counts (known_sources (add_mset w V))) w = Some (counts (known_sources V))"
  by (cases w) (simp_all add: visitor_permit_drop_def)

lemma tunnel_connection_drop_counts:
  assumes "active t = size (add_mset c T)" "active_by_identity t = counts (add_mset c T)"
  shows "tunnel_connection_drop t c =
           Some (t\<lparr>active := size T, active_by_identity := counts T\<rparr>)"
  using assms by (simp add: tunnel_connection_drop_def)

lemma tunnel_connection_acquire_Inr:
  assumes "tunnel_connection_try_acquire limits t c = Inr t'"
    and "active t = size T" "active_by_identity t = counts T"
  shows "active t' = size (add_mset c T) \<and> active_by_identity t' = counts (add_mset c T) \<and>
         size T < max_tunnel_connections limits \<and>
         count T c < max_tunnel_connections_per_identity limits"
  using assms by (auto simp: tunnel_connection_try_acquire_def Let_def split: if_splits)

text \<open>The invariant: the semaphores and maps agree with the permits held, and these fit.\<close>

lemma admission_run_invariant:
  assumes "semaphore_laws sem" "admission_run sem limits p H"
  shows "policy_counts sem limits p H \<and> within_limits limits H"
  using assms(2)
proof induction
  case started
  then show ?case
    using assms(1)
    by (simp add: policy_counts_def within_limits_def server_admission_policy_new_def no_permits_def)
next
  case (visitor_source_known p H w V source w' sources)
  have moved: "w' = Some source" "sources = counts (known_sources (add_mset w' V))"
    "w' = w \<or> count (known_sources (add_mset w V)) source < max_pending_visitors_per_source limits"
    using use_canonical_source_counts [OF _ visitor_source_known.hyps(3), of V]
      visitor_source_known.IH visitor_source_known.hyps(2)
    by (auto simp: policy_counts_def)
  have "\<forall>x. count (known_sources (add_mset w' V)) x \<le> max_pending_visitors_per_source limits"
    using use_canonical_source_within [OF moved(1,3)] visitor_source_known.IH visitor_source_known.hyps(2)
    by (simp add: within_limits_def)
  with moved(2) visitor_source_known.IH visitor_source_known.hyps(2) show ?case
    by (simp add: policy_counts_def within_limits_def)
next
  case (visitor_dropped p H w V sources)
  moreover have "count (known_sources V) x \<le> max_pending_visitors_per_source limits" for x
    using visitor_dropped known_sources_mono [of V x w]
    by (auto simp: within_limits_def intro: order_trans)
  ultimately show ?case
    using assms(1) by (auto simp: policy_counts_def within_limits_def visitor_permit_drop_counts)
next
  case (tunnel_connection_admitted p H c t)
  then show ?case
    using tunnel_connection_acquire_Inr [of "policy_limits p" "tunnel_connections p" c t
        "held_tunnel_connections H"]
    by (auto simp: policy_counts_def within_limits_def)
next
  case (tunnel_connection_dropped p H c T t)
  moreover from this have "count T x \<le> max_tunnel_connections_per_identity limits" for x
    using count_le_add_mset [of T x c] by (auto simp: within_limits_def intro: order_trans)
  ultimately show ?case
    using tunnel_connection_drop_counts [of "tunnel_connections p" c T]
    by (auto simp: policy_counts_def within_limits_def)
next
  case saturation_reported
  then show ?case by (auto dest: report_saturation_policy)
next
  case recovery_reported
  then show ?case by (auto dest: report_recovery_policy)
qed (use assms(1) in \<open>auto simp: admit_defs result_simps policy_counts_def within_limits_def
      dest!: try_admit_Inr\<close>)

section \<open>The log gate is rate limited\<close>

text \<open>The times at which one outcome is logged when it is reported at the given times.\<close>

fun logged_times :: "admission_log_gate \<Rightarrow> AdmissionLogOutcome \<Rightarrow> nat list \<Rightarrow> nat list" where
  "logged_times gate outcome [] = []"
| "logged_times gate outcome (now # at) =
     (let (logged, gate) = should_log gate outcome now
      in if logged then now # logged_times gate outcome at
         else logged_times gate outcome at)"

lemma logged_times_after:
  "t \<in> set (logged_times gate outcome at) \<Longrightarrow> last_logged gate outcome = Some l \<Longrightarrow>
     sorted at \<Longrightarrow> l + SATURATION_LOG_INTERVAL \<le> t"
proof (induction at arbitrary: gate l)
  case (Cons now at)
  show ?case
  proof (cases "now - l < SATURATION_LOG_INTERVAL")
    case True
    with Cons show ?thesis by (simp add: should_log_def Let_def)
  next
    case False
    moreover from this have "l + SATURATION_LOG_INTERVAL \<le> now"
      by (simp add: SATURATION_LOG_INTERVAL_def)
    moreover have "now + SATURATION_LOG_INTERVAL \<le> t" if "t \<noteq> now"
      using Cons that False by (auto simp: should_log_def Let_def)
    ultimately show ?thesis by (cases "t = now") auto
  qed
qed simp

lemma should_log_last: "should_log gate outcome now = (True, gate') \<Longrightarrow> last_logged gate' outcome = Some now"
  by (auto simp: should_log_def Let_def split: if_splits)

lemma logged_times_spaced:
  "sorted at \<Longrightarrow>
     sorted_wrt (\<lambda>s t. s + SATURATION_LOG_INTERVAL \<le> t) (logged_times gate outcome at)"
  by (induction at arbitrary: gate)
    (auto simp: Let_def dest: should_log_last split: prod.splits intro: logged_times_after)

section \<open>The backoff doubles up to its cap\<close>

fun error_delays :: "accept_backoff \<Rightarrow> io_error list \<Rightarrow> nat option list" where
  "error_delays backoff [] = []"
| "error_delays backoff (e # es) =
     (let (delay, backoff) = on_error backoff e in delay # error_delays backoff es)"

lemma min_times_cap:
  assumes "0 < k"
  shows "min (min a c * k) c = min (a * k) (c :: nat)"
proof (cases "a \<le> c")
  case False
  from assms have "c \<le> c * k" by simp
  moreover from this False have "c \<le> a * k" by (meson le_trans mult_le_mono1 nat_le_linear)
  ultimately show ?thesis using False by (simp add: min_absorb2)
qed (simp add: min_absorb1)

lemma error_delays_nth:
  "list_all is_transient_accept_error es \<Longrightarrow> n < length es \<Longrightarrow> next_delay b \<le> ACCEPT_BACKOFF_MAX \<Longrightarrow>
     error_delays b es ! n = Some (min (next_delay b * 2 ^ n) ACCEPT_BACKOFF_MAX)"
proof (induction es arbitrary: n b)
  case (Cons e es)
  show ?case
  proof (cases n)
    case (Suc m)
    with Cons show ?thesis
      using min_times_cap [of "2 ^ m" "next_delay b * 2" ACCEPT_BACKOFF_MAX]
      by (simp add: on_error_def mult.assoc)
  qed (use Cons in \<open>simp add: on_error_def\<close>)
qed simp

section \<open>Properties\<close>

text \<open>
  C24: Under any interleaving of admissions and drops, the permits in circulation never exceed a
  configured limit: not in total, not per Visitor source and not per Client identity. The
  semaphore is any that behaves as tokio documents.
\<close>

theorem admission_limits_hold:
  assumes "semaphore_laws sem" "admission_run sem limits p H"
  shows "within_limits limits H"
  using admission_run_invariant [OF assms] by blast

definition nat_semaphore :: "nat semaphore_ops" where
  "nat_semaphore = \<lparr>sem_new = \<lambda>n. n, sem_try_acquire = (\<lambda>n. if n = 0 then None else Some (n - 1)),
     sem_available = \<lambda>n. n, sem_release = Suc\<rparr>"

lemma nat_semaphore_laws: "semaphore_laws nat_semaphore"
  by (auto simp: semaphore_laws_def nat_semaphore_def split: if_splits)

definition tiny_limits :: server_admission_limits where
  "tiny_limits = default_limits\<lparr>max_pending_visitors := 1, max_tunnel_connections := 1\<rparr>"

lemma tiny_run:
  "admission_run nat_semaphore tiny_limits
     ((server_admission_policy_new nat_semaphore tiny_limits)\<lparr>pending_visitors := 0\<rparr>)
     (no_permits\<lparr>held_visitors := {#None#}\<rparr>)"
  using visitor_admitted [OF started [of nat_semaphore tiny_limits]]
  by (simp add: admit_defs try_admit_def server_admission_policy_new_def nat_semaphore_def
      tiny_limits_def default_limits_def no_permits_def)

theorem admission_limits_hold_witness:
  "within_limits tiny_limits (no_permits\<lparr>held_visitors := {#None#}\<rparr>)"
  by (rule admission_limits_hold [OF nat_semaphore_laws tiny_run])

text \<open>
  Nothing is refused below its limit, and a refusal reports the work that is really active:
  a Visitor, handshake, stream open or routed stream is refused exactly when as many permits as
  the limit are held, a Tunnel connection exactly when the global or its identity's limit is
  reached. Dropping a held permit never underflows a counter.
\<close>

theorem admission_rejections_exact:
  assumes "semaphore_laws sem" "admission_run sem limits p H"
  shows "(try_admit_visitor_global sem p = Inl r \<longleftrightarrow>
            size (held_visitors H) = max_pending_visitors limits \<and>
            r = rejection VisitorsGlobal (size (held_visitors H))) \<and>
         (try_admit_handshake sem p = Inl r \<longleftrightarrow>
            held_handshakes H = max_pending_handshakes limits \<and>
            r = rejection Handshakes (held_handshakes H)) \<and>
         (try_admit_pending_stream_open sem p = Inl r \<longleftrightarrow>
            held_stream_opens H = max_pending_stream_opens limits \<and>
            r = rejection PendingStreamOpens (held_stream_opens H)) \<and>
         (try_admit_active_routed_stream sem p = Inl r \<longleftrightarrow>
            held_routed_streams H = max_active_routed_streams limits \<and>
            r = rejection ActiveRoutedStreams (held_routed_streams H)) \<and>
         (tunnel_connection_try_acquire limits (tunnel_connections p) c = Inl r \<longleftrightarrow>
            size (held_tunnel_connections H) = max_tunnel_connections limits \<and>
            r = rejection TunnelConnectionsGlobal (size (held_tunnel_connections H)) \<or>
            size (held_tunnel_connections H) < max_tunnel_connections limits \<and>
            count (held_tunnel_connections H) c = max_tunnel_connections_per_identity limits \<and>
            r = rejection TunnelConnectionsPerIdentity (count (held_tunnel_connections H) c)) \<and>
         (c \<in># held_tunnel_connections H \<longrightarrow> tunnel_connection_drop (tunnel_connections p) c \<noteq> None) \<and>
         (w \<in># held_visitors H \<longrightarrow>
            visitor_permit_drop (pending_visitors_by_source p) w \<noteq> None \<and>
            use_canonical_source (pending_visitors_by_source p) w source m \<noteq> Inr None)"
proof (intro conjI impI)
  have i: "policy_counts sem limits p H" "within_limits limits H"
    using admission_run_invariant [OF assms] by blast+
  show "try_admit_visitor_global sem p = Inl r \<longleftrightarrow>
            size (held_visitors H) = max_pending_visitors limits \<and>
            r = rejection VisitorsGlobal (size (held_visitors H))"
    "try_admit_handshake sem p = Inl r \<longleftrightarrow>
            held_handshakes H = max_pending_handshakes limits \<and>
            r = rejection Handshakes (held_handshakes H)"
    "try_admit_pending_stream_open sem p = Inl r \<longleftrightarrow>
            held_stream_opens H = max_pending_stream_opens limits \<and>
            r = rejection PendingStreamOpens (held_stream_opens H)"
    "try_admit_active_routed_stream sem p = Inl r \<longleftrightarrow>
            held_routed_streams H = max_active_routed_streams limits \<and>
            r = rejection ActiveRoutedStreams (held_routed_streams H)"
    using i(1) by (auto simp: policy_counts_def admit_defs result_simps try_admit_Inl [OF assms(1)])
  show "tunnel_connection_try_acquire limits (tunnel_connections p) c = Inl r \<longleftrightarrow>
            size (held_tunnel_connections H) = max_tunnel_connections limits \<and>
            r = rejection TunnelConnectionsGlobal (size (held_tunnel_connections H)) \<or>
            size (held_tunnel_connections H) < max_tunnel_connections limits \<and>
            count (held_tunnel_connections H) c = max_tunnel_connections_per_identity limits \<and>
            r = rejection TunnelConnectionsPerIdentity (count (held_tunnel_connections H) c)"
    using i by (auto simp: policy_counts_def within_limits_def tunnel_connection_try_acquire_def
        Let_def le_antisym)
  show "tunnel_connection_drop (tunnel_connections p) c \<noteq> None" if "c \<in># held_tunnel_connections H"
    using multi_member_split [OF that] i(1)
    by (auto simp: policy_counts_def tunnel_connection_drop_def)
  show "visitor_permit_drop (pending_visitors_by_source p) w \<noteq> None"
    "use_canonical_source (pending_visitors_by_source p) w source m \<noteq> Inr None"
    if "w \<in># held_visitors H"
  proof -
    from that obtain V where "held_visitors H = add_mset w V" by (metis multi_member_split)
    with i(1) have "pending_visitors_by_source p = counts (known_sources (add_mset w V))"
      by (simp add: policy_counts_def)
    then show "visitor_permit_drop (pending_visitors_by_source p) w \<noteq> None"
      "use_canonical_source (pending_visitors_by_source p) w source m \<noteq> Inr None"
      by (auto simp: visitor_permit_drop_counts dest: use_canonical_source_counts [OF refl])
  qed
qed

theorem admission_rejections_exact_witness:
  "try_admit_visitor_global nat_semaphore
     ((server_admission_policy_new nat_semaphore tiny_limits)\<lparr>pending_visitors := 0\<rparr>) =
   Inl (rejection VisitorsGlobal 1)"
  using admission_rejections_exact [OF nat_semaphore_laws tiny_run,
      of "rejection VisitorsGlobal 1" undefined None undefined undefined]
  by (simp add: tiny_limits_def)

text \<open>
  However often one outcome is reported, its log lines are at least the saturation
  interval of ten seconds apart.
\<close>

theorem saturation_log_rate_limited:
  assumes "sorted at"
  shows "sorted_wrt (\<lambda>s t. s + SATURATION_LOG_INTERVAL \<le> t) (logged_times gate outcome at)"
  using assms by (rule logged_times_spaced)

theorem saturation_log_rate_limited_witness:
  "logged_times log_gate_default PublicAcceptRetry [0, 9000000000, 10000000000] = [0, 10000000000] \<and>
   sorted_wrt (\<lambda>s t. s + SATURATION_LOG_INTERVAL \<le> t)
     (logged_times log_gate_default PublicAcceptRetry [0, 9000000000, 10000000000])"
  using saturation_log_rate_limited [of "[0, 9000000000, 10000000000]" log_gate_default PublicAcceptRetry]
  by (simp add: should_log_def log_gate_default_def SATURATION_LOG_INTERVAL_def)

text \<open>
  Consecutive transient accept errors are retried after 10 ms, 20 ms, 40 ms and so on up to
  one second, and a success starts over at 10 ms.
\<close>

theorem accept_backoff_doubles:
  assumes "list_all is_transient_accept_error es" "n < length es"
  shows "error_delays (snd (on_success b)) es ! n = Some (min (10 * 2 ^ n) 1000)"
  using error_delays_nth [OF assms, of "snd (on_success b)"]
  by (simp add: on_success_def ACCEPT_BACKOFF_INITIAL_def ACCEPT_BACKOFF_MAX_def)

theorem accept_backoff_doubles_witness:
  "error_delays (snd (on_success accept_backoff_default))
     (replicate 9 \<lparr>error_kind = ConnectionAborted, raw_os_error = None\<rparr>) ! 8 = Some 1000"
  using accept_backoff_doubles [of "replicate 9 \<lparr>error_kind = ConnectionAborted, raw_os_error = None\<rparr>"
      8 accept_backoff_default]
  by (simp add: list_all_iff is_transient_accept_error_def)

end
