(* ===== verification/Active_Client.thy ===== *)
theory Active_Client
  imports Admission
begin

text \<open>
  The pool of live Tunnel connections of one Tunnel (\<open>src/src/server/active_client.rs\<close>):
  least-active selection with round-robin ties, registration under the admission limits, and the
  hand-over of members between pools. A connection is named by a number; its Client identity, the
  address of its shared stream counter and the handle of its close watcher are fields of the
  member. What a connection answers to \<open>accepts_visitors\<close> is an argument.
\<close>

record pool_member =
  member_id :: u64
  member_identity :: client_identity
  member_connection :: nat
  member_streams :: nat
  close_watcher :: nat

record selected_connection =
  selected_member_id :: u64
  selected_identity :: client_identity
  selected_connection :: nat
  selected_streams :: nat

record active_client_pool =
  members :: "pool_member list"
  next_member_id :: u64
  next_round_robin_offset :: u64

definition pool_with_admission :: active_client_pool where
  "pool_with_admission = \<lparr>members = [], next_member_id = 1, next_round_robin_offset = 0\<rparr>"

section \<open>Selection\<close>

text \<open>\<open>Iterator::min_by_key\<close> keeps the first of several least elements.\<close>

fun min_by_key :: "('a \<Rightarrow> nat) \<Rightarrow> 'a list \<Rightarrow> 'a option" where
  "min_by_key key [] = None"
| "min_by_key key (x # xs) =
     (case min_by_key key xs of
        None \<Rightarrow> Some x
      | Some y \<Rightarrow> if key y < key x then Some y else Some x)"

definition least_active_index :: "nat \<Rightarrow> nat \<Rightarrow> (nat \<Rightarrow> nat option) \<Rightarrow> nat option" where
  "least_active_index len start load =
     map_option fst (min_by_key snd
       (List.map_filter (\<lambda>offset. let index = (start + offset) mod len
                                  in map_option (\<lambda>active. (index, active)) (load index))
          [0..<len]))"

definition select_connection ::
  "(nat \<Rightarrow> bool) \<Rightarrow> (nat \<Rightarrow> nat) \<Rightarrow> active_client_pool \<Rightarrow>
   selected_connection option \<times> active_client_pool" where
  "select_connection accepts_visitors active_streams pool =
     (let len = length (members pool)
      in if len = 0 then (None, pool)
         else
           let start = unat (next_round_robin_offset pool) mod len;
               index = least_active_index len start (\<lambda>index.
                 let member = members pool ! index
                 in if accepts_visitors (member_connection member)
                    then Some (active_streams (member_streams member)) else None)
           in (map_option (\<lambda>index. let member = members pool ! index in
                 \<lparr>selected_member_id = member_id member, selected_identity = member_identity member,
                  selected_connection = member_connection member,
                  selected_streams = member_streams member\<rparr>) index,
               pool\<lparr>next_round_robin_offset := next_round_robin_offset pool + 1\<rparr>))"

section \<open>Membership\<close>

definition push_member ::
  "active_client_pool \<Rightarrow> client_identity \<Rightarrow> nat \<Rightarrow> nat \<Rightarrow> nat \<Rightarrow> active_client_pool" where
  "push_member pool identity connection streams watcher =
     pool\<lparr>next_member_id := next_member_id pool + 1,
          members := members pool @
            [\<lparr>member_id = next_member_id pool, member_identity = identity,
              member_connection = connection, member_streams = streams, close_watcher = watcher\<rparr>]\<rparr>"

text \<open>
  Registration checks the pool's own limit, then takes a Tunnel connection permit. The stream
  counter and the watcher are new; the watcher remembers the pool and the new member's number.
\<close>

definition pool_try_register ::
  "server_admission_limits \<Rightarrow> tunnel_connection_admission \<Rightarrow> active_client_pool \<Rightarrow>
   client_identity \<Rightarrow> nat \<Rightarrow> nat \<Rightarrow> nat \<Rightarrow>
   (admission_rejection, tunnel_connection_admission \<times> active_client_pool) result" where
  "pool_try_register limits admission pool identity connection streams watcher =
     (if length (members pool) \<ge> max_tunnel_connections_per_tunnel limits
        then Inl (rejection TunnelConnectionsPerTunnel (length (members pool)))
      else and_then (tunnel_connection_try_acquire limits admission identity) (\<lambda>admission.
           Inr (admission, push_member pool identity connection streams watcher)))"

definition retain_other_members :: "active_client_pool \<Rightarrow> u64 \<Rightarrow> active_client_pool" where
  "retain_other_members pool closed =
     pool\<lparr>members := filter (\<lambda>member. member_id member \<noteq> closed) (members pool)\<rparr>"

definition connections_for_identities :: "active_client_pool \<Rightarrow> client_identity set \<Rightarrow> nat list" where
  "connections_for_identities pool identities =
     map member_connection (filter (\<lambda>member. member_identity member \<in> identities) (members pool))"

definition take_members :: "active_client_pool \<Rightarrow> pool_member list \<times> active_client_pool" where
  "take_members pool = (members pool, pool\<lparr>members := []\<rparr>)"

definition connection_count :: "active_client_pool \<Rightarrow> nat" where
  "connection_count pool = length (members pool)"

section \<open>The first least element\<close>

lemma min_by_key_None [simp]: "min_by_key key xs = None \<longleftrightarrow> xs = []"
  by (cases xs) (auto split: option.splits)

lemma min_by_key_least:
  "min_by_key key xs = Some x \<Longrightarrow> x \<in> set xs \<and> (\<forall>y \<in> set xs. key x \<le> key y)"
  by (induction xs arbitrary: x) (fastforce split: option.splits if_splits)+

lemma min_by_key_first:
  "min_by_key key xs = Some x \<Longrightarrow>
     \<exists>before after. xs = before @ x # after \<and> (\<forall>y \<in> set before. key x < key y)"
proof (induction xs arbitrary: x)
  case (Cons z zs)
  show ?case
  proof (cases "x = z \<and> (\<forall>y. min_by_key key zs = Some y \<longrightarrow> \<not> key y < key z)")
    case True
    then show ?thesis by (intro exI [of _ "[]"] exI [of _ zs]) simp
  next
    case False
    with Cons.prems have *: "min_by_key key zs = Some x" "key x < key z"
      by (auto split: option.splits if_splits)
    then obtain before after where "zs = before @ x # after" "\<forall>y \<in> set before. key x < key y"
      using Cons.IH by blast
    with * show ?thesis by (intro exI [of _ "z # before"] exI [of _ after]) simp
  qed
qed simp

lemma min_by_key_const:
  "(\<forall>y \<in> set xs. key y = k) \<Longrightarrow> xs \<noteq> [] \<Longrightarrow> min_by_key key xs = Some (hd xs)"
  by (cases xs) (auto split: option.splits dest: min_by_key_least)

definition observed :: "nat \<Rightarrow> nat \<Rightarrow> (nat \<Rightarrow> nat option) \<Rightarrow> (nat \<times> nat) list" where
  "observed len start load =
     List.map_filter (\<lambda>offset. let index = (start + offset) mod len
                               in map_option (\<lambda>active. (index, active)) (load index)) [0..<len]"

lemma rotation_covers:
  assumes "(i :: nat) < len"
  shows "\<exists>offset < len. (start + offset) mod len = i"
proof -
  let ?o = "(i + (len - start mod len)) mod len"
  have "?o < len" using assms by simp
  moreover have "(start + ?o) mod len = (start mod len + (i + (len - start mod len))) mod len"
    by (simp add: mod_simps)
  moreover have "start mod len + (i + (len - start mod len)) = i + len"
  proof -
    have "start mod len < len" using assms by simp
    then show ?thesis by linarith
  qed
  ultimately show ?thesis using assms by (metis mod_add_self2 mod_less)
qed

lemma set_map_filter: "set (List.map_filter f xs) = {y. \<exists>x \<in> set xs. f x = Some y}"
  by (induction xs) (auto simp: map_filter_simps split: option.splits)

lemma observed_set:
  assumes "0 < len"
  shows "set (observed len start load) = {(i, a). i < len \<and> load i = Some a}"
proof -
  have "set (observed len start load) =
          {(i, a). \<exists>offset < len. (start + offset) mod len = i \<and> load i = Some a}"
    unfolding observed_def by (auto simp: set_map_filter Let_def)
  also have "\<dots> = {(i, a). i < len \<and> load i = Some a}"
    using assms rotation_covers [of _ len start] by fastforce
  finally show ?thesis .
qed

lemma least_active_index_observed:
  "least_active_index len start load = map_option fst (min_by_key snd (observed len start load))"
  by (simp add: least_active_index_def observed_def)

lemma observed_all_equal:
  assumes "0 < len" "start < len" "\<And>i. i < len \<Longrightarrow> load i = Some a"
  shows "hd (observed len start load) = (start, a) \<and> observed len start load \<noteq> []"
proof -
  have "[0..<len] = 0 # [1..<len]" using assms(1) by (simp add: upt_conv_Cons)
  then show ?thesis
    using assms by (simp add: observed_def map_filter_def Let_def)
qed

lemma least_active_index_tie:
  assumes "start < len" "\<And>i. i < len \<Longrightarrow> load i = Some a"
  shows "least_active_index len start load = Some start"
proof -
  have "0 < len" using assms(1) by simp
  have "snd y = a" if "y \<in> set (observed len start load)" for y
    using that assms(2) [of "fst y"] unfolding observed_set [OF \<open>0 < len\<close>] by auto
  moreover have first: "hd (observed len start load) = (start, a) \<and> observed len start load \<noteq> []"
    using \<open>0 < len\<close> assms by (rule observed_all_equal)
  ultimately have "min_by_key snd (observed len start load) = Some (hd (observed len start load))"
    by (intro min_by_key_const [of _ snd a]) simp_all
  with first have "min_by_key snd (observed len start load) = Some (start, a)" by simp
  then show ?thesis by (simp add: least_active_index_observed)
qed

section \<open>Properties\<close>

text \<open>
  C28: A Tunnel with at least one member that accepts Visitors is never treated as unavailable,
  and the member chosen has the fewest active streams among those that accept Visitors.
\<close>

theorem least_active_index_correct:
  assumes "0 < len"
  shows "case least_active_index len start load of
           None \<Rightarrow> \<forall>i < len. load i = None
         | Some i \<Rightarrow> i < len \<and> (\<exists>a. load i = Some a \<and> (\<forall>j < len. \<forall>b. load j = Some b \<longrightarrow> a \<le> b))"
proof (cases "min_by_key snd (observed len start load)")
  case None
  then have "observed len start load = []" by simp
  then have "{(i, a). i < len \<and> load i = Some a} = {}"
    using observed_set [OF assms, of start load] by simp
  then have "load i \<noteq> Some a" if "i < len" for i a using that by auto
  then have "\<forall>i < len. load i = None" by (meson option.exhaust)
  with None show ?thesis by (simp add: least_active_index_observed)
next
  case (Some x)
  with min_by_key_least [OF Some] show ?thesis
    by (cases x) (fastforce simp: least_active_index_observed observed_set [OF assms])
qed

theorem least_active_index_correct_witness:
  "case least_active_index 3 2 (\<lambda>i. if i = 2 then None else Some (4 - i)) of
     None \<Rightarrow> False | Some i \<Rightarrow> i = 1"
  using least_active_index_correct [where len = 3 and start = 2
      and load = "\<lambda>i. if i = 2 then None else Some (4 - i)"]
  by (auto split: option.splits simp: less_Suc_eq numeral_eq_Suc)

text \<open>
  C29: Ties rotate: while all members accept Visitors with equal load, consecutive selections pick
  the member at the round-robin offset, so any run of as many selections as members visits each.
\<close>

theorem select_connection_round_robin:
  assumes "0 < length (members pool)"
    and "\<forall>m \<in> set (members pool). accepts (member_connection m) \<and> loads (member_streams m) = a"
  shows "\<exists>chosen. fst (select_connection accepts loads pool) = Some chosen \<and>
           selected_connection chosen =
             member_connection (members pool ! (unat (next_round_robin_offset pool) mod length (members pool))) \<and>
         next_round_robin_offset (snd (select_connection accepts loads pool)) =
           next_round_robin_offset pool + 1"
proof -
  let ?len = "length (members pool)"
  let ?start = "unat (next_round_robin_offset pool) mod ?len"
  let ?load = "\<lambda>index. let member = members pool ! index
     in if accepts (member_connection member) then Some (loads (member_streams member)) else None"
  have "?start < ?len" using assms(1) by simp
  moreover have "?load i = Some a" if "i < ?len" for i
    using assms(2) nth_mem [OF that] by (simp add: Let_def)
  ultimately have "least_active_index ?len ?start ?load = Some ?start"
    by (rule least_active_index_tie)
  with assms(1) show ?thesis unfolding select_connection_def Let_def by simp
qed

definition example_pool :: active_client_pool where
  "example_pool =
     push_member (push_member pool_with_admission (ClientIdentity (replicate 32 1)) 7 0 0)
       (ClientIdentity (replicate 32 2)) 8 1 1"

theorem select_connection_round_robin_witness:
  "\<exists>chosen. fst (select_connection (\<lambda>_. True) (\<lambda>_. 3) (example_pool\<lparr>next_round_robin_offset := 5\<rparr>)) =
       Some chosen \<and> selected_connection chosen = 8"
  using select_connection_round_robin [of "example_pool\<lparr>next_round_robin_offset := 5\<rparr>"
      "\<lambda>_. True" "\<lambda>_. 3" 3]
  by (auto simp: example_pool_def push_member_def pool_with_admission_def
      numeral_2_eq_2 [symmetric])

end
