(* ===== verification/Shutdown.thy ===== *)
theory Shutdown
  imports Prelude
begin

text \<open>
  One-way runtime signals: orderly shutdown with its lock-free mode transitions
  (\<open>src/src/shutdown.rs\<close>), the Managed drain flag (\<open>src/src/server/drain.rs\<close>), the
  readiness gate (\<open>src/src/server/readiness.rs\<close>), the fatal signal and the way a running Server
  follows shutdown and drain (\<open>src/src/server/mod.rs\<close>). Instants are numbers.
\<close>

section \<open>Orderly shutdown\<close>

datatype ShutdownMode = Graceful | Fast

datatype ShutdownTransition = Started ShutdownMode | EscalatedToFast | AlreadyStarted ShutdownMode

record orderly_shutdown =
  shutdown_state :: nat
  started_at :: "nat option"
  graceful_shutdown_duration :: nat
  quic_close_flush_duration :: nat

definition orderly_shutdown_new :: "nat \<Rightarrow> nat \<Rightarrow> orderly_shutdown" where
  "orderly_shutdown_new graceful flush =
     \<lparr>shutdown_state = 0, started_at = None,
      graceful_shutdown_duration = graceful, quic_close_flush_duration = flush\<rparr>"

definition shutdown_mode :: "orderly_shutdown \<Rightarrow> ShutdownMode option" where
  "shutdown_mode s =
     (if shutdown_state s = 1 then Some Graceful
      else if shutdown_state s = 2 then Some Fast else None)"

definition graceful_deadline :: "orderly_shutdown \<Rightarrow> nat option" where
  "graceful_deadline s = map_option (\<lambda>t. t + graceful_shutdown_duration s) (started_at s)"

text \<open>\<open>None\<close> is the \<open>unreachable!\<close> branch.\<close>

definition mode_from_state :: "nat \<Rightarrow> ShutdownMode option" where
  "mode_from_state n = (if n = 1 then Some Graceful else if n = 2 then Some Fast else None)"

definition transition_result :: "nat \<Rightarrow> nat \<Rightarrow> ShutdownTransition option" where
  "transition_result current new_state =
     (if (current, new_state) = (0, 1) then Some (Started Graceful)
      else if (current, new_state) = (0, 2) then Some (Started Fast)
      else if (current, new_state) = (1, 2) then Some EscalatedToFast else None)"

definition record_start :: "orderly_shutdown \<Rightarrow> nat \<Rightarrow> orderly_shutdown" where
  "record_start s now = (if started_at s = None then s\<lparr>started_at := Some now\<rparr> else s)"

text \<open>
  One caller of \<open>transition_to\<close> between two atomic accesses: about to load the state for the
  given number of retries, having loaded it, having recorded the start, returned or panicked.
\<close>

datatype transition_pc =
    Idle
  | Loading nat nat
  | Loaded nat nat nat
  | Recorded nat nat nat
  | Returned ShutdownTransition
  | Panicked

definition after_load :: "nat \<Rightarrow> nat \<Rightarrow> nat \<Rightarrow> transition_pc" where
  "after_load retries new_state current =
     (if current \<ge> new_state
        then (case mode_from_state current of
                None \<Rightarrow> Panicked | Some mode \<Rightarrow> Returned (AlreadyStarted mode))
      else Loaded retries new_state current)"

definition after_exchange :: "nat \<Rightarrow> nat \<Rightarrow> transition_pc" where
  "after_exchange new_state current =
     (case transition_result current new_state of None \<Rightarrow> Panicked | Some r \<Rightarrow> Returned r)"

text \<open>Any number of callers, one atomic access at a time.\<close>

inductive transition_step ::
  "orderly_shutdown \<times> (nat \<Rightarrow> transition_pc) \<Rightarrow> orderly_shutdown \<times> (nat \<Rightarrow> transition_pc) \<Rightarrow> bool" where
  begin_graceful:
    "pc t = Idle \<Longrightarrow> transition_step (s, pc) (s, pc(t := Loading 0 1))"
| begin_fast:
    "pc t = Idle \<Longrightarrow> transition_step (s, pc) (s, pc(t := Loading 0 2))"
| load:
    "pc t = Loading n new_state \<Longrightarrow>
     transition_step (s, pc) (s, pc(t := after_load n new_state (shutdown_state s)))"
| record_first:
    "pc t = Loaded n new_state 0 \<Longrightarrow>
     transition_step (s, pc) (record_start s now, pc(t := Recorded n new_state 0))"
| skip_record:
    "pc t = Loaded n new_state current \<Longrightarrow> current \<noteq> 0 \<Longrightarrow>
     transition_step (s, pc) (s, pc(t := Recorded n new_state current))"
| exchange:
    "pc t = Recorded n new_state current \<Longrightarrow> shutdown_state s = current \<Longrightarrow>
     transition_step (s, pc)
       (s\<lparr>shutdown_state := new_state\<rparr>, pc(t := after_exchange new_state current))"
| exchange_failed:
    "pc t = Recorded n new_state current \<Longrightarrow> shutdown_state s \<noteq> current \<Longrightarrow>
     transition_step (s, pc) (s, pc(t := Loading (Suc n) new_state))"

inductive transition_reachable ::
  "orderly_shutdown \<Rightarrow> orderly_shutdown \<times> (nat \<Rightarrow> transition_pc) \<Rightarrow> bool" for s0 where
  initial: "transition_reachable s0 (s0, \<lambda>_. Idle)"
| step: "transition_reachable s0 c \<Longrightarrow> transition_step c c' \<Longrightarrow> transition_reachable s0 c'"

text \<open>A call that meets no contention runs its three accesses in a row.\<close>

definition transition_to ::
  "orderly_shutdown \<Rightarrow> nat \<Rightarrow> nat \<Rightarrow> ShutdownTransition option \<times> orderly_shutdown" where
  "transition_to s now new_state =
     (let current = shutdown_state s
      in if current \<ge> new_state then (map_option AlreadyStarted (mode_from_state current), s)
         else let s = (if current = 0 then record_start s now else s)
              in (transition_result current new_state, s\<lparr>shutdown_state := new_state\<rparr>))"

definition begin_graceful_shutdown where "begin_graceful_shutdown s now = transition_to s now 1"
definition begin_fast_shutdown where "begin_fast_shutdown s now = transition_to s now 2"

section \<open>Drain, readiness and the fatal signal\<close>

record server_drain = drain_started :: bool

definition drain_begin :: "server_drain \<Rightarrow> bool \<times> server_drain" where
  "drain_begin d = (\<not> drain_started d, d\<lparr>drain_started := True\<rparr>)"

record readiness_gate =
  gate_ready :: bool
  gate_certificate :: "bool option"

definition readiness_with_certificate :: "bool \<Rightarrow> bool option \<Rightarrow> readiness_gate" where
  "readiness_with_certificate initially certificate =
     \<lparr>gate_ready = initially, gate_certificate = certificate\<rparr>"

definition is_ready :: "readiness_gate \<Rightarrow> bool" where
  "is_ready g = (gate_ready g \<and> (case gate_certificate g of None \<Rightarrow> True | Some usable \<Rightarrow> usable))"

definition mark_ready :: "readiness_gate \<Rightarrow> readiness_gate" where
  "mark_ready g = g\<lparr>gate_ready := True\<rparr>"

definition mark_not_ready :: "readiness_gate \<Rightarrow> readiness_gate" where
  "mark_not_ready g = g\<lparr>gate_ready := False\<rparr>"

section \<open>Following shutdown and drain\<close>

text \<open>
  \<open>run_with_shutdown\<close> serves under a local shutdown that follows the process shutdown or the
  drain, whichever starts first; after a graceful start only the process's fast mode counts.
\<close>

datatype follow_phase = FollowWaiting | FollowGraceful | FollowDone

datatype follow_event = ProcessStarted ShutdownMode | DrainStarted | ProcessFast

fun follow_event_step ::
  "nat \<Rightarrow> follow_phase \<times> orderly_shutdown \<Rightarrow> follow_event \<Rightarrow> follow_phase \<times> orderly_shutdown" where
  "follow_event_step now (FollowWaiting, local) (ProcessStarted Fast) =
     (FollowDone, snd (begin_fast_shutdown local now))"
| "follow_event_step now (FollowWaiting, local) (ProcessStarted Graceful) =
     (FollowGraceful, snd (begin_graceful_shutdown local now))"
| "follow_event_step now (FollowWaiting, local) DrainStarted =
     (FollowGraceful, snd (begin_graceful_shutdown local now))"
| "follow_event_step now (FollowGraceful, local) ProcessFast =
     (FollowDone, snd (begin_fast_shutdown local now))"
| "follow_event_step now (phase, local) _ = (phase, local)"

fun follow_run ::
  "follow_phase \<times> orderly_shutdown \<Rightarrow> (nat \<times> follow_event) list \<Rightarrow> follow_phase \<times> orderly_shutdown" where
  "follow_run c [] = c"
| "follow_run c ((now, e) # es) = follow_run (follow_event_step now c e) es"

section \<open>The transition invariant\<close>

definition starters :: "(nat \<Rightarrow> transition_pc) \<Rightarrow> (nat \<times> ShutdownMode) set" where
  "starters pc = {(t, m). pc t = Returned (Started m)}"

definition escalators :: "(nat \<Rightarrow> transition_pc) \<Rightarrow> nat set" where
  "escalators pc = {t. pc t = Returned EscalatedToFast}"

fun running :: "transition_pc \<Rightarrow> bool" where
  "running (Returned r) = False"
| "running p = True"

fun callers_ok :: "nat \<Rightarrow> transition_pc \<Rightarrow> bool" where
  "callers_ok state (Loading n new_state) = (n \<le> state \<and> new_state \<in> {1, 2})"
| "callers_ok state (Loaded n new_state current) =
     (n \<le> current \<and> current \<le> state \<and> current < new_state \<and> new_state \<in> {1, 2})"
| "callers_ok state (Recorded n new_state current) =
     (n \<le> current \<and> current \<le> state \<and> current < new_state \<and> new_state \<in> {1, 2})"
| "callers_ok state (Returned _) = (state \<noteq> 0)"
| "callers_ok state Panicked = False"
| "callers_ok state Idle = True"

fun starts_recorded :: "nat option \<Rightarrow> transition_pc \<Rightarrow> bool" where
  "starts_recorded start (Recorded n new_state current) = (start \<noteq> None)"
| "starts_recorded start p = True"

definition outcome_ok :: "nat \<Rightarrow> (nat \<Rightarrow> transition_pc) \<Rightarrow> bool" where
  "outcome_ok state pc \<longleftrightarrow>
     state = 0 \<and> starters pc = {} \<and> escalators pc = {} \<or>
     state = 1 \<and> (\<exists>t. starters pc = {(t, Graceful)}) \<and> escalators pc = {} \<or>
     state = 2 \<and> (\<exists>t. starters pc = {(t, Fast)}) \<and> escalators pc = {} \<or>
     state = 2 \<and> (\<exists>t. starters pc = {(t, Graceful)}) \<and> (\<exists>u. escalators pc = {u})"

lemma starters_upd:
  "running (pc t) \<Longrightarrow> starters (pc(t := p)) = starters pc \<union> {(t, m) |m. p = Returned (Started m)}"
  by (auto simp: starters_def split: if_splits)

lemma escalators_upd:
  "running (pc t) \<Longrightarrow>
     escalators (pc(t := p)) = escalators pc \<union> (if p = Returned EscalatedToFast then {t} else {})"
  by (auto simp: escalators_def split: if_splits)

lemma outcome_ok_quiet:
  assumes "running (pc t)" "p \<noteq> Returned EscalatedToFast" "\<And>m. p \<noteq> Returned (Started m)"
  shows "outcome_ok state (pc(t := p)) \<longleftrightarrow> outcome_ok state pc"
  using assms by (simp add: outcome_ok_def starters_upd [of pc t p] escalators_upd [of pc t p] del: fun_upd_apply)

lemma transition_result_cases:
  "transition_result current new_state = Some r \<Longrightarrow>
     (current, new_state, r) \<in> {(0, 1, Started Graceful), (0, 2, Started Fast), (1, 2, EscalatedToFast)}"
  by (auto simp: transition_result_def split: if_splits)

lemma outcome_ok_exchange:
  assumes "outcome_ok current pc" "running (pc t)" "transition_result current new_state = Some r"
  shows "outcome_ok new_state (pc(t := Returned r))"
proof -
  note upd = starters_upd [of pc t "Returned r", OF assms(2)]
    escalators_upd [of pc t "Returned r", OF assms(2)]
  from transition_result_cases [OF assms(3)] assms(1) show ?thesis
    unfolding outcome_ok_def upd by auto
qed

definition transition_inv :: "orderly_shutdown \<times> (nat \<Rightarrow> transition_pc) \<Rightarrow> bool" where
  "transition_inv c = (case c of (s, pc) \<Rightarrow>
     (\<forall>t. callers_ok (shutdown_state s) (pc t) \<and> starts_recorded (started_at s) (pc t)) \<and>
     (shutdown_state s \<noteq> 0 \<longrightarrow> started_at s \<noteq> None) \<and> outcome_ok (shutdown_state s) pc)"

lemma transition_inv_state: "transition_inv (s, pc) \<Longrightarrow> shutdown_state s \<in> {0, 1, 2}"
  by (auto simp: transition_inv_def outcome_ok_def)

lemma transition_inv_caller:
  "transition_inv (s, pc) \<Longrightarrow>
     callers_ok (shutdown_state s) (pc t) \<and> starts_recorded (started_at s) (pc t)"
  by (simp add: transition_inv_def)

lemma callers_ok_mono:
  "callers_ok state p \<Longrightarrow> state \<le> state' \<Longrightarrow> callers_ok state' p"
  by (cases p) auto

lemma after_load_ok:
  assumes "callers_ok state (Loading n new_state)" "state \<in> {0, 1, 2}"
  shows "callers_ok state (after_load n new_state state)"
    and "starts_recorded start (after_load n new_state state)"
    and "after_load n new_state state \<noteq> Returned EscalatedToFast"
    and "after_load n new_state state \<noteq> Returned (Started m)"
  using assms by (auto simp: after_load_def mode_from_state_def)

lemma transition_inv_local:
  assumes "transition_inv (s, pc)" "running (pc t)"
    and "callers_ok (shutdown_state s) p" "starts_recorded (started_at s) p"
    and "p \<noteq> Returned EscalatedToFast" "\<And>m. p \<noteq> Returned (Started m)"
  shows "transition_inv (s, pc(t := p))"
  using assms by (simp add: transition_inv_def outcome_ok_quiet)

lemma starts_recorded_Some [simp]: "starts_recorded (Some x) p"
  by (cases p) auto

lemma transition_inv_record:
  "transition_inv (s, pc) \<Longrightarrow> transition_inv (record_start s now, pc)"
  by (auto simp: transition_inv_def record_start_def)

lemma transition_inv_exchange:
  assumes "transition_inv (s, pc)" "pc t = Recorded n new_state (shutdown_state s)"
  shows "transition_inv (s\<lparr>shutdown_state := new_state\<rparr>,
           pc(t := after_exchange new_state (shutdown_state s)))"
proof -
  let ?st = "shutdown_state s"
  have ok: "?st < new_state" "new_state \<in> {1, 2}" "started_at s \<noteq> None"
    using transition_inv_caller [OF assms(1), of t] assms(2) by simp_all
  then obtain r where r: "transition_result ?st new_state = Some r"
    by (auto simp: transition_result_def less_Suc_eq numeral_2_eq_2)
  have "outcome_ok new_state (pc(t := Returned r))"
    using assms r by (auto simp: transition_inv_def intro!: outcome_ok_exchange)
  moreover have "callers_ok new_state ((pc(t := Returned r)) u)" for u
    using transition_inv_caller [OF assms(1), of u] ok callers_ok_mono [of ?st "pc u" new_state] by simp
  moreover have "starts_recorded (started_at s) ((pc(t := Returned r)) u)" for u
    using transition_inv_caller [OF assms(1), of u] by simp
  ultimately show ?thesis
    using ok(3) r by (simp add: transition_inv_def after_exchange_def)
qed

lemma transition_step_inv:
  assumes "transition_inv c" "transition_step c c'"
  shows "transition_inv c'"
  using assms(2)
proof cases
  case (load pc t n new_state s)
  then have ok: "callers_ok (shutdown_state s) (Loading n new_state)" "shutdown_state s \<in> {0, 1, 2}"
    using transition_inv_caller [of s pc t] transition_inv_state [of s pc] assms(1) by simp_all
  show ?thesis unfolding load(2)
    using assms(1) load(1,3) after_load_ok [OF ok] by (intro transition_inv_local) auto
next
  case (record_first pc t n new_state s now)
  then have "callers_ok (shutdown_state (record_start s now)) (Loaded n new_state 0)"
    using transition_inv_caller [of s pc t] assms(1) by (simp add: record_start_def)
  then show ?thesis unfolding record_first(2)
    using assms(1) record_first(1,3) transition_inv_record [of s pc now]
    by (intro transition_inv_local) (auto simp: record_start_def)
next
  case (skip_record pc t n new_state current s)
  then have ok: "callers_ok (shutdown_state s) (Loaded n new_state current)"
    using transition_inv_caller [of s pc t] assms(1) by auto
  moreover from this have "started_at s \<noteq> None"
    using assms(1) skip_record by (auto simp: transition_inv_def)
  ultimately show ?thesis unfolding skip_record(2)
    using assms(1) skip_record(1,3) by (intro transition_inv_local) auto
next
  case (exchange pc t n new_state current s)
  then show ?thesis using assms(1) transition_inv_exchange [of s pc t n new_state] by simp
next
  case (exchange_failed pc t n new_state current s)
  then have "callers_ok (shutdown_state s) (Recorded n new_state current)"
    using transition_inv_caller [of s pc t] assms(1) by simp
  then show ?thesis unfolding exchange_failed(2)
    using assms(1) exchange_failed(1,3,4) by (intro transition_inv_local) auto
next
  case (begin_graceful pc t s)
  show ?thesis unfolding begin_graceful(2)
    using assms(1) begin_graceful(1,3) by (intro transition_inv_local) auto
next
  case (begin_fast pc t s)
  show ?thesis unfolding begin_fast(2)
    using assms(1) begin_fast(1,3) by (intro transition_inv_local) auto
qed

lemma transition_reachable_inv:
  assumes "transition_reachable (orderly_shutdown_new g f) c"
  shows "transition_inv c"
  using assms
proof induction
  case initial
  then show ?case
    by (simp add: transition_inv_def outcome_ok_def orderly_shutdown_new_def starters_def escalators_def)
next
  case (step c c')
  then show ?case by (blast intro: transition_step_inv)
qed

lemmas follow_defs =
  begin_fast_shutdown_def begin_graceful_shutdown_def transition_to_def transition_result_def
  record_start_def orderly_shutdown_new_def

lemma follow_done: "follow_run (FollowDone, s) es = (FollowDone, s)"
  by (induction "(FollowDone, s)" es rule: follow_run.induct) simp_all

lemma follow_graceful:
  assumes "shutdown_state s = 1" "started_at s = Some t"
  shows "follow_run (FollowGraceful, s) es =
           (if ProcessFast \<in> snd ` set es then (FollowDone, s\<lparr>shutdown_state := 2\<rparr>)
            else (FollowGraceful, s))"
proof (induction es)
  case (Cons x es)
  then show ?case
    using assms by (cases x; cases "snd x") (auto simp: follow_done follow_defs)
qed simp

section \<open>Properties\<close>

text \<open>
  C27: However many tasks race to start shutdown, none panics, no call retries more than twice,
  a published mode always has its start instant recorded, exactly one call is told that it started
  shutdown once a mode is published, and at most one that it escalated to fast.
\<close>

theorem shutdown_transitions_linear:
  assumes "transition_reachable (orderly_shutdown_new graceful flush) (s, pc)"
  shows "(\<forall>t. pc t \<noteq> Panicked) \<and>
         (\<forall>t n target. pc t = Loading n target \<longrightarrow> n \<le> 2) \<and>
         (shutdown_mode s \<noteq> None \<longrightarrow>
            started_at s \<noteq> None \<and> (\<exists>!(u, m). pc u = Returned (Started m))) \<and>
         (\<forall>t u. pc t = Returned EscalatedToFast \<and> pc u = Returned EscalatedToFast \<longrightarrow> t = u) \<and>
         (\<forall>t r. pc t = Returned r \<longrightarrow> shutdown_mode s \<noteq> None)"
proof (intro conjI allI impI)
  note inv = transition_reachable_inv [OF assms]
  have st: "shutdown_state s \<in> {0, 1, 2}" by (rule transition_inv_state [OF inv])
  have ok: "callers_ok (shutdown_state s) (pc t)" for t using transition_inv_caller [OF inv] by blast
  show "pc t \<noteq> Panicked" for t using ok [of t] by auto
  show "n \<le> 2" if "pc t = Loading n target" for t n target using ok [of t] st that by auto
  show "started_at s \<noteq> None" "\<exists>!(u, m). pc u = Returned (Started m)" if "shutdown_mode s \<noteq> None"
  proof -
    from that inv obtain v k where v: "starters pc = {(v, k)}" "started_at s \<noteq> None"
      by (auto simp: shutdown_mode_def transition_inv_def outcome_ok_def split: if_splits)
    show "started_at s \<noteq> None" by (rule v(2))
    have "(u, m) \<in> starters pc \<longleftrightarrow> u = v \<and> m = k" for u m using v(1) by auto
    then show "\<exists>!(u, m). pc u = Returned (Started m)" by (auto simp: starters_def)
  qed
  show "t = u" if "pc t = Returned EscalatedToFast \<and> pc u = Returned EscalatedToFast" for t u
  proof -
    from inv have "escalators pc = {} \<or> (\<exists>v. escalators pc = {v})"
      by (auto simp: transition_inv_def outcome_ok_def)
    moreover have "t \<in> escalators pc" "u \<in> escalators pc" using that by (auto simp: escalators_def)
    ultimately show ?thesis by auto
  qed
  show "shutdown_mode s \<noteq> None" if "pc t = Returned r" for t r
    using ok [of t] st that by (auto simp: shutdown_mode_def)
qed

definition example_shutdown :: orderly_shutdown where
  "example_shutdown = \<lparr>shutdown_state = 1, started_at = Some 7,
     graceful_shutdown_duration = 60, quic_close_flush_duration = 1\<rparr>"

lemma example_shutdown_reachable:
  "transition_reachable (orderly_shutdown_new 60 1)
     (example_shutdown, (\<lambda>_. Idle)(3 := Returned (Started Graceful)))"
proof -
  let ?new = "orderly_shutdown_new 60 1" and ?idle = "\<lambda>_. Idle"
  have "transition_reachable ?new (?new, ?idle(3 := Loading 0 1))"
    by (rule step [OF initial begin_graceful]) simp
  from step [OF this load [where t = 3 and n = 0 and new_state = 1]]
  have "transition_reachable ?new (?new, ?idle(3 := Loaded 0 1 0))"
    by (simp add: after_load_def orderly_shutdown_new_def)
  from step [OF this record_first [where t = 3 and n = 0 and new_state = 1 and now = 7]]
  have "transition_reachable ?new (record_start ?new 7, ?idle(3 := Recorded 0 1 0))" by simp
  from step [OF this exchange [where t = 3 and n = 0 and new_state = 1 and current = 0]]
  show ?thesis
    by (simp add: record_start_def orderly_shutdown_new_def after_exchange_def transition_result_def
        example_shutdown_def)
qed

theorem shutdown_transitions_linear_witness:
  "shutdown_mode example_shutdown = Some Graceful \<and> started_at example_shutdown \<noteq> None"
  using shutdown_transitions_linear [OF example_shutdown_reachable]
  by (auto simp: shutdown_mode_def example_shutdown_def)

text \<open>
  A drain opens the graceful window at the instant it starts. Process shutdown during the
  drain joins that window with its deadline unchanged, and only the process's fast mode ends it,
  by escalating to fast.
\<close>

theorem drain_deadline_is_original:
  "let (phase, local) =
         follow_run (FollowWaiting, orderly_shutdown_new graceful flush) ((now, DrainStarted) # es)
   in graceful_deadline local = Some (now + graceful) \<and>
      shutdown_mode local = Some (if ProcessFast \<in> snd ` set es then Fast else Graceful)"
proof -
  define s where "s = snd (begin_graceful_shutdown (orderly_shutdown_new graceful flush) now)"
  have s: "shutdown_state s = 1" "started_at s = Some now" "graceful_shutdown_duration s = graceful"
    by (simp_all add: s_def follow_defs)
  have "follow_run (FollowWaiting, orderly_shutdown_new graceful flush) ((now, DrainStarted) # es) =
          follow_run (FollowGraceful, s) es"
    by (simp add: s_def)
  then show ?thesis
    using s by (simp add: follow_graceful graceful_deadline_def shutdown_mode_def)
qed

end
