(* ===== verification/Tunnel_Registry.thy ===== *)
theory Tunnel_Registry
  imports Authorization Active_Client Shutdown
begin

text \<open>
  The Tunnel registry (\<open>src/src/server/tunnel_registry.rs\<close>): routing a Visitor to a live Tunnel
  connection, registering connections, tracking Visitor work, and replacing the authorization
  snapshot under live traffic. Pools and stream counters are shared objects of the source, so they
  live in a store and are referred to by number; a close watcher is a number that refers to the
  pool and the member it will remove. \<open>None\<close> in a result is a panic: an underflow or an
  \<open>unreachable!\<close>.
\<close>

section \<open>State\<close>

record server_connection =
  connection_key :: nat
  connection_identity :: client_identity

record visitor_work_record =
  work_hostname :: public_hostname
  work_member_id :: u64
  work_identity :: client_identity
  abort_requested :: bool

datatype TunnelRouteOutcome =
    Unauthorized
  | NoActiveTunnelConnection
  | Connected selected_connection nat

datatype TunnelRegistrationOutcome =
    Registered | Rejected admission_rejection | Closed

record live_work_dispatch =
  connections_closed :: nat
  streams_reset :: nat

record tunnel_registry =
  authorization :: authorization_state
  pools :: "nat \<Rightarrow> active_client_pool"
  next_pool :: nat
  tunnel_pools :: "nat list"
  work :: "(u64 \<times> visitor_work_record) list"
  pending_admissions :: nat
  sealed :: bool
  next_stream_id :: u64
  accepting_tunnel_connections :: bool
  connection_admission :: tunnel_connection_admission
  active_streams :: "nat \<Rightarrow> nat"
  next_streams :: nat
  watchers :: "nat \<rightharpoonup> nat \<times> nat \<times> u64"
  next_watcher :: nat
  close_requests :: "(nat \<times> string) list"
  closing_permits :: "(nat \<times> client_identity) list"
  readiness :: "readiness_gate option"
  first_apply_completed :: bool

definition create_pool :: "tunnel_registry \<Rightarrow> nat \<times> tunnel_registry" where
  "create_pool r =
     (next_pool r, r\<lparr>pools := (pools r)(next_pool r := pool_with_admission),
                     next_pool := Suc (next_pool r)\<rparr>)"

definition close_connection :: "nat \<Rightarrow> string \<Rightarrow> tunnel_registry \<Rightarrow> tunnel_registry" where
  "close_connection connection reason r =
     r\<lparr>close_requests := close_requests r @ [(connection, reason)]\<rparr>"

definition from_authorization_with_admission ::
  "authorization_state \<Rightarrow> tunnel_connection_admission \<Rightarrow> tunnel_registry" where
  "from_authorization_with_admission auth admission =
     (let count = tunnel_count (snapshot auth)
      in \<lparr>authorization = auth, pools = (\<lambda>_. pool_with_admission), next_pool = count,
          tunnel_pools = [0..<count], work = [], pending_admissions = 0, sealed = False,
          next_stream_id = 1, accepting_tunnel_connections = True,
          connection_admission = admission, active_streams = (\<lambda>_. 0), next_streams = 0,
          watchers = Map.empty, next_watcher = 0, close_requests = [], closing_permits = [],
          readiness = None, first_apply_completed = False\<rparr>)"

section \<open>Visitor admission and routing\<close>

definition begin_active_visitor_admission :: "tunnel_registry \<Rightarrow> tunnel_registry option" where
  "begin_active_visitor_admission r =
     (if sealed r then None else Some (r\<lparr>pending_admissions := pending_admissions r + 1\<rparr>))"

definition visitor_admission_drop :: "tunnel_registry \<Rightarrow> tunnel_registry option" where
  "visitor_admission_drop r =
     (if pending_admissions r = 0 then None
      else Some (r\<lparr>pending_admissions := pending_admissions r - 1\<rparr>))"

text \<open>The part of routing under the pools lock: the hostname's pool, or why there is none.\<close>

definition route_pool :: "tunnel_registry \<Rightarrow> public_hostname \<Rightarrow> TunnelRouteOutcome + nat" where
  "route_pool r hostname =
     (case tunnel_index_for_public_hostname (snapshot (authorization r)) hostname of
        None \<Rightarrow> Inl Unauthorized
      | Some index \<Rightarrow>
          if index < length (tunnel_pools r) then Inr (tunnel_pools r ! index)
          else Inl NoActiveTunnelConnection)"

definition select_from_pool ::
  "(nat \<Rightarrow> bool) \<Rightarrow> tunnel_registry \<Rightarrow> nat \<Rightarrow> selected_connection option \<times> tunnel_registry" where
  "select_from_pool accepts_visitors r p =
     (let (chosen, pool) = select_connection accepts_visitors (active_streams r) (pools r p)
      in (chosen, r\<lparr>pools := (pools r)(p := pool)\<rparr>))"

definition route_tunnel_connection ::
  "(nat \<Rightarrow> bool) \<Rightarrow> tunnel_registry \<Rightarrow> public_hostname \<Rightarrow>
   (TunnelRouteOutcome \<times> tunnel_registry) option" where
  "route_tunnel_connection accepts_visitors r hostname =
     (case begin_active_visitor_admission r of
        None \<Rightarrow> Some (NoActiveTunnelConnection, r)
      | Some r \<Rightarrow>
          (case route_pool r hostname of
             Inl outcome \<Rightarrow> map_option (\<lambda>r. (outcome, r)) (visitor_admission_drop r)
           | Inr p \<Rightarrow>
               (case select_from_pool accepts_visitors r p of
                  (None, r) \<Rightarrow>
                    map_option (\<lambda>r. (NoActiveTunnelConnection, r)) (visitor_admission_drop r)
                | (Some chosen, r) \<Rightarrow>
                    Some (Connected chosen (allocation (authorization r)), r))))"

section \<open>Visitor work\<close>

definition stream_remains_authorized ::
  "visitor_work_record \<Rightarrow> authorization_snapshot \<Rightarrow> bool" where
  "stream_remains_authorized stream snap =
     (case (tunnel_index_for_public_hostname snap (work_hostname stream),
            tunnel_index_for_client_identity snap (work_identity stream)) of
        (Some hostname_tunnel, Some identity_tunnel) \<Rightarrow> hostname_tunnel = identity_tunnel
      | _ \<Rightarrow> False)"

definition record_open_stream :: "nat \<Rightarrow> tunnel_registry \<Rightarrow> tunnel_registry" where
  "record_open_stream streams r =
     r\<lparr>active_streams := (active_streams r)(streams := active_streams r streams + 1)\<rparr>"

text \<open>
  Registration of Visitor work from a route taken under the snapshot allocation \<open>taken_under\<close>.
  The inner result is \<open>None\<close> when the work is refused.
\<close>

definition register_active_visitor_work ::
  "tunnel_registry \<Rightarrow> public_hostname \<Rightarrow> nat \<Rightarrow> selected_connection \<Rightarrow>
   (u64 option \<times> tunnel_registry) option" where
  "register_active_visitor_work r hostname taken_under chosen =
     (if pending_admissions r = 0 then None
      else
        let r = r\<lparr>pending_admissions := pending_admissions r - 1\<rparr>;
            stream = \<lparr>work_hostname = hostname, work_member_id = selected_member_id chosen,
                      work_identity = selected_identity chosen, abort_requested = False\<rparr>;
            remains_current_and_authorized =
              taken_under = allocation (authorization r) \<and>
              stream_remains_authorized stream (snapshot (authorization r))
        in if sealed r \<or> \<not> remains_current_and_authorized then Some (None, r)
           else
             let r = record_open_stream (selected_streams chosen) r;
                 stream_id = next_stream_id r
             in Some (Some stream_id,
                  r\<lparr>next_stream_id := next_stream_id r + 1,
                    work := AList.update stream_id stream (work r)\<rparr>))"

text \<open>Dropping work releases its load on the member, then removes the record.\<close>

definition active_visitor_work_drop ::
  "tunnel_registry \<Rightarrow> u64 \<Rightarrow> nat \<Rightarrow> tunnel_registry option" where
  "active_visitor_work_drop r stream_id streams =
     (if active_streams r streams = 0 then None
      else Some (r\<lparr>active_streams := (active_streams r)(streams := active_streams r streams - 1),
                   work := AList.delete stream_id (work r)\<rparr>))"

fun reset_streams ::
  "(visitor_work_record \<Rightarrow> bool) \<Rightarrow> (u64 \<times> visitor_work_record) list \<Rightarrow>
   nat \<times> (u64 \<times> visitor_work_record) list" where
  "reset_streams should_reset [] = (0, [])"
| "reset_streams should_reset ((stream_id, stream) # streams) =
     (let (reset, streams) = reset_streams should_reset streams
      in if \<not> abort_requested stream \<and> should_reset stream
         then (Suc reset, (stream_id, stream\<lparr>abort_requested := True\<rparr>) # streams)
         else (reset, (stream_id, stream) # streams))"

definition reset_streams_matching ::
  "(visitor_work_record \<Rightarrow> bool) \<Rightarrow> tunnel_registry \<Rightarrow> nat \<times> tunnel_registry" where
  "reset_streams_matching should_reset r =
     (let (reset, streams) = reset_streams should_reset (work r)
      in (reset, r\<lparr>work := streams\<rparr>))"

definition in_flight_visitor_count :: "tunnel_registry \<Rightarrow> nat" where
  "in_flight_visitor_count r = length (work r)"

definition has_outstanding_visitor_work :: "tunnel_registry \<Rightarrow> bool" where
  "has_outstanding_visitor_work r = (work r \<noteq> [] \<or> pending_admissions r > 0)"

definition stop_accepting_new_work :: "tunnel_registry \<Rightarrow> tunnel_registry" where
  "stop_accepting_new_work r = r\<lparr>accepting_tunnel_connections := False, sealed := True\<rparr>"

section \<open>Tunnel connections\<close>

definition registration_pool :: "tunnel_registry \<Rightarrow> server_connection \<Rightarrow> nat option" where
  "registration_pool r connection =
     (case tunnel_index_for_client_identity (snapshot (authorization r))
             (connection_identity connection) of
        None \<Rightarrow> None
      | Some index \<Rightarrow>
          if index < length (tunnel_pools r) then Some (tunnel_pools r ! index) else None)"

definition register_in_pool ::
  "server_admission_limits \<Rightarrow> tunnel_registry \<Rightarrow> server_connection \<Rightarrow> nat \<Rightarrow>
   TunnelRegistrationOutcome \<times> tunnel_registry" where
  "register_in_pool limits r connection p =
     (case pool_try_register limits (connection_admission r) (pools r p)
             (connection_identity connection) (connection_key connection)
             (next_streams r) (next_watcher r) of
        Inl rejected \<Rightarrow>
          (Rejected rejected,
           close_connection (connection_key connection) ''server tunnel admission saturated'' r)
      | Inr (admission, pool) \<Rightarrow>
          (Registered,
           r\<lparr>connection_admission := admission, pools := (pools r)(p := pool),
             active_streams := (active_streams r)(next_streams r := 0),
             next_streams := Suc (next_streams r),
             watchers := (watchers r)(next_watcher r \<mapsto>
               (connection_key connection, p, next_member_id (pools r p))),
             next_watcher := Suc (next_watcher r)\<rparr>))"

definition register_connection ::
  "server_admission_limits \<Rightarrow> tunnel_registry \<Rightarrow> server_connection \<Rightarrow>
   TunnelRegistrationOutcome \<times> tunnel_registry" where
  "register_connection limits r connection =
     (if \<not> accepting_tunnel_connections r
        then (Closed, close_connection (connection_key connection) ''server shutting down'' r)
      else case registration_pool r connection of
             None \<Rightarrow>
               (Closed, close_connection (connection_key connection) ''unmapped client identity'' r)
           | Some p \<Rightarrow> register_in_pool limits r connection p)"

text \<open>A close watcher whose connection has closed removes its member, dropping its permit.\<close>

fun drop_permits ::
  "client_identity list \<Rightarrow> tunnel_connection_admission \<Rightarrow> tunnel_connection_admission option" where
  "drop_permits [] admission = Some admission"
| "drop_permits (identity # identities) admission =
     (case tunnel_connection_drop admission identity of
        None \<Rightarrow> None | Some admission \<Rightarrow> drop_permits identities admission)"

definition watcher_fires :: "tunnel_registry \<Rightarrow> nat \<Rightarrow> tunnel_registry option" where
  "watcher_fires r w =
     (case watchers r w of
        None \<Rightarrow> Some r
      | Some (connection, p, closed) \<Rightarrow>
          map_option
            (\<lambda>admission. r\<lparr>watchers := (watchers r)(w := None),
                           pools := (pools r)(p := retain_other_members (pools r p) closed),
                           connection_admission := admission\<rparr>)
            (drop_permits
               (map member_identity (filter (\<lambda>m. member_id m = closed) (members (pools r p))))
               (connection_admission r)))"

definition close_all :: "tunnel_registry \<Rightarrow> string \<Rightarrow> nat \<times> tunnel_registry" where
  "close_all r reason =
     (let connections = concat (map (\<lambda>p. map member_connection (members (pools r p))) (tunnel_pools r))
      in (length connections,
          r\<lparr>close_requests := close_requests r @ map (\<lambda>c. (c, reason)) connections\<rparr>))"

definition active_connection_count :: "tunnel_registry \<Rightarrow> nat" where
  "active_connection_count r = sum_list (map (\<lambda>p. connection_count (pools r p)) (tunnel_pools r))"

definition reported_tunnel_connections ::
  "(nat \<Rightarrow> bool) \<Rightarrow> tunnel_registry \<Rightarrow> (tunnel_id \<times> nat) list" where
  "reported_tunnel_connections has_open_session r =
     (case managed_tunnel_ids (snapshot (authorization r)) of
        None \<Rightarrow> []
      | Some ids \<Rightarrow>
          map (\<lambda>(i, p). (i, length (filter (\<lambda>m. has_open_session (member_connection m))
                                     (members (pools r p)))))
            (zip ids (tunnel_pools r)))"

section \<open>Authorization replacement\<close>

text \<open>
  The stages of \<open>commit_authorization\<close>, in its order: the new snapshot is installed; connections
  of removed identities are told to close; every pool is emptied; the pools of surviving Tunnel
  IDs are put in their new positions; each member moves to the pool of its identity, and a revoked
  member keeps its permit until its connection has closed; finally Visitor work that the new
  snapshot does not authorize is aborted.
\<close>

definition install_snapshot :: "tunnel_registry \<Rightarrow> authorization_snapshot \<Rightarrow> tunnel_registry" where
  "install_snapshot r prepared = r\<lparr>authorization := commit_snapshot (authorization r) prepared\<rparr>"

definition close_removed :: "client_identity set \<Rightarrow> tunnel_registry \<Rightarrow> nat \<times> tunnel_registry" where
  "close_removed removed r =
     (if removed = {} then (0, r)
      else
        let connections =
              concat (map (\<lambda>p. connections_for_identities (pools r p) removed) (tunnel_pools r))
        in (length connections,
            r\<lparr>close_requests := close_requests r @ map (\<lambda>c. (c, ''authorization revoked'')) connections\<rparr>))"

fun take_pools ::
  "nat list \<Rightarrow> (nat \<Rightarrow> active_client_pool) \<Rightarrow> pool_member list \<times> (nat \<Rightarrow> active_client_pool)" where
  "take_pools [] store = ([], store)"
| "take_pools (p # ps) store =
     (let (taken, pool) = take_members (store p);
          (more, store) = take_pools ps (store(p := pool))
      in (taken @ more, store))"

definition pools_by_id :: "tunnel_id list \<Rightarrow> nat list \<Rightarrow> (tunnel_id \<rightharpoonup> nat)" where
  "pools_by_id ids ps = map_of (rev (zip ids ps))"

fun rebuild_pools ::
  "tunnel_id list \<Rightarrow> (tunnel_id \<rightharpoonup> nat) \<Rightarrow> tunnel_registry \<Rightarrow> nat list \<times> tunnel_registry" where
  "rebuild_pools [] by_id r = ([], r)"
| "rebuild_pools (i # ids) by_id r =
     (let (p, r) = (case by_id i of Some p \<Rightarrow> (p, r) | None \<Rightarrow> create_pool r);
          (ps, r) = rebuild_pools ids (by_id(i := None)) r
      in (p # ps, r))"

definition adopt_member :: "tunnel_registry \<Rightarrow> nat \<Rightarrow> pool_member \<Rightarrow> tunnel_registry" where
  "adopt_member r p member =
     r\<lparr>pools := (pools r)(p := push_member (pools r p) (member_identity member)
                   (member_connection member) (member_streams member) (next_watcher r)),
       watchers := ((watchers r)(close_watcher member := None))
                     (next_watcher r \<mapsto> (member_connection member, p, next_member_id (pools r p))),
       next_watcher := Suc (next_watcher r)\<rparr>"

definition rehome_member ::
  "authorization_snapshot \<Rightarrow> pool_member \<Rightarrow> tunnel_registry \<Rightarrow> tunnel_registry option" where
  "rehome_member next member r =
     (case tunnel_index_for_client_identity next (member_identity member) of
        None \<Rightarrow>
          Some (r\<lparr>closing_permits :=
                    closing_permits r @ [(member_connection member, member_identity member)]\<rparr>)
      | Some index \<Rightarrow>
          if index < length (tunnel_pools r)
          then Some (adopt_member r (tunnel_pools r ! index) member)
          else map_option (\<lambda>admission. r\<lparr>connection_admission := admission\<rparr>)
                 (tunnel_connection_drop (connection_admission r) (member_identity member)))"

fun rehome_members ::
  "authorization_snapshot \<Rightarrow> pool_member list \<Rightarrow> tunnel_registry \<Rightarrow> tunnel_registry option" where
  "rehome_members next [] r = Some r"
| "rehome_members next (member # ms) r =
     (case rehome_member next member r of None \<Rightarrow> None | Some r \<Rightarrow> rehome_members next ms r)"

definition realign_pools ::
  "authorization_snapshot \<Rightarrow> tunnel_registry \<Rightarrow> (nat \<times> tunnel_registry) option" where
  "realign_pools previous r =
     (let next = snapshot (authorization r);
          (closed, r) = close_removed
            (trusted_client_identities previous - trusted_client_identities next) r;
          (taken, store) = take_pools (tunnel_pools r) (pools r);
          r = r\<lparr>pools := store\<rparr>
      in case (managed_tunnel_ids previous, managed_tunnel_ids next) of
           (Some previous_ids, Some next_ids) \<Rightarrow>
             (let (ps, r) = rebuild_pools next_ids (pools_by_id previous_ids (tunnel_pools r)) r
              in map_option (\<lambda>r. (closed, r)) (rehome_members next taken (r\<lparr>tunnel_pools := ps\<rparr>)))
         | _ \<Rightarrow> None)"

definition reset_unauthorized :: "tunnel_registry \<Rightarrow> nat \<times> tunnel_registry" where
  "reset_unauthorized r =
     reset_streams_matching (\<lambda>stream. \<not> stream_remains_authorized stream (snapshot (authorization r))) r"

definition commit_authorization ::
  "tunnel_registry \<Rightarrow> authorization_snapshot \<Rightarrow> (live_work_dispatch \<times> tunnel_registry) option" where
  "commit_authorization r prepared =
     (case realign_pools (snapshot (authorization r)) (install_snapshot r prepared) of
        None \<Rightarrow> None
      | Some (closed, r) \<Rightarrow>
          (let (reset, r) = reset_unauthorized r
           in Some (\<lparr>connections_closed = closed, streams_reset = reset\<rparr>, r)))"

definition open_readiness :: "tunnel_registry \<Rightarrow> tunnel_registry" where
  "open_readiness r =
     (if first_apply_completed r then r
      else r\<lparr>first_apply_completed := True, readiness := map_option mark_ready (readiness r)\<rparr>)"

definition replace_authorization ::
  "tunnel_registry \<Rightarrow> server_hostname \<Rightarrow> server_tunnel_config list \<Rightarrow>
   (AuthorizationError, (live_work_dispatch \<times> tunnel_registry) option) result" where
  "replace_authorization r server tunnels =
     and_then (prepare_managed_replacement (authorization r) server tunnels) (\<lambda>prepared.
     Inr (map_option (\<lambda>(dispatch, r). (dispatch, open_readiness r)) (commit_authorization r prepared)))"

section \<open>Concurrent tasks\<close>

text \<open>
  The tasks around the registry. A Visitor holds a pending admission until its work is registered;
  it looks a pool up under the pools lock and selects a member afterwards. A connection that has
  passed the accepting check, at any earlier time, likewise looks its pool up and registers there
  afterwards. One replacement runs at a time, as the Managed
  session applies inputs one by one; it holds the pools lock from the commit of the snapshot to
  the end of the realignment and aborts work after that. A step is one critical section.
\<close>

datatype visitor_task =
    VisitorAdmitted public_hostname
  | VisitorPool public_hostname nat nat
  | VisitorRouted public_hostname nat selected_connection
  | VisitorWorking u64 nat

datatype replacement_phase =
    ReplacementIdle | ReplacementCommitted authorization_snapshot | ReplacementRealigned

record server_world =
  registry :: tunnel_registry
  visitors :: "visitor_task multiset"
  registrations :: "(server_connection \<times> nat) multiset"
  replacement :: replacement_phase

fun awaiting_work :: "visitor_task \<Rightarrow> bool" where
  "awaiting_work (VisitorWorking _ _) = False"
| "awaiting_work _ = True"

abbreviation pools_unlocked :: "server_world \<Rightarrow> bool" where
  "pools_unlocked w \<equiv> (\<forall>previous. replacement w \<noteq> ReplacementCommitted previous)"

inductive world_step :: "server_admission_limits \<Rightarrow> server_world \<Rightarrow> server_world \<Rightarrow> bool"
  for limits where
  visitor_begins:
    "begin_active_visitor_admission (registry w) = Some r \<Longrightarrow>
     world_step limits w (w\<lparr>registry := r, visitors := add_mset (VisitorAdmitted h) (visitors w)\<rparr>)"
| visitor_looks_up:
    "visitors w = add_mset (VisitorAdmitted h) V \<Longrightarrow> pools_unlocked w \<Longrightarrow>
     route_pool (registry w) h = Inr p \<Longrightarrow>
     world_step limits w
       (w\<lparr>visitors := add_mset (VisitorPool h (allocation (authorization (registry w))) p) V\<rparr>)"
| visitor_selects:
    "visitors w = add_mset (VisitorPool h a p) V \<Longrightarrow>
     select_from_pool accepts (registry w) p = (Some chosen, r) \<Longrightarrow>
     world_step limits w (w\<lparr>registry := r, visitors := add_mset (VisitorRouted h a chosen) V\<rparr>)"
| visitor_finds_none:
    "visitors w = add_mset (VisitorPool h a p) V \<Longrightarrow>
     select_from_pool accepts (registry w) p = (None, r) \<Longrightarrow> visitor_admission_drop r = Some r' \<Longrightarrow>
     world_step limits w (w\<lparr>registry := r', visitors := V\<rparr>)"
| visitor_gives_up:
    "visitors w = add_mset v V \<Longrightarrow> awaiting_work v \<Longrightarrow>
     visitor_admission_drop (registry w) = Some r \<Longrightarrow>
     world_step limits w (w\<lparr>registry := r, visitors := V\<rparr>)"
| visitor_refused:
    "visitors w = add_mset (VisitorRouted h a chosen) V \<Longrightarrow>
     register_active_visitor_work (registry w) h a chosen = Some (None, r) \<Longrightarrow>
     world_step limits w (w\<lparr>registry := r, visitors := V\<rparr>)"
| visitor_registers:
    "visitors w = add_mset (VisitorRouted h a chosen) V \<Longrightarrow>
     register_active_visitor_work (registry w) h a chosen = Some (Some stream_id, r) \<Longrightarrow>
     world_step limits w
       (w\<lparr>registry := r,
          visitors := add_mset (VisitorWorking stream_id (selected_streams chosen)) V\<rparr>)"
| visitor_finishes:
    "visitors w = add_mset (VisitorWorking stream_id streams) V \<Longrightarrow>
     active_visitor_work_drop (registry w) stream_id streams = Some r \<Longrightarrow>
     world_step limits w (w\<lparr>registry := r, visitors := V\<rparr>)"
| connection_looks_up:
    "pools_unlocked w \<Longrightarrow>
     registration_pool (registry w) c = Some p \<Longrightarrow>
     world_step limits w (w\<lparr>registrations := add_mset (c, p) (registrations w)\<rparr>)"
| connection_registers:
    "registrations w = add_mset (c, p) R \<Longrightarrow> register_in_pool limits (registry w) c p = (outcome, r) \<Longrightarrow>
     world_step limits w (w\<lparr>registry := r, registrations := R\<rparr>)"
| connection_unmapped:
    "world_step limits w (w\<lparr>registry := close_connection c reason (registry w)\<rparr>)"
| connection_closed:
    "watcher_fires (registry w) n = Some r \<Longrightarrow> world_step limits w (w\<lparr>registry := r\<rparr>)"
| detached_connection_closed:
    "closing_permits (registry w) = before @ (c, identity) # after \<Longrightarrow>
     tunnel_connection_drop (connection_admission (registry w)) identity = Some admission \<Longrightarrow>
     world_step limits w
       (w\<lparr>registry := (registry w)\<lparr>closing_permits := before @ after, connection_admission := admission\<rparr>\<rparr>)"
| replacement_commits:
    "replacement w = ReplacementIdle \<Longrightarrow>
     prepare_managed_replacement (authorization (registry w)) server tunnels = Inr prepared \<Longrightarrow>
     world_step limits w
       (w\<lparr>registry := install_snapshot (registry w) prepared,
          replacement := ReplacementCommitted (snapshot (authorization (registry w)))\<rparr>)"
| replacement_realigns:
    "replacement w = ReplacementCommitted previous \<Longrightarrow>
     realign_pools previous (registry w) = Some (closed, r) \<Longrightarrow>
     world_step limits w (w\<lparr>registry := r, replacement := ReplacementRealigned\<rparr>)"
| replacement_resets:
    "replacement w = ReplacementRealigned \<Longrightarrow> reset_unauthorized (registry w) = (reset, r) \<Longrightarrow>
     world_step limits w (w\<lparr>registry := open_readiness r, replacement := ReplacementIdle\<rparr>)"
| work_sealed:
    "world_step limits w (w\<lparr>registry := stop_accepting_new_work (registry w)\<rparr>)"

definition world_start :: "authorization_snapshot \<Rightarrow> server_world" where
  "world_start snap =
     \<lparr>registry = from_authorization_with_admission \<lparr>allocation = 0, snapshot = snap\<rparr>
        \<lparr>active = 0, active_by_identity = Map.empty\<rparr>,
      visitors = {#}, registrations = {#}, replacement = ReplacementIdle\<rparr>"

text \<open>
  Reachable worlds. Stream and member numbers are 64-bit counters; runs that would exhaust the
  stream numbers are left out: 2^64 Visitors are out of reach of one process.
\<close>

inductive world_reachable ::
  "server_admission_limits \<Rightarrow> authorization_snapshot \<Rightarrow> server_world \<Rightarrow> bool" for limits snap where
  world_initial: "world_reachable limits snap (world_start snap)"
| world_next:
    "world_reachable limits snap w \<Longrightarrow> world_step limits w w' \<Longrightarrow>
     next_stream_id (registry w') \<noteq> 0 \<Longrightarrow> world_reachable limits snap w'"

end
