(* ===== verification/Visitor_Intake.thy ===== *)
theory Visitor_Intake
  imports Client_Hello Tunnel_Registry
begin

text \<open>
  A Visitor connection on the Server (\<open>src/src/server/visitor_stream.rs\<close>), from the accepted socket
  to the relay over a Tunnel stream. The task of one Visitor is a state machine whose states are the
  points between its accesses to shared state: the admission policy, the authorization and pools, and
  the Visitor work of the registry. Tasks, replacements and registrations interleave at these points.

  \<open>VisitorPanicked\<close> stands for every panic the task can meet.
\<close>

section \<open>State\<close>

record 'acc visitor_intake =
  intake_server_hostname :: server_hostname
  has_public_tls_config :: bool
  expects_proxy_header :: bool
  visitor_proxy_trusted_networks :: "trusted_network list"
  has_certificate_controller :: bool
  intake_tls :: "'acc tls_acceptor"

text \<open>The accepted socket: its addresses and the bytes the peer sends over it.\<close>

record visitor =
  direct_addresses :: visitor_tcp_addresses
  arriving :: segments
  arriving_end :: stream_end

record forward =
  forward_hostname :: public_hostname
  forward_bytes :: "u8 list"
  forward_addresses :: visitor_tcp_addresses
  forward_rest :: segments

datatype visitor_phase =
    ReadingAddresses
  | ReadingHello visitor_tcp_addresses segments
  | HelloParsed parsed_client_hello visitor_tcp_addresses segments
  | ServingChallenge "u8 list"
  | RouteAdmitted forward
  | RoutePool forward nat nat
  | RouteSelected forward nat selected_connection
  | OpeningStream forward nat selected_connection
  | StreamOpened forward nat selected_connection
  | StreamPermitted forward nat selected_connection
  | Relaying forward "u8 list" u64 nat
  | VisitorDone
  | VisitorPanicked

datatype ServerRouteOutcome =
    Forwarded | RejectedServerHostname | RejectedUnauthorized | RouteNoActiveTunnelConnection
  | AcmeChallenge | MissingAcmeTlsConfig

record 'sem edge =
  policy :: "'sem server_admission_policy"
  tunnels :: tunnel_registry
  route_log :: "(public_hostname \<times> ServerRouteOutcome) list"

text \<open>What the task finds around it when it goes on.\<close>

record surroundings =
  clock :: nat
  accepts :: "nat \<Rightarrow> bool"
  certificate_serving :: bool

datatype visitor_event =
    Continue | IntakeTimedOut | ShutdownStarted | OpenSucceeded | OpenFailed | RelayEnded

section \<open>Admission around the task\<close>

definition log_route :: "public_hostname \<Rightarrow> ServerRouteOutcome \<Rightarrow> 'sem edge \<Rightarrow> 'sem edge" where
  "log_route hostname outcome e = e\<lparr>route_log := route_log e @ [(hostname, outcome)]\<rparr>"

definition saturated :: "surroundings \<Rightarrow> admission_rejection \<Rightarrow> 'sem edge \<Rightarrow> 'sem edge" where
  "saturated env rejected e = e\<lparr>policy := snd (report_saturation (policy e) rejected (clock env))\<rparr>"

definition recovered :: "AdmissionLimit list \<Rightarrow> 'sem edge \<Rightarrow> 'sem edge" where
  "recovered limits e = e\<lparr>policy := snd (report_recovery (policy e) limits)\<rparr>"

text \<open>Dropping the permit of a Visitor that is still before routing, with the source it is counted under.\<close>

definition drop_visitor_permit ::
  "'sem semaphore_ops \<Rightarrow> ip_addr option \<Rightarrow> visitor_phase \<Rightarrow> 'sem edge \<Rightarrow> visitor_phase \<times> 'sem edge" where
  "drop_visitor_permit sem counted continuing e =
     (case visitor_permit_drop (pending_visitors_by_source (policy e)) counted of
        None \<Rightarrow> (VisitorPanicked, e)
      | Some sources \<Rightarrow>
          (continuing, e\<lparr>policy := (policy e)\<lparr>pending_visitors_by_source := sources,
                     pending_visitors := sem_release sem (pending_visitors (policy e))\<rparr>\<rparr>))"

text \<open>Dropping a selected route gives up its pending admission.\<close>

definition drop_route :: "'sem edge \<Rightarrow> visitor_phase \<times> 'sem edge" where
  "drop_route e =
     (case visitor_admission_drop (tunnels e) of
        None \<Rightarrow> (VisitorPanicked, e)
      | Some r \<Rightarrow> (VisitorDone, e\<lparr>tunnels := r\<rparr>))"

definition drop_pending_open :: "'sem semaphore_ops \<Rightarrow> 'sem edge \<Rightarrow> 'sem edge" where
  "drop_pending_open sem e =
     e\<lparr>policy := (policy e)\<lparr>pending_stream_opens := sem_release sem (pending_stream_opens (policy e))\<rparr>\<rparr>"

definition drop_active_stream :: "'sem semaphore_ops \<Rightarrow> 'sem edge \<Rightarrow> 'sem edge" where
  "drop_active_stream sem e =
     e\<lparr>policy := (policy e)\<lparr>active_routed_streams := sem_release sem (active_routed_streams (policy e))\<rparr>\<rparr>"

section \<open>Intake\<close>

definition accepted_task ::
  "'sem semaphore_ops \<Rightarrow> surroundings \<Rightarrow> 'sem edge \<Rightarrow> visitor_phase option \<times> 'sem edge" where
  "accepted_task sem env e =
     (case try_admit_visitor_global sem (policy e) of
        Inl rejected \<Rightarrow> (None, saturated env rejected e)
      | Inr p \<Rightarrow> (Some ReadingAddresses, recovered [VisitorsGlobal, VisitorSource] (e\<lparr>policy := p\<rparr>)))"

definition intake_addresses ::
  "'acc visitor_intake \<Rightarrow> visitor \<Rightarrow> (visitor_tcp_addresses \<times> segments) option" where
  "intake_addresses intake v =
     (if expects_proxy_header intake then
        if \<not> list_ex (\<lambda>network. trusted_network_contains network (ip (source (direct_addresses v))))
              (visitor_proxy_trusted_networks intake) then None
        else (case read_proxy_v2 (arriving v) of Inl _ \<Rightarrow> None | Inr r \<Rightarrow> Some r)
      else Some (direct_addresses v, arriving v))"

definition count_source ::
  "'sem semaphore_ops \<Rightarrow> surroundings \<Rightarrow> visitor_tcp_addresses \<Rightarrow> segments \<Rightarrow> 'sem edge \<Rightarrow>
   visitor_phase \<times> 'sem edge" where
  "count_source sem env a rest e =
     (case use_canonical_source (pending_visitors_by_source (policy e)) None (ip (source a))
             (max_pending_visitors_per_source (policy_limits (policy e))) of
        Inl rejected \<Rightarrow> drop_visitor_permit sem None VisitorDone (saturated env rejected e)
      | Inr None \<Rightarrow> (VisitorPanicked, e)
      | Inr (Some (w, sources)) \<Rightarrow>
          (ReadingHello a rest, e\<lparr>policy := (policy e)\<lparr>pending_visitors_by_source := sources\<rparr>\<rparr>))"

section \<open>Routing\<close>

definition serve_acme_tls_alpn_01 ::
  "'acc visitor_intake \<Rightarrow> public_hostname \<Rightarrow> u8 list \<Rightarrow> 'sem edge \<Rightarrow> visitor_phase \<times> 'sem edge" where
  "serve_acme_tls_alpn_01 intake hostname bytes e =
     (if has_public_tls_config intake then (ServingChallenge bytes, e)
      else (VisitorDone, log_route hostname MissingAcmeTlsConfig e))"

definition handle_parsed ::
  "'acc visitor_intake \<Rightarrow> surroundings \<Rightarrow> parsed_client_hello \<Rightarrow> visitor_tcp_addresses \<Rightarrow> segments \<Rightarrow>
   'sem edge \<Rightarrow> visitor_phase \<times> 'sem edge" where
  "handle_parsed intake env hello a rest e =
     (let hostname = public_hostname hello; bytes = buffered_bytes hello
      in if hostname = intake_server_hostname intake then
           if offers_alpn_protocol hello ACME_TLS_ALPN
           then serve_acme_tls_alpn_01 intake hostname bytes e
           else (VisitorDone, log_route hostname RejectedServerHostname e)
         else if has_certificate_controller intake \<and> \<not> certificate_serving env then (VisitorDone, e)
         else case begin_active_visitor_admission (tunnels e) of
                None \<Rightarrow> (VisitorDone, log_route hostname RouteNoActiveTunnelConnection e)
              | Some r \<Rightarrow>
                  (RouteAdmitted \<lparr>forward_hostname = hostname, forward_bytes = bytes,
                                  forward_addresses = a, forward_rest = rest\<rparr>, e\<lparr>tunnels := r\<rparr>))"

text \<open>The lookup under the pools lock, then the selection from the pool.\<close>

definition look_up_pool :: "forward \<Rightarrow> 'sem edge \<Rightarrow> visitor_phase \<times> 'sem edge" where
  "look_up_pool f e =
     (case route_pool (tunnels e) (forward_hostname f) of
        Inl outcome \<Rightarrow>
          drop_route (log_route (forward_hostname f)
            (case outcome of Unauthorized \<Rightarrow> RejectedUnauthorized | _ \<Rightarrow> RouteNoActiveTunnelConnection) e)
      | Inr p \<Rightarrow> (RoutePool f (allocation (authorization (tunnels e))) p, e))"

definition select_route :: "surroundings \<Rightarrow> forward \<Rightarrow> nat \<Rightarrow> nat \<Rightarrow> 'sem edge \<Rightarrow> visitor_phase \<times> 'sem edge" where
  "select_route env f taken_under p e =
     (case select_from_pool (accepts env) (tunnels e) p of
        (None, r) \<Rightarrow> drop_route (log_route (forward_hostname f) RouteNoActiveTunnelConnection (e\<lparr>tunnels := r\<rparr>))
      | (Some chosen, r) \<Rightarrow> (RouteSelected f taken_under chosen, e\<lparr>tunnels := r\<rparr>))"

section \<open>Forwarding\<close>

definition admit_stream_open ::
  "'sem semaphore_ops \<Rightarrow> surroundings \<Rightarrow> forward \<Rightarrow> nat \<Rightarrow> selected_connection \<Rightarrow> 'sem edge \<Rightarrow>
   visitor_phase \<times> 'sem edge" where
  "admit_stream_open sem env f taken_under chosen e =
     (case try_admit_pending_stream_open sem (policy e) of
        Inl rejected \<Rightarrow> drop_route (saturated env rejected e)
      | Inr p \<Rightarrow> (OpeningStream f taken_under chosen, recovered [PendingStreamOpens] (e\<lparr>policy := p\<rparr>)))"

definition stream_open_failed ::
  "'sem semaphore_ops \<Rightarrow> forward \<Rightarrow> 'sem edge \<Rightarrow> visitor_phase \<times> 'sem edge" where
  "stream_open_failed sem f e =
     drop_route (log_route (forward_hostname f) RouteNoActiveTunnelConnection (drop_pending_open sem e))"

definition admit_active_stream ::
  "'sem semaphore_ops \<Rightarrow> surroundings \<Rightarrow> forward \<Rightarrow> nat \<Rightarrow> selected_connection \<Rightarrow> 'sem edge \<Rightarrow>
   visitor_phase \<times> 'sem edge" where
  "admit_active_stream sem env f taken_under chosen e =
     (case try_admit_active_routed_stream sem (policy e) of
        Inl rejected \<Rightarrow> drop_route (saturated env rejected (drop_pending_open sem e))
      | Inr p \<Rightarrow>
          (StreamPermitted f taken_under chosen,
           recovered [ActiveRoutedStreams] (drop_pending_open sem (e\<lparr>policy := p\<rparr>))))"

text \<open>
  Registration of the work, and the first bytes of the Tunnel stream. Refused work gives its stream
  permit back.
\<close>

definition register_work ::
  "'sem semaphore_ops \<Rightarrow> forward \<Rightarrow> nat \<Rightarrow> selected_connection \<Rightarrow> 'sem edge \<Rightarrow> visitor_phase \<times> 'sem edge" where
  "register_work sem f taken_under chosen e =
     (case register_active_visitor_work (tunnels e) (forward_hostname f) taken_under chosen of
        None \<Rightarrow> (VisitorPanicked, e)
      | Some (None, r) \<Rightarrow> (VisitorDone, drop_active_stream sem (e\<lparr>tunnels := r\<rparr>))
      | Some (Some stream_id, r) \<Rightarrow>
          (case encode_tunnel_stream (forward_addresses f) (forward_bytes f) of
             None \<Rightarrow> (VisitorPanicked, e\<lparr>tunnels := r\<rparr>)
           | Some initial \<Rightarrow>
               (Relaying f initial stream_id (selected_streams chosen),
                log_route (forward_hostname f) Forwarded (e\<lparr>tunnels := r\<rparr>))))"

definition finish_work ::
  "'sem semaphore_ops \<Rightarrow> u64 \<Rightarrow> nat \<Rightarrow> 'sem edge \<Rightarrow> visitor_phase \<times> 'sem edge" where
  "finish_work sem stream_id streams e =
     (case active_visitor_work_drop (tunnels e) stream_id streams of
        None \<Rightarrow> (VisitorPanicked, e)
      | Some r \<Rightarrow> (VisitorDone, drop_active_stream sem (e\<lparr>tunnels := r\<rparr>)))"

section \<open>The task\<close>

text \<open>
  The two waits before routing end with the intake, its timeout or the shutdown; each drops the
  Visitor's permit.
\<close>

definition read_addresses_step ::
  "'sem semaphore_ops \<Rightarrow> 'acc visitor_intake \<Rightarrow> surroundings \<Rightarrow> visitor \<Rightarrow> visitor_event \<Rightarrow>
   'sem edge \<Rightarrow> (visitor_phase \<times> 'sem edge) option" where
  "read_addresses_step sem intake env v event e =
     (if event = Continue then
        Some (case intake_addresses intake v of
                None \<Rightarrow> drop_visitor_permit sem None VisitorDone e
              | Some (a, rest) \<Rightarrow> count_source sem env a rest e)
      else if event \<in> {IntakeTimedOut, ShutdownStarted} then Some (drop_visitor_permit sem None VisitorDone e)
      else None)"

definition read_hello_step ::
  "'sem semaphore_ops \<Rightarrow> 'acc visitor_intake \<Rightarrow> visitor \<Rightarrow> visitor_event \<Rightarrow> visitor_tcp_addresses \<Rightarrow>
   segments \<Rightarrow> 'sem edge \<Rightarrow> (visitor_phase \<times> 'sem edge) option" where
  "read_hello_step sem intake v event a rest e =
     (if event = Continue then
        Some (drop_visitor_permit sem (Some (ip (source a)))
                (case read_client_hello (intake_tls intake) (arriving_end v) rest of
                   Inl _ \<Rightarrow> VisitorDone
                 | Inr (hello, rest') \<Rightarrow> HelloParsed hello a rest') e)
      else if event \<in> {IntakeTimedOut, ShutdownStarted}
        then Some (drop_visitor_permit sem (Some (ip (source a))) VisitorDone e)
      else None)"

definition on_event :: "visitor_event \<Rightarrow> visitor_event \<Rightarrow> 'a \<Rightarrow> 'a option" where
  "on_event expected event result = (if event = expected then Some result else None)"

lemma on_event_Some [simp]: "on_event expected event x = Some y \<longleftrightarrow> event = expected \<and> x = y"
  by (simp add: on_event_def)

text \<open>One step of a Visitor's task; \<open>None\<close> when the event does not concern its phase.\<close>

fun visitor_step ::
  "'sem semaphore_ops \<Rightarrow> 'acc visitor_intake \<Rightarrow> surroundings \<Rightarrow> visitor \<Rightarrow> visitor_event \<Rightarrow>
   visitor_phase \<Rightarrow> 'sem edge \<Rightarrow> (visitor_phase \<times> 'sem edge) option" where
  "visitor_step sem intake env v event ReadingAddresses e = read_addresses_step sem intake env v event e"
| "visitor_step sem intake env v event (ReadingHello a rest) e = read_hello_step sem intake v event a rest e"
| "visitor_step sem intake env v event (HelloParsed hello a rest) e =
     on_event Continue event (handle_parsed intake env hello a rest e)"
| "visitor_step sem intake env v event (ServingChallenge bytes) e = on_event RelayEnded event (VisitorDone, e)"
| "visitor_step sem intake env v event (RouteAdmitted f) e = on_event Continue event (look_up_pool f e)"
| "visitor_step sem intake env v event (RoutePool f taken_under p) e =
     on_event Continue event (select_route env f taken_under p e)"
| "visitor_step sem intake env v event (RouteSelected f taken_under chosen) e =
     on_event Continue event (admit_stream_open sem env f taken_under chosen e)"
| "visitor_step sem intake env v event (OpeningStream f taken_under chosen) e =
     (if event = OpenSucceeded then Some (StreamOpened f taken_under chosen, e)
      else on_event OpenFailed event (stream_open_failed sem f e))"
| "visitor_step sem intake env v event (StreamOpened f taken_under chosen) e =
     on_event Continue event (admit_active_stream sem env f taken_under chosen e)"
| "visitor_step sem intake env v event (StreamPermitted f taken_under chosen) e =
     on_event Continue event (register_work sem f taken_under chosen e)"
| "visitor_step sem intake env v event (Relaying f initial stream_id streams) e =
     on_event RelayEnded event (finish_work sem stream_id streams e)"
| "visitor_step sem intake env v event VisitorDone e = None"
| "visitor_step sem intake env v event VisitorPanicked e = None"

end
