(* ===== verification/Registry_Invariants.thy ===== *)
theory Registry_Invariants
  imports Tunnel_Registry
begin

text \<open>
  What every interleaving of the registry's tasks keeps: pending admissions and stream loads are
  counted exactly and never underflow, Visitor work that has not been aborted is authorized by the
  current snapshot except while a replacement is under way, sealing is final, the pools match the
  snapshot, and every live or closing Tunnel connection holds one admission permit.
\<close>

section \<open>Visitor tasks\<close>

definition pending_visitors_of :: "visitor_task multiset \<Rightarrow> nat" where
  "pending_visitors_of V = size (filter_mset awaiting_work V)"

lemma pending_visitors_of_simps [simp]:
  "pending_visitors_of {#} = 0"
  "pending_visitors_of (add_mset v V) = (if awaiting_work v then Suc else id) (pending_visitors_of V)"
  by (simp_all add: pending_visitors_of_def)

fun working_task :: "visitor_task \<Rightarrow> (u64 \<times> nat) multiset" where
  "working_task (VisitorWorking i c) = {#(i, c)#}"
| "working_task _ = {#}"

definition working :: "visitor_task multiset \<Rightarrow> (u64 \<times> nat) multiset" where
  "working V = \<Sum>\<^sub># (image_mset working_task V)"

lemma working_simps [simp]:
  "working {#} = {#}"
  "working (add_mset v V) = working_task v + working V"
  by (simp_all add: working_def)

lemma awaiting_working_task: "awaiting_work v \<Longrightarrow> working_task v = {#}"
  by (cases v) auto

section \<open>Frames\<close>

text \<open>What the operations on pools and connections leave alone.\<close>

definition same_visitor_state :: "tunnel_registry \<Rightarrow> tunnel_registry \<Rightarrow> bool" where
  "same_visitor_state r r' \<longleftrightarrow>
     work r' = work r \<and> pending_admissions r' = pending_admissions r \<and> sealed r' = sealed r \<and>
     next_stream_id r' = next_stream_id r"

lemma same_visitor_state_refl [simp]: "same_visitor_state r r"
  by (simp add: same_visitor_state_def)

lemma same_visitor_state_trans:
  "same_visitor_state r r' \<Longrightarrow> same_visitor_state r' r'' \<Longrightarrow> same_visitor_state r r''"
  by (simp add: same_visitor_state_def)

definition same_authorization :: "tunnel_registry \<Rightarrow> tunnel_registry \<Rightarrow> bool" where
  "same_authorization r r' \<longleftrightarrow> authorization r' = authorization r"

lemma select_from_pool_frame:
  assumes "select_from_pool accepts r p = (chosen, r')"
  shows "\<exists>n. r' = r\<lparr>pools := (pools r)(p := (pools r p)\<lparr>next_round_robin_offset := n\<rparr>)\<rparr>"
proof -
  have "\<exists>n. snd (select_connection accepts (active_streams r) (pools r p)) =
              (pools r p)\<lparr>next_round_robin_offset := n\<rparr>"
    by (rule exI [of _ "next_round_robin_offset (snd (select_connection accepts (active_streams r) (pools r p)))"])
      (simp add: select_connection_def Let_def)
  with assms show ?thesis by (auto simp: select_from_pool_def split: prod.splits)
qed

lemma select_from_pool_member:
  assumes "select_from_pool accepts r p = (Some chosen, r')"
  shows "\<exists>m \<in> set (members (pools r p)). selected_streams chosen = member_streams m \<and>
           selected_identity chosen = member_identity m \<and> selected_connection chosen = member_connection m"
proof -
  let ?len = "length (members (pools r p))"
  let ?start = "unat (next_round_robin_offset (pools r p)) mod ?len"
  let ?load = "\<lambda>index. let member = members (pools r p) ! index
     in if accepts (member_connection member) then Some (active_streams r (member_streams member)) else None"
  from assms have len: "0 < ?len" and "\<exists>index. least_active_index ?len ?start ?load = Some index \<and>
      selected_streams chosen = member_streams (members (pools r p) ! index) \<and>
      selected_identity chosen = member_identity (members (pools r p) ! index) \<and>
      selected_connection chosen = member_connection (members (pools r p) ! index)"
    by (auto simp: select_from_pool_def select_connection_def Let_def split: if_splits)
  then obtain index where index: "least_active_index ?len ?start ?load = Some index"
      "selected_streams chosen = member_streams (members (pools r p) ! index)"
      "selected_identity chosen = member_identity (members (pools r p) ! index)"
      "selected_connection chosen = member_connection (members (pools r p) ! index)"
    by blast
  obtain a where "(index, a) \<in> set (observed ?len ?start ?load)"
    using index(1) min_by_key_least by (fastforce simp: least_active_index_observed)
  then have "index < ?len" by (simp add: observed_set [OF len])
  with index show ?thesis by (metis nth_mem)
qed

lemma register_in_pool_frame:
  "register_in_pool limits r c p = (outcome, r') \<Longrightarrow> same_visitor_state r r' \<and> authorization r' = authorization r \<and>
     tunnel_pools r' = tunnel_pools r \<and> next_pool r' = next_pool r"
  by (auto simp: register_in_pool_def same_visitor_state_def close_connection_def
      split: sum.splits prod.splits)

lemma watcher_fires_frame:
  "watcher_fires r n = Some r' \<Longrightarrow> same_visitor_state r r' \<and> authorization r' = authorization r \<and>
     tunnel_pools r' = tunnel_pools r \<and> next_pool r' = next_pool r \<and>
     active_streams r' = active_streams r \<and> next_streams r' = next_streams r"
  by (auto simp: watcher_fires_def same_visitor_state_def split: option.splits)

lemma rehome_member_frame:
  "rehome_member snap m r = Some r' \<Longrightarrow> same_visitor_state r r' \<and> authorization r' = authorization r \<and>
     tunnel_pools r' = tunnel_pools r \<and> next_pool r' = next_pool r \<and>
     active_streams r' = active_streams r \<and> next_streams r' = next_streams r"
  by (auto simp: rehome_member_def adopt_member_def same_visitor_state_def split: option.splits if_splits)

lemma rehome_members_frame:
  "rehome_members snap ms r = Some r' \<Longrightarrow> same_visitor_state r r' \<and> authorization r' = authorization r \<and>
     tunnel_pools r' = tunnel_pools r \<and> next_pool r' = next_pool r \<and>
     active_streams r' = active_streams r \<and> next_streams r' = next_streams r"
proof (induction ms arbitrary: r)
  case (Cons m ms)
  then obtain r1 where "rehome_member snap m r = Some r1" "rehome_members snap ms r1 = Some r'"
    by (auto split: option.splits)
  with Cons.IH [of r1] rehome_member_frame [of snap m r r1] show ?case
    by (auto simp: same_visitor_state_def)
qed simp

lemma rebuild_pools_frame:
  "rebuild_pools ids by_id r = (ps, r') \<Longrightarrow> same_visitor_state r r' \<and> authorization r' = authorization r \<and>
     tunnel_pools r' = tunnel_pools r \<and> active_streams r' = active_streams r \<and>
     next_streams r' = next_streams r \<and> connection_admission r' = connection_admission r \<and>
     closing_permits r' = closing_permits r \<and> length ps = length ids"
proof (induction ids arbitrary: by_id r ps r')
  case (Cons i ids)
  obtain p r1 where p: "(case by_id i of Some p \<Rightarrow> (p, r) | None \<Rightarrow> create_pool r) = (p, r1)"
    by (cases "case by_id i of Some p \<Rightarrow> (p, r) | None \<Rightarrow> create_pool r") auto
  obtain qs r2 where q: "rebuild_pools ids (by_id(i := None)) r1 = (qs, r2)"
    by (cases "rebuild_pools ids (by_id(i := None)) r1") auto
  from p have "same_visitor_state r r1 \<and> authorization r1 = authorization r \<and>
     tunnel_pools r1 = tunnel_pools r \<and> active_streams r1 = active_streams r \<and>
     next_streams r1 = next_streams r \<and> connection_admission r1 = connection_admission r \<and>
     closing_permits r1 = closing_permits r"
    by (auto simp: create_pool_def same_visitor_state_def split: option.splits)
  with Cons.prems p q Cons.IH [OF q] show ?case by (auto simp: same_visitor_state_def)
qed simp

lemma close_removed_frame: "close_removed removed r = (n, r') \<Longrightarrow> \<exists>reqs. r' = r\<lparr>close_requests := reqs\<rparr>"
proof -
  assume "close_removed removed r = (n, r')"
  then have "r' = r\<lparr>close_requests := close_requests r'\<rparr>"
    by (auto simp: close_removed_def Let_def split: if_splits)
  then show ?thesis by blast
qed

lemma realign_pools_stages:
  assumes "realign_pools previous r = Some (closed, r')"
  obtains reqs taken store previous_ids next_ids ps r2 where
    "take_pools (tunnel_pools r) (pools r) = (taken, store)"
    "managed_tunnel_ids previous = Some previous_ids"
    "managed_tunnel_ids (snapshot (authorization r)) = Some next_ids"
    "rebuild_pools next_ids (pools_by_id previous_ids (tunnel_pools r))
       (r\<lparr>close_requests := reqs, pools := store\<rparr>) = (ps, r2)"
    "rehome_members (snapshot (authorization r)) taken (r2\<lparr>tunnel_pools := ps\<rparr>) = Some r'"
proof -
  let ?removed = "trusted_client_identities previous - trusted_client_identities (snapshot (authorization r))"
  obtain n r1 where n: "close_removed ?removed r = (n, r1)" by (cases "close_removed ?removed r")
  then obtain reqs where r1: "r1 = r\<lparr>close_requests := reqs\<rparr>" using close_removed_frame by blast
  obtain taken store where t: "take_pools (tunnel_pools r) (pools r) = (taken, store)"
    by (cases "take_pools (tunnel_pools r) (pools r)")
  from assms n r1 t obtain previous_ids next_ids where ids:
    "managed_tunnel_ids previous = Some previous_ids"
    "managed_tunnel_ids (snapshot (authorization r)) = Some next_ids"
    by (auto simp: realign_pools_def Let_def simp del: managed_tunnel_ids.simps split: option.splits)
  obtain ps r2 where b: "rebuild_pools next_ids (pools_by_id previous_ids (tunnel_pools r))
       (r\<lparr>close_requests := reqs, pools := store\<rparr>) = (ps, r2)"
    by (cases "rebuild_pools next_ids (pools_by_id previous_ids (tunnel_pools r))
       (r\<lparr>close_requests := reqs, pools := store\<rparr>)")
  from assms n r1 t ids b show thesis
    by (auto simp: realign_pools_def Let_def simp del: managed_tunnel_ids.simps
        intro: that split: option.splits)
qed

lemma realign_pools_frame:
  assumes "realign_pools previous r = Some (closed, r')"
  shows "same_visitor_state r r' \<and> authorization r' = authorization r \<and>
         active_streams r' = active_streams r \<and> next_streams r' = next_streams r"
  using assms
proof (rule realign_pools_stages)
  fix reqs taken store previous_ids next_ids ps r2
  assume "rebuild_pools next_ids (pools_by_id previous_ids (tunnel_pools r))
       (r\<lparr>close_requests := reqs, pools := store\<rparr>) = (ps, r2)"
    "rehome_members (snapshot (authorization r)) taken (r2\<lparr>tunnel_pools := ps\<rparr>) = Some r'"
  from rebuild_pools_frame [OF this(1)] rehome_members_frame [OF this(2)] show ?thesis
    by (simp add: same_visitor_state_def)
qed

lemma open_readiness_frame [simp]:
  "authorization (open_readiness r) = authorization r" "work (open_readiness r) = work r"
  "pools (open_readiness r) = pools r" "tunnel_pools (open_readiness r) = tunnel_pools r"
  "next_pool (open_readiness r) = next_pool r" "sealed (open_readiness r) = sealed r"
  "pending_admissions (open_readiness r) = pending_admissions r"
  "next_stream_id (open_readiness r) = next_stream_id r"
  "active_streams (open_readiness r) = active_streams r"
  "next_streams (open_readiness r) = next_streams r"
  "connection_admission (open_readiness r) = connection_admission r"
  "closing_permits (open_readiness r) = closing_permits r"
  "watchers (open_readiness r) = watchers r"
  by (simp_all add: open_readiness_def)

lemma reset_streams_set:
  "reset_streams f ws = (n, ws') \<Longrightarrow>
     ws' = map (\<lambda>(i, s). (i, if f s then s\<lparr>abort_requested := True\<rparr> else s)) ws"
proof (induction f ws arbitrary: n ws' rule: reset_streams.induct)
  case (2 f i s ws)
  obtain k vs where k: "reset_streams f ws = (k, vs)" by (cases "reset_streams f ws")
  have "abort_requested s \<Longrightarrow> s\<lparr>abort_requested := True\<rparr> = s" by simp
  with 2 k show ?case by (auto simp: Let_def split: if_splits)
qed simp

lemma reset_streams_keys: "reset_streams f ws = (n, ws') \<Longrightarrow> map fst ws' = map fst ws"
  by (drule reset_streams_set) (auto simp: comp_def split_beta)

lemma reset_unauthorized_frame:
  assumes "reset_unauthorized r = (n, r')"
  shows "\<exists>ws. r' = r\<lparr>work := ws\<rparr> \<and> map fst ws = map fst (work r) \<and>
           (\<forall>(i, s) \<in> set ws. \<not> abort_requested s \<longrightarrow>
              stream_remains_authorized s (snapshot (authorization r)))"
proof -
  let ?f = "\<lambda>stream. \<not> stream_remains_authorized stream (snapshot (authorization r))"
  obtain k ws where ws: "reset_streams ?f (work r) = (k, ws)" by (cases "reset_streams ?f (work r)")
  with assms have "r' = r\<lparr>work := ws\<rparr>" by (simp add: reset_unauthorized_def reset_streams_matching_def)
  moreover have "\<forall>(i, s) \<in> set ws. \<not> abort_requested s \<longrightarrow>
      stream_remains_authorized s (snapshot (authorization r))"
    using reset_streams_set [OF ws] by (auto split: if_splits)
  ultimately show ?thesis using reset_streams_keys [OF ws] by blast
qed

section \<open>Work stays authorized\<close>

definition work_authorized :: "server_world \<Rightarrow> bool" where
  "work_authorized w \<longleftrightarrow>
     (replacement w = ReplacementIdle \<longrightarrow>
        (\<forall>(i, s) \<in> set (work (registry w)). \<not> abort_requested s \<longrightarrow>
           stream_remains_authorized s (snapshot (authorization (registry w)))))"

lemma set_update_subset: "set (AList.update k v xs) \<subseteq> insert (k, v) (set xs)"
  by (induction xs) auto

lemma register_active_visitor_work_cases:
  assumes "register_active_visitor_work r h a chosen = Some (out, r')"
  shows "0 < pending_admissions r \<and>
         (out = None \<and> r' = r\<lparr>pending_admissions := pending_admissions r - 1\<rparr> \<or>
          (\<exists>s. out = Some (next_stream_id r) \<and> \<not> sealed r \<and> a = allocation (authorization r) \<and>
             work_hostname s = h \<and> work_identity s = selected_identity chosen \<and> \<not> abort_requested s \<and>
             stream_remains_authorized s (snapshot (authorization r)) \<and>
             r' = r\<lparr>pending_admissions := pending_admissions r - 1,
                    active_streams := (active_streams r)(selected_streams chosen :=
                      active_streams r (selected_streams chosen) + 1),
                    next_stream_id := next_stream_id r + 1,
                    work := AList.update (next_stream_id r) s (work r)\<rparr>))"
proof -
  let ?s = "\<lparr>work_hostname = h, work_member_id = selected_member_id chosen,
             work_identity = selected_identity chosen, abort_requested = False\<rparr>"
  from assms have pending: "pending_admissions r \<noteq> 0"
    by (auto simp: register_active_visitor_work_def split: if_splits)
  show ?thesis
  proof (cases "sealed r \<or> \<not> (a = allocation (authorization r) \<and>
      stream_remains_authorized ?s (snapshot (authorization r)))")
    case True
    with assms pending show ?thesis
      by (auto simp: register_active_visitor_work_def Let_def)
  next
    case False
    with assms pending show ?thesis
      by (intro conjI disjI2 exI [of _ ?s])
        (auto simp: register_active_visitor_work_def Let_def record_open_stream_def)
  qed
qed

lemma world_step_work_authorized:
  assumes "world_step limits w w'" "work_authorized w"
  shows "work_authorized w'"
  using assms
proof cases
  case (visitor_registers h a chosen V i r)
  from register_active_visitor_work_cases [OF visitor_registers(3)] assms(2) show ?thesis
    using set_update_subset [of "next_stream_id (registry w)" _ "work (registry w)"]
    by (fastforce simp: visitor_registers(1) work_authorized_def)
next
  case (visitor_refused h a chosen V r)
  from register_active_visitor_work_cases [OF visitor_refused(3)] assms(2) show ?thesis
    by (auto simp: visitor_refused(1) work_authorized_def)
next
  case (visitor_finishes i c V r)
  then show ?thesis
    using assms(2)
    by (auto simp: work_authorized_def active_visitor_work_drop_def AList.delete_eq split: if_splits)
next
  case (replacement_resets n r)
  then show ?thesis using reset_unauthorized_frame [of "registry w" n r]
    by (auto simp: work_authorized_def)
qed (use assms(2) in \<open>auto simp: work_authorized_def begin_active_visitor_admission_def
      visitor_admission_drop_def stop_accepting_new_work_def close_connection_def same_visitor_state_def
      split: if_splits
      dest!: select_from_pool_frame register_in_pool_frame watcher_fires_frame realign_pools_frame\<close>)

section \<open>Admissions and work are counted\<close>

definition ids_below :: "u64 \<Rightarrow> (u64 \<times> 'a) list \<Rightarrow> bool" where
  "ids_below n ws \<longleftrightarrow> set (map fst ws) \<subseteq> {..<n}"

lemma ids_below_delete: "ids_below n ws \<Longrightarrow> ids_below n (AList.delete i ws)"
  by (auto simp: ids_below_def AList.delete_eq)

lemma ids_below_fresh: "ids_below n ws \<Longrightarrow> n \<notin> fst ` set ws"
  by (auto simp: ids_below_def)

definition work_counted :: "server_world \<Rightarrow> bool" where
  "work_counted w \<longleftrightarrow>
     pending_admissions (registry w) = pending_visitors_of (visitors w) \<and>
     distinct (map fst (work (registry w))) \<and>
     mset (map fst (work (registry w))) = image_mset fst (working (visitors w)) \<and>
     ids_below (next_stream_id (registry w)) (work (registry w))"

lemma update_fresh: "k \<notin> fst ` set xs \<Longrightarrow> AList.update k v xs = xs @ [(k, v)]"
  by (induction xs) auto

lemma mset_delete:
  "distinct (map fst xs) \<Longrightarrow> i \<in> fst ` set xs \<Longrightarrow>
     mset (map fst xs) = add_mset i (mset (map fst (AList.delete i xs)))"
proof (induction xs)
  case (Cons x xs)
  show ?case
  proof (cases "fst x = i")
    case True
    with Cons.prems have "AList.delete i (x # xs) = xs"
      by (cases x) (auto simp: AList.delete_eq filter_id_conv image_iff)
    with True show ?thesis by simp
  next
    case False
    with Cons show ?thesis by (cases x) auto
  qed
qed simp

lemma work_counted_work:
  assumes "work_counted w" "visitors w = add_mset (VisitorWorking i c) V"
  shows "i \<in> fst ` set (work (registry w))"
proof -
  have "i \<in># mset (map fst (work (registry w)))" using assms by (simp add: work_counted_def)
  then show ?thesis by simp
qed

lemma work_counted_finish:
  assumes "work_counted w" "visitors w = add_mset (VisitorWorking i c) V"
    and "active_visitor_work_drop (registry w) i c = Some r"
  shows "work_counted (w\<lparr>registry := r, visitors := V\<rparr>)"
proof -
  from assms(3) have r: "work r = AList.delete i (work (registry w))"
      "pending_admissions r = pending_admissions (registry w)" "next_stream_id r = next_stream_id (registry w)"
    by (auto simp: active_visitor_work_drop_def split: if_splits)
  have "add_mset i (mset (map fst (work r))) = add_mset i (image_mset fst (working V))"
    using mset_delete [OF _ work_counted_work [OF assms(1,2)]] assms(1,2) r(1)
    by (simp add: work_counted_def)
  moreover have "distinct (map fst (work r))"
    using assms(1) by (simp add: r(1) work_counted_def distinct_delete)
  moreover have "ids_below (next_stream_id r) (work r)"
    using assms(1) by (simp add: r work_counted_def ids_below_delete)
  ultimately show ?thesis using assms(1,2) r by (simp add: work_counted_def)
qed

lemma work_counted_register:
  assumes "work_counted w" "visitors w = add_mset (VisitorRouted h a chosen) V"
    and "register_active_visitor_work (registry w) h a chosen = Some (Some i, r)"
    and "next_stream_id r \<noteq> 0"
  shows "work_counted (w\<lparr>registry := r, visitors := add_mset (VisitorWorking i c) V\<rparr>)"
proof -
  let ?n = "next_stream_id (registry w)"
  from register_active_visitor_work_cases [OF assms(3)] obtain s where
    i: "i = ?n" and r: "work r = AList.update ?n s (work (registry w))"
      "next_stream_id r = ?n + 1" "pending_admissions r = pending_admissions (registry w) - 1"
    by auto
  have below: "ids_below ?n (work (registry w))" using assms(1) by (simp add: work_counted_def)
  then have fresh: "?n \<notin> fst ` set (work (registry w))" by (rule ids_below_fresh)
  then have ws: "work r = work (registry w) @ [(?n, s)]" by (simp add: r(1) update_fresh)
  have "j < ?n + 1" if "j \<le> ?n" for j
    using that assms(4) less_next_u64 [of ?n j] by (simp add: r(2))
  with below have "ids_below (next_stream_id r) (work r)"
    by (auto simp: ids_below_def ws r(2) less_imp_le)
  then show ?thesis using assms(1,2) i r(2,3) ws fresh by (auto simp: work_counted_def)
qed

lemma world_step_work_counted:
  assumes "world_step limits w w'" "next_stream_id (registry w') \<noteq> 0" "work_counted w"
  shows "work_counted w'"
  using assms(1)
proof cases
  case (visitor_registers h a chosen V i r)
  then show ?thesis using work_counted_register [OF assms(3)] assms(2) by simp
next
  case (visitor_finishes i c V r)
  then show ?thesis using work_counted_finish [OF assms(3)] by simp
next
  case (visitor_refused h a chosen V r)
  from register_active_visitor_work_cases [OF visitor_refused(3)] show ?thesis
    using assms(3) visitor_refused by (auto simp: work_counted_def)
next
  case (visitor_gives_up v V r)
  then have "r = (registry w)\<lparr>pending_admissions := pending_admissions (registry w) - 1\<rparr>"
    by (simp add: visitor_admission_drop_def split: if_splits)
  with visitor_gives_up assms(3) show ?thesis
    by (simp add: work_counted_def awaiting_working_task)
next
  case (replacement_resets n r)
  from reset_unauthorized_frame [OF replacement_resets(3)] obtain ws where
    ws: "r = (registry w)\<lparr>work := ws\<rparr>" "map fst ws = map fst (work (registry w))" by blast
  with ws assms(3) replacement_resets(1) show ?thesis
    by (simp add: work_counted_def ids_below_def flip: mset_map set_map)
qed (use assms(3) in \<open>auto simp: work_counted_def begin_active_visitor_admission_def
      visitor_admission_drop_def stop_accepting_new_work_def close_connection_def same_visitor_state_def
      install_snapshot_def split: if_splits
      dest!: select_from_pool_frame register_in_pool_frame watcher_fires_frame realign_pools_frame\<close>)

section \<open>Sealing is final\<close>

lemma world_step_sealed:
  assumes "world_step limits w w'" "sealed (registry w)"
  shows "sealed (registry w') \<and> fst ` set (work (registry w')) \<subseteq> fst ` set (work (registry w)) \<and>
         pending_admissions (registry w') \<le> pending_admissions (registry w)"
  using assms(1)
proof cases
  case (visitor_registers h a chosen V i r)
  from register_active_visitor_work_cases [OF visitor_registers(3)] assms(2) show ?thesis by auto
next
  case (visitor_refused h a chosen V r)
  from register_active_visitor_work_cases [OF visitor_refused(3)] assms(2) show ?thesis
    by (auto simp: visitor_refused(1))
next
  case (visitor_finishes i c V r)
  then show ?thesis
    using assms(2) by (auto simp: active_visitor_work_drop_def AList.delete_eq split: if_splits)
next
  case (replacement_resets n r)
  then show ?thesis
    using assms(2) reset_unauthorized_frame [of "registry w" n r] by (auto simp flip: set_map)
qed (use assms(2) in \<open>auto simp: begin_active_visitor_admission_def
      visitor_admission_drop_def stop_accepting_new_work_def close_connection_def same_visitor_state_def
      install_snapshot_def split: if_splits
      dest!: select_from_pool_frame register_in_pool_frame watcher_fires_frame realign_pools_frame\<close>)

section \<open>Realigned pools\<close>

lemma take_pools_result:
  "distinct ps \<Longrightarrow> take_pools ps store =
     (concat (map (\<lambda>p. members (store p)) ps),
      \<lambda>q. if q \<in> set ps then (store q)\<lparr>members := []\<rparr> else store q)"
proof (induction ps arbitrary: store)
  case (Cons p ps)
  then have p: "p \<notin> set ps" and d: "distinct ps" by auto
  let ?store = "store(p := (store p)\<lparr>members := []\<rparr>)"
  have "map (\<lambda>q. members (?store q)) ps = map (\<lambda>q. members (store q)) ps"
    using p by (auto intro!: map_cong)
  moreover have "(\<lambda>q. if q \<in> set ps then (?store q)\<lparr>members := []\<rparr> else ?store q) =
      (\<lambda>q. if q \<in> set (p # ps) then (store q)\<lparr>members := []\<rparr> else store q)"
    using p by auto
  ultimately have "take_pools ps ?store = (concat (map (\<lambda>q. members (store q)) ps),
      \<lambda>q. if q \<in> set (p # ps) then (store q)\<lparr>members := []\<rparr> else store q)"
    using Cons.IH [OF d, of ?store] by (simp only:)
  then show ?case by (simp add: take_members_def del: fun_upd_apply)
qed simp

definition pool_choice :: "(tunnel_id \<rightharpoonup> nat) \<Rightarrow> bool" where
  "pool_choice by_id \<longleftrightarrow> (\<forall>i j p. by_id i = Some p \<and> by_id j = Some p \<longrightarrow> i = j)"

lemma pool_choice_remove:
  assumes "pool_choice by_id"
  shows "pool_choice (by_id(i := None))"
    and "by_id i = Some p \<Longrightarrow> p \<notin> ran (by_id(i := None))"
    and "ran (by_id(i := None)) \<subseteq> ran by_id"
proof -
  show "pool_choice (by_id(i := None))" using assms unfolding pool_choice_def by (metis fun_upd_apply option.distinct(1))
  show "p \<notin> ran (by_id(i := None))" if "by_id i = Some p"
    using assms that unfolding pool_choice_def ran_def by (auto split: if_splits)
  show "ran (by_id(i := None)) \<subseteq> ran by_id" by (auto simp: ran_def split: if_splits)
qed

lemma pools_by_id_choice:
  assumes "distinct ps"
  shows "pool_choice (pools_by_id ids ps)" "ran (pools_by_id ids ps) \<subseteq> set ps"
proof -
  have zip: "(i, p) \<in> set (zip ids ps)" if "pools_by_id ids ps i = Some p" for i p
    using that unfolding pools_by_id_def by (metis map_of_SomeD set_rev)
  show "pool_choice (pools_by_id ids ps)"
    unfolding pool_choice_def
  proof (intro allI impI)
    fix i j p assume "pools_by_id ids ps i = Some p \<and> pools_by_id ids ps j = Some p"
    then have "(i, p) \<in> set (zip ids ps)" "(j, p) \<in> set (zip ids ps)" using zip by blast+
    then show "i = j"
      using assms by (auto simp: in_set_zip nth_eq_iff_index_eq)
  qed
  show "ran (pools_by_id ids ps) \<subseteq> set ps"
    using zip by (auto simp: ran_def dest: set_zip_rightD)
qed

lemma rebuild_pools_result:
  assumes "rebuild_pools ids by_id r = (ps, r')" "pool_choice by_id" "ran by_id \<subseteq> {..<next_pool r}"
  shows "distinct ps \<and> set ps \<subseteq> ran by_id \<union> {next_pool r..<next_pool r'} \<and>
         next_pool r \<le> next_pool r' \<and> watchers r' = watchers r \<and> next_watcher r' = next_watcher r \<and>
         pools r' = (\<lambda>q. if next_pool r \<le> q \<and> q < next_pool r' then pool_with_admission else pools r q)"
  using assms
proof (induction ids arbitrary: by_id r ps r')
  case (Cons i ids)
  note remove = pool_choice_remove [OF Cons.prems(2), of i]
  show ?case
  proof (cases "by_id i")
    case None
    obtain r1 where r1: "create_pool r = (next_pool r, r1)" "next_pool r1 = Suc (next_pool r)"
      "pools r1 = (pools r)(next_pool r := pool_with_admission)" "watchers r1 = watchers r"
      "next_watcher r1 = next_watcher r"
      by (simp add: create_pool_def)
    obtain qs where q: "rebuild_pools ids (by_id(i := None)) r1 = (qs, r')" "ps = next_pool r # qs"
      using Cons.prems(1) None r1(1) by (auto simp: Let_def split: prod.splits)
    have "ran (by_id(i := None)) \<subseteq> {..<next_pool r1}"
      using Cons.prems(3) remove(3) r1(2) by auto
    from Cons.IH [OF q(1) remove(1) this] have IH: "distinct qs"
        "set qs \<subseteq> ran (by_id(i := None)) \<union> {next_pool r1..<next_pool r'}"
        "next_pool r1 \<le> next_pool r'" "watchers r' = watchers r1" "next_watcher r' = next_watcher r1"
        "pools r' = (\<lambda>q. if next_pool r1 \<le> q \<and> q < next_pool r' then pool_with_admission else pools r1 q)"
      by blast+
    have "next_pool r \<notin> set qs"
    proof
      assume "next_pool r \<in> set qs"
      with IH(2) r1(2) have "next_pool r \<in> ran (by_id(i := None))" by auto
      with remove(3) Cons.prems(3) show False by auto
    qed
    moreover have "set ps \<subseteq> ran by_id \<union> {next_pool r..<next_pool r'}"
      using IH(2,3) remove(3) r1(2) q(2) by auto
    moreover have "pools r' = (\<lambda>q. if next_pool r \<le> q \<and> q < next_pool r' then pool_with_admission else pools r q)"
      using IH(3,6) r1(2,3) by auto
    ultimately show ?thesis using IH q(2) r1 by simp
  next
    case (Some p)
    obtain qs where q: "rebuild_pools ids (by_id(i := None)) r = (qs, r')" "ps = p # qs"
      using Cons.prems(1) Some by (auto simp: Let_def split: prod.splits)
    have "ran (by_id(i := None)) \<subseteq> {..<next_pool r}" using Cons.prems(3) remove(3) by auto
    from Cons.IH [OF q(1) remove(1) this] have IH: "distinct qs"
        "set qs \<subseteq> ran (by_id(i := None)) \<union> {next_pool r..<next_pool r'}"
        "next_pool r \<le> next_pool r'" "watchers r' = watchers r" "next_watcher r' = next_watcher r"
        "pools r' = (\<lambda>q. if next_pool r \<le> q \<and> q < next_pool r' then pool_with_admission else pools r q)"
      by blast+
    have "p \<in> ran by_id" using Some by (auto simp: ran_def)
    moreover have "p < next_pool r" using \<open>p \<in> ran by_id\<close> Cons.prems(3) by auto
    then have "p \<notin> set qs" using IH(2) remove(2) [OF Some] by fastforce
    ultimately show ?thesis using IH q(2) remove(3) by auto
  qed
next
  case Nil
  then show ?case by (auto simp: fun_eq_iff)
qed

section \<open>Permits and live connections\<close>

definition pool_identities :: "active_client_pool \<Rightarrow> client_identity multiset" where
  "pool_identities pool = mset (map member_identity (members pool))"

text \<open>The identities of all connections that hold a permit: members of any pool, and closing ones.\<close>

definition permit_holders :: "tunnel_registry \<Rightarrow> client_identity multiset" where
  "permit_holders r =
     (\<Sum>p<next_pool r. pool_identities (pools r p)) + mset (map snd (closing_permits r))"

definition admission_counts :: "tunnel_connection_admission \<Rightarrow> client_identity multiset \<Rightarrow> bool" where
  "admission_counts a P \<longleftrightarrow> active a = size P \<and> active_by_identity a = counts P"

definition permits_fit :: "server_admission_limits \<Rightarrow> client_identity multiset \<Rightarrow> bool" where
  "permits_fit limits P \<longleftrightarrow>
     size P \<le> max_tunnel_connections limits \<and>
     (\<forall>c. count P c \<le> max_tunnel_connections_per_identity limits)"

lemma permits_fit_mono: "permits_fit limits P \<Longrightarrow> Q \<subseteq># P \<Longrightarrow> permits_fit limits Q"
  by (meson le_trans mset_subset_eq_count permits_fit_def size_mset_mono)

lemma admission_counts_drop:
  assumes "admission_counts a (add_mset c P)"
  shows "\<exists>a'. tunnel_connection_drop a c = Some a' \<and> admission_counts a' P"
  using assms tunnel_connection_drop_counts [of a c P] by (auto simp: admission_counts_def)

lemma admission_counts_drop_permits:
  "admission_counts a (mset cs + P) \<Longrightarrow> \<exists>a'. drop_permits cs a = Some a' \<and> admission_counts a' P"
proof (induction cs arbitrary: a)
  case (Cons c cs)
  then obtain a1 where "tunnel_connection_drop a c = Some a1" "admission_counts a1 (mset cs + P)"
    using admission_counts_drop by fastforce
  with Cons.IH show ?case by simp
qed simp

lemma sum_pool_update:
  assumes "p < (n :: nat)"
  shows "(\<Sum>q<n. pool_identities ((g(p := x)) q)) + pool_identities (g p) =
         (\<Sum>q<n. pool_identities (g q)) + pool_identities x"
proof -
  have "(\<Sum>q<n. pool_identities (g q)) = pool_identities (g p) + (\<Sum>q\<in>{..<n} - {p}. pool_identities (g q))"
    using assms by (intro sum.remove) auto
  moreover have "(\<Sum>q<n. pool_identities ((g(p := x)) q)) =
      pool_identities x + (\<Sum>q\<in>{..<n} - {p}. pool_identities ((g(p := x)) q))"
    using assms sum.remove [of "{..<n}" p "\<lambda>q. pool_identities ((g(p := x)) q)"] by simp
  moreover have "(\<Sum>q\<in>{..<n} - {p}. pool_identities ((g(p := x)) q)) = (\<Sum>q\<in>{..<n} - {p}. pool_identities (g q))"
    by (rule sum.cong) auto
  ultimately show ?thesis by (simp add: ac_simps)
qed

lemma pool_identities_push [simp]:
  "pool_identities (push_member pool c k s n) = add_mset c (pool_identities pool)"
  by (simp add: pool_identities_def push_member_def)

lemma pool_identities_offset [simp]:
  "pool_identities (pool\<lparr>next_round_robin_offset := n\<rparr>) = pool_identities pool"
  by (simp add: pool_identities_def)

lemma pool_identities_retain:
  "pool_identities pool =
     mset (map member_identity (filter (\<lambda>m. member_id m = k) (members pool))) +
     pool_identities (retain_other_members pool k)"
proof -
  have "mset (map f xs) = mset (map f (filter P xs)) + mset (map f (filter (\<lambda>x. \<not> P x) xs))"
    for f :: "pool_member \<Rightarrow> client_identity" and P xs
    by (induction xs) auto
  then show ?thesis by (simp add: pool_identities_def retain_other_members_def)
qed

lemma sum_pool_same:
  "pool_identities x = pool_identities (g p) \<Longrightarrow>
     (\<Sum>q<(n :: nat). pool_identities ((g(p := x)) q)) = (\<Sum>q<n. pool_identities (g q))"
  by (rule sum.cong) auto

end
