(* ===== verification/Registry_Safety.thy ===== *)
theory Registry_Safety
  imports Registry_Invariants
begin

text \<open>
  Pools, permits and stream loads under every interleaving, and the properties of the Tunnel
  registry that rest on the invariants of \<open>Registry_Invariants\<close>.
\<close>

section \<open>Pools match the snapshot\<close>

definition watchers_below :: "nat \<Rightarrow> (nat \<rightharpoonup> nat \<times> nat \<times> u64) \<Rightarrow> bool" where
  "watchers_below n watch \<longleftrightarrow> ran watch \<subseteq> {x. fst (snd x) < n}"

definition registrations_below :: "nat \<Rightarrow> (server_connection \<times> nat) multiset \<Rightarrow> bool" where
  "registrations_below n R \<longleftrightarrow> (\<forall>x. x \<in># R \<longrightarrow> snd x < n)"

lemma registrations_below_mono: "registrations_below n R \<Longrightarrow> n \<le> m \<Longrightarrow> registrations_below m R"
  unfolding registrations_below_def by (meson less_le_trans)

lemma watchers_below_mono: "watchers_below n W \<Longrightarrow> n \<le> m \<Longrightarrow> watchers_below m W"
  unfolding watchers_below_def by fastforce

definition pools_shaped :: "server_world \<Rightarrow> bool" where
  "pools_shaped w \<longleftrightarrow>
     snapshot_wf (snapshot (authorization (registry w))) \<and>
     distinct (tunnel_pools (registry w)) \<and>
     set (tunnel_pools (registry w)) \<subseteq> {..<next_pool (registry w)} \<and>
     registrations_below (next_pool (registry w)) (registrations w) \<and>
     watchers_below (next_pool (registry w)) (watchers (registry w)) \<and>
     (case replacement w of
        ReplacementCommitted previous \<Rightarrow>
          managed_tunnel_ids previous \<noteq> None \<and>
          managed_tunnel_ids (snapshot (authorization (registry w))) \<noteq> None
      | _ \<Rightarrow> length (tunnel_pools (registry w)) = tunnel_count (snapshot (authorization (registry w))))"

lemma prepare_managed_replacement_wf:
  "prepare_managed_replacement a server tunnels = Inr prepared \<Longrightarrow>
     snapshot_wf prepared \<and> managed_tunnel_ids prepared \<noteq> None \<and> managed_tunnel_ids (snapshot a) \<noteq> None"
proof -
  assume "prepare_managed_replacement a server tunnels = Inr prepared"
  then have current: "managed_tunnel_ids (snapshot a) \<noteq> None"
    and built: "try_from_managed_tunnels server tunnels = Inr prepared"
    by (auto simp: prepare_managed_replacement_def split: AuthorizationContinuity.splits)
  from built have "managed_tunnel_ids prepared \<noteq> None"
    by (auto simp: result_simps tunnels_snapshot_def)
  with current try_from_managed_tunnels_wf [OF built] show ?thesis by blast
qed

lemma registration_pool_range:
  "registration_pool r c = Some p \<Longrightarrow> p \<in> set (tunnel_pools r)"
  by (auto simp: registration_pool_def split: option.splits if_splits)

lemma ran_upd_subset: "ran (m(k := v)) \<subseteq> ran m \<union> set_option v"
  by (auto simp: ran_def split: if_splits)

lemma register_in_pool_watchers:
  "register_in_pool limits r c p = (outcome, r') \<Longrightarrow>
     ran (watchers r') \<subseteq> ran (watchers r) \<union> {x. fst (snd x) = p}"
  using ran_upd_subset [of "watchers r"]
  by (fastforce simp: register_in_pool_def close_connection_def split: sum.splits prod.splits)

lemma watcher_fires_watchers:
  "watcher_fires r n = Some r' \<Longrightarrow> ran (watchers r') \<subseteq> ran (watchers r)"
  using ran_upd_subset [of "watchers r" n None]
  by (auto simp: watcher_fires_def split: option.splits)

lemma adopt_member_watchers:
  "ran (watchers (adopt_member r p m)) \<subseteq> ran (watchers r) \<union> {x. fst (snd x) = p}"
proof -
  have "ran (watchers (adopt_member r p m)) \<subseteq>
      ran ((watchers r)(close_watcher m := None)) \<union> {x. fst (snd x) = p}"
    using ran_upd_subset [of "(watchers r)(close_watcher m := None)" "next_watcher r"]
    by (force simp: adopt_member_def)
  also have "ran ((watchers r)(close_watcher m := None)) \<subseteq> ran (watchers r)"
    using ran_upd_subset [of "watchers r" "close_watcher m" None] by simp
  finally show ?thesis by blast
qed

section \<open>What rehoming does\<close>

lemma permit_holders_create:
  assumes "create_pool r = (p, r')"
  shows "permit_holders r' = permit_holders r"
proof -
  have "(\<Sum>q<next_pool r. pool_identities (((pools r)(next_pool r := pool_with_admission)) q)) =
        (\<Sum>q<next_pool r. pool_identities (pools r q))"
    by (rule sum.cong) auto
  with assms show ?thesis
    by (auto simp: permit_holders_def create_pool_def pool_identities_def pool_with_admission_def)
qed

lemma permit_holders_rebuild:
  "rebuild_pools ids by_id r = (ps, r') \<Longrightarrow> permit_holders r' = permit_holders r"
proof (induction ids arbitrary: by_id r ps r')
  case (Cons i ids)
  then show ?case
    by (auto simp: Let_def permit_holders_create split: prod.splits option.splits)
qed simp

lemma sum_take_pools:
  "take_pools ps store = (taken, store') \<Longrightarrow> set ps \<subseteq> {..<n} \<Longrightarrow>
     (\<Sum>q<n. pool_identities (store q)) =
       (\<Sum>q<n. pool_identities (store' q)) + mset (map member_identity taken)"
proof (induction ps arbitrary: store taken)
  case (Cons p ps)
  let ?store = "store(p := (store p)\<lparr>members := []\<rparr>)"
  obtain more where more: "take_pools ps ?store = (more, store')" "taken = members (store p) @ more"
    using Cons.prems(1) by (auto simp: take_members_def split: prod.splits)
  have "(\<Sum>q<n. pool_identities (?store q)) + pool_identities (store p) = (\<Sum>q<n. pool_identities (store q))"
    using sum_pool_update [of p n store "(store p)\<lparr>members := []\<rparr>"] Cons.prems(2)
    by (simp add: pool_identities_def)
  then show ?case using Cons.IH [OF more(1)] Cons.prems(2) more(2)
    by (simp add: pool_identities_def ac_simps)
qed simp

lemma permit_holders_adopt:
  assumes "p < next_pool r"
  shows "permit_holders (adopt_member r p m) = add_mset (member_identity m) (permit_holders r)"
  using sum_pool_update [OF assms, of "pools r" "push_member (pools r p) (member_identity m)
      (member_connection m) (member_streams m) (next_watcher r)"]
  by (simp add: permit_holders_def adopt_member_def)

lemma rehome_member_result:
  assumes "snapshot_wf snap" "length (tunnel_pools r) = tunnel_count snap"
    and "set (tunnel_pools r) \<subseteq> {..<next_pool r}"
  shows "\<exists>r'. rehome_member snap m r = Some r' \<and>
           permit_holders r' = add_mset (member_identity m) (permit_holders r) \<and>
           connection_admission r' = connection_admission r \<and>
           ran (watchers r') \<subseteq> ran (watchers r) \<union> {x. fst (snd x) < next_pool r}"
proof (cases "tunnel_index_for_client_identity snap (member_identity m)")
  case None
  then show ?thesis by (simp add: rehome_member_def permit_holders_def)
next
  case (Some i)
  then have i: "i < length (tunnel_pools r)" using snapshot.home_pool [OF assms(1)] assms(2) by simp
  then have "tunnel_pools r ! i < next_pool r" using assms(3) nth_mem by blast
  then show ?thesis
    using Some i adopt_member_watchers [of r "tunnel_pools r ! i" m]
    by (auto simp: rehome_member_def permit_holders_adopt) (auto simp: adopt_member_def)
qed

lemma rehome_members_result:
  assumes "snapshot_wf snap" "length (tunnel_pools r) = tunnel_count snap"
    and "set (tunnel_pools r) \<subseteq> {..<next_pool r}"
  shows "\<exists>r'. rehome_members snap ms r = Some r' \<and>
           permit_holders r' = permit_holders r + mset (map member_identity ms) \<and>
           connection_admission r' = connection_admission r \<and>
           ran (watchers r') \<subseteq> ran (watchers r) \<union> {x. fst (snd x) < next_pool r}"
  using assms
proof (induction ms arbitrary: r)
  case (Cons m ms)
  from rehome_member_result [OF Cons.prems, of m] obtain r1 where r1:
    "rehome_member snap m r = Some r1"
    "permit_holders r1 = add_mset (member_identity m) (permit_holders r)"
    "connection_admission r1 = connection_admission r"
    "ran (watchers r1) \<subseteq> ran (watchers r) \<union> {x. fst (snd x) < next_pool r}" by blast
  note frame = rehome_member_frame [OF r1(1)]
  from Cons.IH [of r1] Cons.prems frame obtain r2 where
    "rehome_members snap ms r1 = Some r2"
    "permit_holders r2 = permit_holders r1 + mset (map member_identity ms)"
    "connection_admission r2 = connection_admission r1"
    "ran (watchers r2) \<subseteq> ran (watchers r1) \<union> {x. fst (snd x) < next_pool r}" by auto
  with r1 show ?case by auto
qed simp

lemma realign_pools_result:
  assumes "snapshot_wf (snapshot (authorization r))" "distinct (tunnel_pools r)"
    and "set (tunnel_pools r) \<subseteq> {..<next_pool r}"
    and "managed_tunnel_ids previous \<noteq> None" "managed_tunnel_ids (snapshot (authorization r)) \<noteq> None"
  shows "\<exists>closed r'. realign_pools previous r = Some (closed, r') \<and>
           permit_holders r' = permit_holders r \<and> connection_admission r' = connection_admission r \<and>
           distinct (tunnel_pools r') \<and> set (tunnel_pools r') \<subseteq> {..<next_pool r'} \<and>
           length (tunnel_pools r') = tunnel_count (snapshot (authorization r)) \<and>
           next_pool r \<le> next_pool r' \<and>
           ran (watchers r') \<subseteq> ran (watchers r) \<union> {x. fst (snd x) < next_pool r'}"
proof -
  let ?snap = "snapshot (authorization r)"
  obtain prev_ids where prev: "managed_tunnel_ids previous = Some prev_ids" using assms(4) by blast
  obtain ids where ids: "managed_tunnel_ids ?snap = Some ids" using assms(5) by blast
  obtain n r1 where n: "close_removed (trusted_client_identities previous - trusted_client_identities ?snap) r = (n, r1)"
    by (cases "close_removed (trusted_client_identities previous - trusted_client_identities ?snap) r")
  then obtain reqs where r1: "r1 = r\<lparr>close_requests := reqs\<rparr>" using close_removed_frame by blast
  obtain taken store where t: "take_pools (tunnel_pools r) (pools r) = (taken, store)"
    by (cases "take_pools (tunnel_pools r) (pools r)")
  let ?r1 = "r\<lparr>close_requests := reqs, pools := store\<rparr>"
  obtain ps r2 where b: "rebuild_pools ids (pools_by_id prev_ids (tunnel_pools r)) ?r1 = (ps, r2)"
    by (cases "rebuild_pools ids (pools_by_id prev_ids (tunnel_pools r)) ?r1")
  note choice = pools_by_id_choice [OF assms(2), of prev_ids]
  have "ran (pools_by_id prev_ids (tunnel_pools r)) \<subseteq> {..<next_pool ?r1}"
    using choice(2) assms(3) by auto
  note built = rebuild_pools_result [OF b choice(1) this] and frame = rebuild_pools_frame [OF b]
  let ?r2 = "r2\<lparr>tunnel_pools := ps\<rparr>"
  have len: "length ps = tunnel_count ?snap"
    using frame snapshot.pool_ids_length [OF assms(1) ids] by simp
  have "set ps \<subseteq> {..<next_pool r2}" using built choice(2) assms(3) by fastforce
  with rehome_members_result [OF assms(1), of ?r2 taken] len obtain r' where r':
    "rehome_members ?snap taken ?r2 = Some r'"
    "permit_holders r' = permit_holders ?r2 + mset (map member_identity taken)"
    "connection_admission r' = connection_admission ?r2"
    "ran (watchers r') \<subseteq> ran (watchers ?r2) \<union> {x. fst (snd x) < next_pool ?r2}" by auto
  have "permit_holders ?r2 = permit_holders ?r1"
    using permit_holders_rebuild [OF b] by (simp add: permit_holders_def)
  then have holders: "permit_holders r' = permit_holders r"
    using r'(2) sum_take_pools [OF t, of "next_pool r"] assms(3) by (simp add: permit_holders_def)
  have "realign_pools previous r = Some (n, r')"
    using n r1 t prev ids b r'(1)
    by (simp add: realign_pools_def del: managed_tunnel_ids.simps)
  then show ?thesis
    using holders r' rehome_members_frame [OF r'(1)] built frame len \<open>set ps \<subseteq> {..<next_pool r2}\<close>
    by (intro exI [of _ n] exI [of _ r']) auto
qed

section \<open>Every step keeps the pools and the permits\<close>

definition permits_counted :: "server_admission_limits \<Rightarrow> server_world \<Rightarrow> bool" where
  "permits_counted limits w \<longleftrightarrow>
     admission_counts (connection_admission (registry w)) (permit_holders (registry w)) \<and>
     permits_fit limits (permit_holders (registry w))"

lemma register_in_pool_permits:
  assumes "register_in_pool limits r c p = (outcome, r')" "p < next_pool r"
    and "admission_counts (connection_admission r) (permit_holders r)"
    and "permits_fit limits (permit_holders r)"
  shows "admission_counts (connection_admission r') (permit_holders r') \<and>
         permits_fit limits (permit_holders r')"
proof (cases "pool_try_register limits (connection_admission r) (pools r p) (connection_identity c)
    (connection_key c) (next_streams r) (next_watcher r)")
  case (Inl e)
  with assms show ?thesis
    by (auto simp: register_in_pool_def close_connection_def permit_holders_def)
next
  case (Inr x)
  let ?c = "connection_identity c"
  obtain a pool where x: "x = (a, pool)" by (cases x)
  with Inr have acquired: "tunnel_connection_try_acquire limits (connection_admission r) ?c = Inr a"
    and pool: "pool = push_member (pools r p) ?c (connection_key c) (next_streams r) (next_watcher r)"
    by (auto simp: pool_try_register_def result_simps split: if_splits)
  have "permit_holders r' = add_mset ?c (permit_holders r)"
    using assms(1) Inr x pool sum_pool_update [OF assms(2), of "pools r" pool]
    by (auto simp: register_in_pool_def permit_holders_def)
  moreover have "connection_admission r' = a"
    using assms(1) Inr x by (auto simp: register_in_pool_def)
  ultimately show ?thesis
    using tunnel_connection_acquire_Inr [OF acquired, of "permit_holders r"] assms(3,4)
    by (auto simp: admission_counts_def permits_fit_def)
qed

lemma watcher_fires_permits:
  assumes "watcher_fires r n = Some r'" "watchers_below (next_pool r) (watchers r)"
    and "admission_counts (connection_admission r) (permit_holders r)"
  shows "admission_counts (connection_admission r') (permit_holders r') \<and>
         permit_holders r' \<subseteq># permit_holders r"
proof (cases "watchers r n")
  case None
  with assms show ?thesis by (simp add: watcher_fires_def)
next
  case (Some x)
  obtain c p k where x: "x = (c, p, k)" by (cases x)
  then have p: "p < next_pool r" using Some assms(2) by (force simp: ran_def watchers_below_def)
  let ?dropped = "map member_identity (filter (\<lambda>m. member_id m = k) (members (pools r p)))"
  let ?left = "retain_other_members (pools r p) k"
  obtain a where a: "drop_permits ?dropped (connection_admission r) = Some a"
    and r': "r' = r\<lparr>watchers := (watchers r)(n := None), pools := (pools r)(p := ?left),
                    connection_admission := a\<rparr>"
    using assms(1) Some x by (auto simp: watcher_fires_def)
  have "permit_holders r = mset ?dropped + permit_holders r'"
    using sum_pool_update [OF p, of "pools r" ?left] pool_identities_retain [of "pools r p" k]
    by (simp add: permit_holders_def r' ac_simps)
  with admission_counts_drop_permits [of "connection_admission r" ?dropped "permit_holders r'"]
    assms(3) a r' show ?thesis by auto
qed

lemma watcher_fires_total:
  assumes "watchers_below (next_pool r) (watchers r)"
    and "admission_counts (connection_admission r) (permit_holders r)"
  shows "watcher_fires r n \<noteq> None"
proof (cases "watchers r n")
  case (Some x)
  obtain c p k where x: "x = (c, p, k)" by (cases x)
  then have p: "p < next_pool r" using Some assms(1) by (force simp: ran_def watchers_below_def)
  let ?dropped = "map member_identity (filter (\<lambda>m. member_id m = k) (members (pools r p)))"
  have "mset ?dropped \<subseteq># permit_holders r"
  proof -
    have "mset ?dropped \<subseteq># pool_identities (pools r p)"
      by (metis mset_subset_eq_add_left pool_identities_retain)
    also have "\<dots> \<subseteq># permit_holders r"
      using sum.remove [of "{..<next_pool r}" p "\<lambda>q. pool_identities (pools r q)"] p
      by (simp add: permit_holders_def union_assoc)
    finally show ?thesis .
  qed
  then obtain P where "permit_holders r = mset ?dropped + P" by (metis subset_mset.le_iff_add)
  with assms(2) admission_counts_drop_permits [of "connection_admission r" ?dropped P] show ?thesis
    by (auto simp: watcher_fires_def Some x)
qed (simp add: watcher_fires_def)

lemma world_step_pools_shaped:
  assumes "world_step limits w w'" "pools_shaped w"
  shows "pools_shaped w'"
  using assms(1)
proof cases
  case (connection_looks_up c p)
  then have "p < next_pool (registry w)"
    using registration_pool_range [OF connection_looks_up(3)] assms(2) by (auto simp: pools_shaped_def)
  with connection_looks_up assms(2) show ?thesis
    by (auto simp: pools_shaped_def registrations_below_def split: replacement_phase.splits)
next
  case (connection_registers c p R outcome r)
  have "p < next_pool (registry w)" using assms(2) connection_registers(2) by (simp add: pools_shaped_def registrations_below_def)
  with assms(2) register_in_pool_frame [OF connection_registers(3)]
    register_in_pool_watchers [OF connection_registers(3)] connection_registers(1,2)
  have "watchers_below (next_pool r) (watchers r)" "registrations_below (next_pool r) R"
    by (auto simp: pools_shaped_def watchers_below_def registrations_below_def)
  with assms(2) register_in_pool_frame [OF connection_registers(3)] connection_registers(1)
  show ?thesis by (auto simp: pools_shaped_def split: replacement_phase.splits)
next
  case (connection_closed n r)
  have "watchers_below (next_pool (registry w)) (watchers r)"
    using assms(2) watcher_fires_watchers [OF connection_closed(2)]
    by (auto simp: pools_shaped_def watchers_below_def)
  with assms(2) watcher_fires_frame [OF connection_closed(2)] connection_closed(1)
  show ?thesis by (auto simp: pools_shaped_def split: replacement_phase.splits)
next
  case (replacement_commits server tunnels prepared)
  with assms(2) prepare_managed_replacement_wf [OF replacement_commits(3)] show ?thesis
    by (auto simp: pools_shaped_def install_snapshot_def commit_snapshot_def
        simp del: managed_tunnel_ids.simps)
next
  case (replacement_realigns previous closed r)
  let ?r = "registry w"
  have shaped: "snapshot_wf (snapshot (authorization ?r))" "distinct (tunnel_pools ?r)"
    "set (tunnel_pools ?r) \<subseteq> {..<next_pool ?r}" "managed_tunnel_ids previous \<noteq> None"
    "managed_tunnel_ids (snapshot (authorization ?r)) \<noteq> None"
    "registrations_below (next_pool ?r) (registrations w)"
    "watchers_below (next_pool ?r) (watchers ?r)"
    using assms(2) replacement_realigns(2) by (simp_all add: pools_shaped_def del: managed_tunnel_ids.simps)
  from realign_pools_result [OF shaped(1-5)] replacement_realigns(3)
  have "distinct (tunnel_pools r)" "set (tunnel_pools r) \<subseteq> {..<next_pool r}"
    "length (tunnel_pools r) = tunnel_count (snapshot (authorization ?r))" "next_pool ?r \<le> next_pool r"
    "ran (watchers r) \<subseteq> ran (watchers ?r) \<union> {x. fst (snd x) < next_pool r}"
    by auto
  moreover from this shaped(6,7)
  have "watchers_below (next_pool r) (watchers r)" "registrations_below (next_pool r) (registrations w)"
    using registrations_below_mono watchers_below_mono [of "next_pool ?r" "watchers ?r" "next_pool r"]
    by (auto simp: watchers_below_def)
  ultimately show ?thesis
    using shaped(1) realign_pools_frame [OF replacement_realigns(3)] replacement_realigns(1)
    by (simp add: pools_shaped_def)
next
  case (replacement_resets n r)
  with assms(2) reset_unauthorized_frame [OF replacement_resets(3)] show ?thesis
    by (auto simp: pools_shaped_def)
next
  case (visitor_registers h a chosen V i r)
  from register_active_visitor_work_cases [OF visitor_registers(3)] assms(2) visitor_registers(1)
  show ?thesis by (auto simp: pools_shaped_def split: replacement_phase.splits)
next
  case (visitor_refused h a chosen V r)
  from register_active_visitor_work_cases [OF visitor_refused(3)] assms(2) visitor_refused(1)
  show ?thesis by (auto simp: pools_shaped_def split: replacement_phase.splits)
qed (use assms(2) in \<open>auto simp: pools_shaped_def begin_active_visitor_admission_def
      visitor_admission_drop_def stop_accepting_new_work_def close_connection_def
      active_visitor_work_drop_def split: if_splits replacement_phase.splits
      dest!: select_from_pool_frame\<close>)

lemma permits_counted_same:
  "permits_counted limits w \<Longrightarrow> permit_holders (registry w') = permit_holders (registry w) \<Longrightarrow>
     connection_admission (registry w') = connection_admission (registry w) \<Longrightarrow> permits_counted limits w'"
  by (simp add: permits_counted_def)

lemma select_from_pool_holders:
  assumes "select_from_pool accepts r p = (chosen, r')"
  shows "permit_holders r' = permit_holders r \<and> connection_admission r' = connection_admission r"
proof -
  from select_from_pool_frame [OF assms] obtain n where
    r': "r' = r\<lparr>pools := (pools r)(p := (pools r p)\<lparr>next_round_robin_offset := n\<rparr>)\<rparr>" by blast
  show ?thesis
    unfolding r' permit_holders_def by (simp add: sum_pool_same del: fun_upd_apply)
qed

lemma world_step_permits_counted:
  assumes "world_step limits w w'" "pools_shaped w" "permits_counted limits w"
  shows "permits_counted limits w'"
  using assms(1)
proof cases
  case (connection_registers c p R outcome r)
  have "p < next_pool (registry w)"
    using assms(2) connection_registers(2) by (simp add: pools_shaped_def registrations_below_def)
  with register_in_pool_permits [OF connection_registers(3)] assms(3) connection_registers(1)
  show ?thesis by (simp add: permits_counted_def)
next
  case (connection_closed n r)
  have "watchers_below (next_pool (registry w)) (watchers (registry w))"
    using assms(2) by (simp add: pools_shaped_def)
  with watcher_fires_permits [OF connection_closed(2)] assms(3) connection_closed(1)
  show ?thesis by (auto simp: permits_counted_def intro: permits_fit_mono)
next
  case (detached_connection_closed before c identity after admission)
  let ?r = "(registry w)\<lparr>closing_permits := before @ after, connection_admission := admission\<rparr>"
  have "permit_holders (registry w) = add_mset identity (permit_holders ?r)"
    using detached_connection_closed(2) by (simp add: permit_holders_def)
  moreover from this have "permits_fit limits (permit_holders ?r)"
    using assms(3) by (auto simp: permits_counted_def intro: permits_fit_mono)
  ultimately show ?thesis
    using admission_counts_drop [of "connection_admission (registry w)" identity "permit_holders ?r"]
      assms(3) detached_connection_closed(1,3) by (auto simp: permits_counted_def)
next
  case (replacement_realigns previous closed r)
  let ?r = "registry w"
  have "snapshot_wf (snapshot (authorization ?r))" "distinct (tunnel_pools ?r)"
    "set (tunnel_pools ?r) \<subseteq> {..<next_pool ?r}" "managed_tunnel_ids previous \<noteq> None"
    "managed_tunnel_ids (snapshot (authorization ?r)) \<noteq> None"
    using assms(2) replacement_realigns(2) by (simp_all add: pools_shaped_def del: managed_tunnel_ids.simps)
  from realign_pools_result [OF this] replacement_realigns(1,3) show ?thesis
    by (auto intro: permits_counted_same [OF assms(3)])
next
  case (replacement_resets n r)
  with reset_unauthorized_frame [OF replacement_resets(3)] show ?thesis
    by (auto simp: permit_holders_def intro!: permits_counted_same [OF assms(3)])
next
  case (visitor_registers h a chosen V i r)
  from register_active_visitor_work_cases [OF visitor_registers(3)] visitor_registers(1) show ?thesis
    by (auto simp: permit_holders_def intro!: permits_counted_same [OF assms(3)])
next
  case (visitor_refused h a chosen V r)
  from register_active_visitor_work_cases [OF visitor_refused(3)] visitor_refused(1) show ?thesis
    by (auto simp: permit_holders_def intro!: permits_counted_same [OF assms(3)])
next
  case (visitor_selects h a p V accepts chosen r)
  from select_from_pool_holders [OF visitor_selects(3)] visitor_selects(1) show ?thesis
    by (auto intro: permits_counted_same [OF assms(3)])
next
  case (visitor_finds_none h a p V accepts r r')
  from select_from_pool_holders [OF visitor_finds_none(3)] visitor_finds_none(1,4) show ?thesis
    by (auto simp: permit_holders_def visitor_admission_drop_def split: if_splits
        intro!: permits_counted_same [OF assms(3)])
qed (auto simp: permit_holders_def begin_active_visitor_admission_def visitor_admission_drop_def
      stop_accepting_new_work_def close_connection_def active_visitor_work_drop_def install_snapshot_def
      split: if_splits intro!: permits_counted_same [OF assms(3)])

section \<open>Stream loads\<close>

definition streams_below :: "nat \<Rightarrow> (nat \<Rightarrow> active_client_pool) \<Rightarrow> bool" where
  "streams_below n store \<longleftrightarrow> (\<forall>p. member_streams ` set (members (store p)) \<subseteq> {..<n})"

fun task_streams :: "visitor_task \<Rightarrow> nat set" where
  "task_streams (VisitorRouted h a chosen) = {selected_streams chosen}"
| "task_streams (VisitorWorking i c) = {c}"
| "task_streams _ = {}"

definition tasks_below :: "nat \<Rightarrow> visitor_task multiset \<Rightarrow> bool" where
  "tasks_below n V \<longleftrightarrow> (\<forall>v. v \<in># V \<longrightarrow> task_streams v \<subseteq> {..<n})"

lemma tasks_below_add [simp]:
  "tasks_below n (add_mset v V) \<longleftrightarrow> task_streams v \<subseteq> {..<n} \<and> tasks_below n V"
  by (auto simp: tasks_below_def)

lemma tasks_below_mono: "tasks_below n V \<Longrightarrow> n \<le> m \<Longrightarrow> tasks_below m V"
  unfolding tasks_below_def by (meson lessThan_subset_iff subset_trans)

lemma streams_below_mono: "streams_below n store \<Longrightarrow> n \<le> m \<Longrightarrow> streams_below m store"
  unfolding streams_below_def by (meson lessThan_subset_iff subset_trans)

lemma working_below: "tasks_below n V \<Longrightarrow> c \<in># image_mset snd (working V) \<Longrightarrow> c < n"
proof (induction V)
  case (add v V)
  then show ?case by (cases v) auto
qed simp

definition loads_counted :: "server_world \<Rightarrow> bool" where
  "loads_counted w \<longleftrightarrow>
     streams_below (next_streams (registry w)) (pools (registry w)) \<and>
     tasks_below (next_streams (registry w)) (visitors w) \<and>
     active_streams (registry w) = count (image_mset snd (working (visitors w)))"

lemma streams_below_upd:
  "streams_below n store \<Longrightarrow> member_streams ` set (members pool) \<subseteq> {..<n} \<Longrightarrow> streams_below n (store(p := pool))"
  by (simp add: streams_below_def)

lemma take_pools_streams:
  "take_pools ps store = (taken, store') \<Longrightarrow> streams_below n store \<Longrightarrow>
     streams_below n store' \<and> member_streams ` set taken \<subseteq> {..<n}"
proof (induction ps arbitrary: store taken)
  case (Cons p ps)
  let ?store = "store(p := (store p)\<lparr>members := []\<rparr>)"
  obtain more where more: "take_pools ps ?store = (more, store')" "taken = members (store p) @ more"
    using Cons.prems(1) by (auto simp: take_members_def split: prod.splits)
  have "streams_below n ?store" using Cons.prems(2) by (simp add: streams_below_upd)
  from Cons.IH [OF more(1) this] more(2) Cons.prems(2) show ?case by (auto simp: streams_below_def)
qed simp

lemma rebuild_pools_streams:
  "rebuild_pools ids by_id r = (ps, r') \<Longrightarrow> streams_below n (pools r) \<Longrightarrow> streams_below n (pools r')"
proof (induction ids arbitrary: by_id r ps r')
  case (Cons i ids)
  have "streams_below n (pools r1)" if "create_pool r = (p, r1)" for p r1
    using that Cons.prems(2) by (auto simp: create_pool_def pool_with_admission_def intro!: streams_below_upd)
  with Cons show ?case by (auto simp: Let_def split: prod.splits option.splits)
qed simp

lemma rehome_members_streams:
  "rehome_members snap ms r = Some r' \<Longrightarrow> streams_below n (pools r) \<Longrightarrow>
     member_streams ` set ms \<subseteq> {..<n} \<Longrightarrow> streams_below n (pools r')"
proof (induction ms arbitrary: r)
  case (Cons m ms)
  obtain r1 where r1: "rehome_member snap m r = Some r1" "rehome_members snap ms r1 = Some r'"
    using Cons.prems(1) by (auto split: option.splits)
  have "streams_below n (pools r1)"
    using r1(1) Cons.prems(2,3)
    by (auto simp: rehome_member_def adopt_member_def push_member_def split: option.splits if_splits
        intro!: streams_below_upd) (auto simp: streams_below_def)
  with Cons.IH [OF r1(2)] Cons.prems(3) show ?case by simp
qed simp

lemma realign_pools_streams:
  assumes "realign_pools previous r = Some (closed, r')" "streams_below n (pools r)"
  shows "streams_below n (pools r')"
  using assms(1)
proof (rule realign_pools_stages)
  fix reqs taken store previous_ids next_ids ps r2
  assume t: "take_pools (tunnel_pools r) (pools r) = (taken, store)"
    and b: "rebuild_pools next_ids (pools_by_id previous_ids (tunnel_pools r))
       (r\<lparr>close_requests := reqs, pools := store\<rparr>) = (ps, r2)"
    and m: "rehome_members (snapshot (authorization r)) taken (r2\<lparr>tunnel_pools := ps\<rparr>) = Some r'"
  from take_pools_streams [OF t assms(2)] rebuild_pools_streams [OF b, of n]
    rehome_members_streams [OF m, of n]
  show ?thesis by simp
qed

lemma select_from_pool_streams:
  assumes "select_from_pool accepts r p = (chosen, r')" "streams_below n (pools r)"
  shows "streams_below n (pools r') \<and> active_streams r' = active_streams r \<and>
         next_streams r' = next_streams r \<and> (\<forall>c. chosen = Some c \<longrightarrow> selected_streams c < n)"
proof -
  have "selected_streams c < n" if "chosen = Some c" for c
    using select_from_pool_member [of accepts r p c r'] assms that by (auto simp: streams_below_def)
  moreover have "member_streams ` set (members (pools r p)) \<subseteq> {..<n}"
    using assms(2) by (simp add: streams_below_def)
  then have "streams_below n ((pools r)(p := (pools r p)\<lparr>next_round_robin_offset := k\<rparr>))" for k
    using assms(2) by (intro streams_below_upd) simp_all
  ultimately show ?thesis
    using select_from_pool_frame [OF assms(1)] by (auto simp del: fun_upd_apply)
qed

lemma register_in_pool_streams:
  assumes "register_in_pool limits r c p = (outcome, r')" "streams_below (next_streams r) (pools r)"
  shows "streams_below (next_streams r') (pools r') \<and> next_streams r \<le> next_streams r' \<and>
         (\<forall>s. active_streams r' s = (if s < next_streams r then active_streams r s
            else if next_streams r < next_streams r' \<and> s = next_streams r then 0 else active_streams r s))"
proof (cases "pool_try_register limits (connection_admission r) (pools r p) (connection_identity c)
    (connection_key c) (next_streams r) (next_watcher r)")
  case (Inl e)
  with assms show ?thesis by (auto simp: register_in_pool_def close_connection_def)
next
  case (Inr x)
  then obtain a where "x = (a, push_member (pools r p) (connection_identity c) (connection_key c)
      (next_streams r) (next_watcher r))"
    by (auto simp: pool_try_register_def result_simps split: if_splits)
  moreover have "streams_below (Suc (next_streams r)) (pools r)"
    using assms(2) by (rule streams_below_mono) simp
  moreover from this have "member_streams ` set (members (pools r p)) \<subseteq> {..<Suc (next_streams r)}"
    by (simp add: streams_below_def)
  ultimately show ?thesis
    using assms(1) Inr
    by (auto simp: register_in_pool_def push_member_def simp del: fun_upd_apply intro!: streams_below_upd)
      (auto simp: fun_upd_def)
qed

lemma watcher_fires_streams:
  assumes "watcher_fires r n = Some r'" "streams_below k (pools r)"
  shows "streams_below k (pools r')"
proof -
  have "member_streams ` set (members (retain_other_members (pools r p) c)) \<subseteq> {..<k}" for p c
    using assms(2) by (auto simp: streams_below_def retain_other_members_def)
  then have "streams_below k ((pools r)(p := retain_other_members (pools r p) c))" for p c
    using assms(2) by (intro streams_below_upd) simp_all
  then show ?thesis
    using assms by (auto simp: watcher_fires_def simp del: fun_upd_apply split: option.splits)
qed

lemma world_step_loads_counted:
  assumes "world_step limits w w'" "loads_counted w"
  shows "loads_counted w'"
  using assms(1)
proof cases
  case (visitor_selects h a p V accepts chosen r)
  with select_from_pool_streams [OF visitor_selects(3)] assms(2) show ?thesis
    by (auto simp: loads_counted_def)
next
  case (visitor_finds_none h a p V accepts r r')
  with select_from_pool_streams [OF visitor_finds_none(3)] assms(2) show ?thesis
    by (auto simp: loads_counted_def visitor_admission_drop_def split: if_splits)
next
  case (visitor_gives_up v V r)
  with assms(2) show ?thesis
    by (auto simp: loads_counted_def visitor_admission_drop_def awaiting_working_task split: if_splits)
next
  case (visitor_registers h a chosen V i r)
  from register_active_visitor_work_cases [OF visitor_registers(3)] visitor_registers(1,2) assms(2)
  show ?thesis by (auto simp: loads_counted_def fun_eq_iff)
next
  case (visitor_refused h a chosen V r)
  from register_active_visitor_work_cases [OF visitor_refused(3)] visitor_refused(1,2) assms(2)
  show ?thesis by (auto simp: loads_counted_def)
next
  case (visitor_finishes i c V r)
  with assms(2) show ?thesis
    by (auto simp: loads_counted_def active_visitor_work_drop_def fun_eq_iff split: if_splits)
next
  case (connection_registers c p R outcome r)
  let ?n = "next_streams (registry w)"
  have s: "streams_below (next_streams r) (pools r)" "?n \<le> next_streams r"
    "active_streams r s = (if s < ?n then active_streams (registry w) s
       else if ?n < next_streams r \<and> s = ?n then 0 else active_streams (registry w) s)" for s
    using register_in_pool_streams [OF connection_registers(3)] assms(2) by (auto simp: loads_counted_def)
  have "?n \<notin># image_mset snd (working (visitors w))"
    using working_below [of ?n "visitors w" ?n] assms(2) by (auto simp: loads_counted_def)
  then have "count (image_mset snd (working (visitors w))) ?n = 0" by (simp only: not_in_iff)
  then have "active_streams (registry w) ?n = 0"
    using assms(2) by (simp add: loads_counted_def)
  with s have "active_streams r = active_streams (registry w)" by (auto simp: fun_eq_iff)
  with s assms(2) connection_registers(1) show ?thesis
    by (auto simp: loads_counted_def intro: tasks_below_mono)
next
  case (connection_closed n r)
  with watcher_fires_streams [OF connection_closed(2)] watcher_fires_frame [OF connection_closed(2)]
    assms(2) show ?thesis by (auto simp: loads_counted_def)
next
  case (replacement_realigns previous closed r)
  with realign_pools_streams [OF replacement_realigns(3)] realign_pools_frame [OF replacement_realigns(3)]
    assms(2) show ?thesis by (auto simp: loads_counted_def)
next
  case (replacement_resets n r)
  with reset_unauthorized_frame [OF replacement_resets(3)] assms(2) show ?thesis
    by (auto simp: loads_counted_def)
qed (use assms(2) in \<open>auto simp: loads_counted_def begin_active_visitor_admission_def
      stop_accepting_new_work_def close_connection_def install_snapshot_def split: if_splits\<close>)

section \<open>Reachable worlds\<close>

lemma world_start_invariants:
  "work_authorized (world_start snap)" "work_counted (world_start snap)"
  "loads_counted (world_start snap)" "permits_counted limits (world_start snap)"
  "snapshot_wf snap \<Longrightarrow> pools_shaped (world_start snap)"
  by (simp_all add: world_start_def from_authorization_with_admission_def work_authorized_def
      work_counted_def ids_below_def loads_counted_def streams_below_def tasks_below_def
      pool_with_admission_def permits_counted_def permit_holders_def pool_identities_def
      admission_counts_def permits_fit_def pools_shaped_def registrations_below_def watchers_below_def
      fun_eq_iff atLeast0LessThan Let_def)

lemma reachable_invariants:
  assumes "world_reachable limits snap w"
  shows "work_authorized w \<and> work_counted w \<and> loads_counted w"
  using assms
proof induction
  case world_initial
  then show ?case using world_start_invariants by blast
next
  case (world_next w w')
  then show ?case
    using world_step_work_authorized world_step_work_counted world_step_loads_counted by blast
qed

lemma reachable_pools:
  assumes "snapshot_wf snap" "world_reachable limits snap w"
  shows "pools_shaped w \<and> permits_counted limits w"
  using assms(2)
proof induction
  case world_initial
  then show ?case using world_start_invariants assms(1) by blast
next
  case (world_next w w')
  then show ?case using world_step_pools_shaped world_step_permits_counted by blast
qed

section \<open>Where realigned members go\<close>

definition member_key :: "pool_member \<Rightarrow> nat \<times> client_identity \<times> nat" where
  "member_key m = (member_connection m, member_identity m, member_streams m)"

abbreviation has_home :: "authorization_snapshot \<Rightarrow> nat \<Rightarrow> pool_member \<Rightarrow> bool" where
  "has_home snap i m \<equiv> tunnel_index_for_client_identity snap (member_identity m) = Some i"

lemma push_member_keys:
  "map member_key (members (push_member pool c k s n)) = map member_key (members pool) @ [(k, c, s)]"
  by (simp add: push_member_def member_key_def)

lemma rehome_member_keys:
  assumes "rehome_member snap m r = Some r'" "distinct (tunnel_pools r)" "i < length (tunnel_pools r)"
  shows "map member_key (members (pools r' (tunnel_pools r ! i))) =
         map member_key (members (pools r (tunnel_pools r ! i))) @ map member_key (filter (has_home snap i) [m])"
proof (cases "tunnel_index_for_client_identity snap (member_identity m)")
  case None
  with assms show ?thesis by (auto simp: rehome_member_def)
next
  case (Some j)
  show ?thesis
  proof (cases "j < length (tunnel_pools r)")
    case True
    then have "tunnel_pools r ! i = tunnel_pools r ! j \<longleftrightarrow> i = j"
      using assms(2,3) by (simp add: nth_eq_iff_index_eq)
    with True Some assms(1) show ?thesis
      by (auto simp: rehome_member_def adopt_member_def push_member_keys) (simp add: member_key_def)
  next
    case False
    with Some assms show ?thesis by (auto simp: rehome_member_def)
  qed
qed

lemma rehome_members_keys:
  assumes "rehome_members snap ms r = Some r'" "distinct (tunnel_pools r)" "i < length (tunnel_pools r)"
  shows "map member_key (members (pools r' (tunnel_pools r ! i))) =
         map member_key (members (pools r (tunnel_pools r ! i))) @ map member_key (filter (has_home snap i) ms)"
  using assms
proof (induction ms arbitrary: r)
  case (Cons m ms)
  then obtain r1 where r1: "rehome_member snap m r = Some r1" "rehome_members snap ms r1 = Some r'"
    by (auto split: option.splits)
  from rehome_member_frame [OF r1(1)] have "tunnel_pools r1 = tunnel_pools r" by simp
  with Cons.IH [OF r1(2)] Cons.prems(2,3) rehome_member_keys [OF r1(1) Cons.prems(2,3)] show ?case by simp
qed simp

lemma realign_pools_keys:
  assumes "realign_pools previous r = Some (closed, r')"
    and "distinct (tunnel_pools r)" "set (tunnel_pools r) \<subseteq> {..<next_pool r}" "i < length (tunnel_pools r')"
  shows "map member_key (members (pools r' (tunnel_pools r' ! i))) =
         map member_key (filter (has_home (snapshot (authorization r)) i)
           (concat (map (\<lambda>p. members (pools r p)) (tunnel_pools r))))"
  using assms(1)
proof (rule realign_pools_stages)
  fix reqs taken store previous_ids next_ids ps r2
  assume t: "take_pools (tunnel_pools r) (pools r) = (taken, store)"
    and b: "rebuild_pools next_ids (pools_by_id previous_ids (tunnel_pools r))
       (r\<lparr>close_requests := reqs, pools := store\<rparr>) = (ps, r2)"
    and m: "rehome_members (snapshot (authorization r)) taken (r2\<lparr>tunnel_pools := ps\<rparr>) = Some r'"
  note choice = pools_by_id_choice [OF assms(2), of previous_ids]
  have taken: "taken = concat (map (\<lambda>p. members (pools r p)) (tunnel_pools r))"
    and store: "store = (\<lambda>q. if q \<in> set (tunnel_pools r) then (pools r q)\<lparr>members := []\<rparr> else pools r q)"
    using take_pools_result [OF assms(2), of "pools r"] t by auto
  have "ran (pools_by_id previous_ids (tunnel_pools r)) \<subseteq>
      {..<next_pool (r\<lparr>close_requests := reqs, pools := store\<rparr>)}"
    using choice(2) assms(3) by auto
  from rebuild_pools_result [OF b choice(1) this] have built: "distinct ps"
      "set ps \<subseteq> set (tunnel_pools r) \<union> {next_pool r..<next_pool r2}"
      "pools r2 = (\<lambda>q. if next_pool r \<le> q \<and> q < next_pool r2 then pool_with_admission else store q)"
    using choice(2) by auto
  have tp: "tunnel_pools r' = ps" using rehome_members_frame [OF m] by simp
  have "ps ! i \<in> set ps" using assms(4) tp by simp
  then have "members (pools r2 (ps ! i)) = []"
    using built(2,3) by (auto simp: store pool_with_admission_def)
  then show ?thesis using rehome_members_keys [OF m, of i] built(1) assms(4) tp taken by simp
qed

lemma realign_pools_requests:
  assumes "realign_pools previous r = Some (closed, r')" "p \<in> set (tunnel_pools r)"
    and "m \<in> set (members (pools r p))"
    and "member_identity m \<in> trusted_client_identities previous - trusted_client_identities (snapshot (authorization r))"
  shows "(member_connection m, ''authorization revoked'') \<in> set (close_requests r')"
proof -
  let ?removed = "trusted_client_identities previous - trusted_client_identities (snapshot (authorization r))"
  obtain n r1 where n: "close_removed ?removed r = (n, r1)" by (cases "close_removed ?removed r")
  have "(member_connection m, ''authorization revoked'') \<in> set (close_requests r1)"
    using n assms(2-4) by (force simp: close_removed_def connections_for_identities_def Let_def split: if_splits)
  moreover have "close_requests r2 = close_requests q" if "rebuild_pools ids by_id q = (ps, r2)" for ids by_id q ps r2
    using that by (induction ids arbitrary: by_id q ps)
      (auto simp: Let_def create_pool_def split: prod.splits option.splits)
  moreover have "close_requests r2 = close_requests q" if "rehome_members snap ms q = Some r2" for snap ms q r2
    using that by (induction ms arbitrary: q)
      (auto simp: rehome_member_def adopt_member_def split: option.splits if_splits)
  ultimately show ?thesis
    using assms(1) n
    by (auto simp: realign_pools_def Let_def simp del: managed_tunnel_ids.simps
        split: option.splits prod.splits)
qed

end
