(* ===== verification/Registry_Properties.thy ===== *)
theory Registry_Properties
  imports Registry_Safety
begin

text \<open>
  The properties of the Tunnel registry under concurrency, each with a run of the model that
  shows it is not vacuous.
\<close>

section \<open>Example runs\<close>

definition example_snapshot :: authorization_snapshot where
  "example_snapshot = tunnels_snapshot example_tunnels (Managed [''t1'', ''t2''])"

definition example_connection :: server_connection where
  "example_connection = \<lparr>connection_key = 7, connection_identity = ClientIdentity (replicate 32 1)\<rparr>"

definition registered_world :: server_world where
  "registered_world = (world_start example_snapshot)\<lparr>registry :=
     snd (register_in_pool default_limits (registry (world_start example_snapshot)) example_connection 0)\<rparr>"

lemmas example_defs =
  example_snapshot_def example_connection_def example_tunnels_def world_start_def
  from_authorization_with_admission_def tunnels_snapshot_def

lemma example_snapshot_wf: "snapshot_wf example_snapshot"
  using try_from_managed_tunnels_wf [OF example_tunnels_managed] by (simp add: example_snapshot_def)

lemma example_registration_pool:
  "registration_pool (registry (world_start example_snapshot)) example_connection = Some 0"
  by (simp add: registration_pool_def example_defs tunnel_index_for_client_identity_def Let_def)

lemma looked_up_reachable:
  "world_reachable default_limits example_snapshot
     ((world_start example_snapshot)\<lparr>registrations := {#(example_connection, 0)#}\<rparr>)"
proof -
  have "world_step default_limits (world_start example_snapshot)
      ((world_start example_snapshot)\<lparr>registrations := {#(example_connection, 0)#}\<rparr>)"
    using connection_looks_up [of "world_start example_snapshot" example_connection 0 default_limits]
      example_registration_pool by (simp add: world_start_def)
  with world_initial show ?thesis
    by (rule world_next) (simp add: world_start_def from_authorization_with_admission_def Let_def)
qed

definition example_member :: pool_member where
  "example_member = \<lparr>member_id = 1, member_identity = ClientIdentity (replicate 32 1),
     member_connection = 7, member_streams = 0, close_watcher = 0\<rparr>"

lemma registered_world_facts:
  "pools (registry registered_world) 0 =
     \<lparr>members = [example_member], next_member_id = 2, next_round_robin_offset = 0\<rparr>"
  "tunnel_pools (registry registered_world) = [0, 1]"
  "authorization (registry registered_world) = \<lparr>allocation = 0, snapshot = example_snapshot\<rparr>"
  "sealed (registry registered_world) = False" "work (registry registered_world) = []"
  "pending_admissions (registry registered_world) = 0" "next_stream_id (registry registered_world) = 1"
  "active_streams (registry registered_world) = (\<lambda>_. 0)"
  "visitors registered_world = {#}" "registrations registered_world = {#}"
  "replacement registered_world = ReplacementIdle"
  by (simp_all add: registered_world_def register_in_pool_def pool_try_register_def example_defs
      tunnel_connection_try_acquire_def default_limits_def count_of_def push_member_def
      pool_with_admission_def example_member_def Let_def fun_eq_iff upt_rec)

lemma registered_reachable: "world_reachable default_limits example_snapshot registered_world"
proof -
  let ?w = "(world_start example_snapshot)\<lparr>registrations := {#(example_connection, 0)#}\<rparr>"
  let ?r = "registry (world_start example_snapshot)"
  obtain outcome r where r: "register_in_pool default_limits ?r example_connection 0 = (outcome, r)"
    by (cases "register_in_pool default_limits ?r example_connection 0")
  have "world_step default_limits ?w (?w\<lparr>registry := r, registrations := {#}\<rparr>)"
    by (rule connection_registers [where c = example_connection and p = 0]) (simp_all add: r)
  moreover have "?w\<lparr>registry := r, registrations := {#}\<rparr> = registered_world"
    by (simp add: registered_world_def r) (simp add: world_start_def)
  ultimately have "world_step default_limits ?w registered_world" by simp
  moreover have "next_stream_id (registry registered_world) \<noteq> 0"
    by (simp add: registered_world_facts)
  ultimately show ?thesis by (rule world_next [OF looked_up_reachable])
qed

lemma working_reachable:
  "\<exists>w. world_reachable default_limits example_snapshot w \<and> replacement w = ReplacementIdle \<and>
     visitors w = {#VisitorWorking 1 0#} \<and>
     work (registry w) = [(1, \<lparr>work_hostname = ''a.dev'', work_member_id = 1,
       work_identity = ClientIdentity (replicate 32 1), abort_requested = False\<rparr>)]"
proof -
  let ?w0 = registered_world
  note facts = registered_world_facts
  define w1 where "w1 = ?w0\<lparr>registry := (registry ?w0)\<lparr>pending_admissions := 1\<rparr>,
      visitors := {#VisitorAdmitted ''a.dev''#}\<rparr>"
  have s1: "world_step default_limits ?w0 w1"
    using visitor_begins [of ?w0 _ default_limits "''a.dev''"]
    by (simp add: begin_active_visitor_admission_def facts w1_def)
  have r1: "world_reachable default_limits example_snapshot w1"
    by (rule world_next [OF registered_reachable s1]) (simp add: w1_def facts)
  define w2 where "w2 = w1\<lparr>visitors := {#VisitorPool ''a.dev'' 0 0#}\<rparr>"
  have p: "route_pool (registry w1) ''a.dev'' = Inr 0"
    by (simp add: route_pool_def w1_def facts tunnel_index_for_public_hostname_def example_defs)
  have s2: "world_step default_limits w1 w2"
    using visitor_looks_up [of w1 "''a.dev''" "{#}" 0 default_limits] p
    by (simp add: w1_def w2_def facts)
  have r2: "world_reachable default_limits example_snapshot w2"
    by (rule world_next [OF r1 s2]) (simp add: w1_def w2_def facts)
  define chosen where "chosen = \<lparr>selected_member_id = 1, selected_identity = ClientIdentity (replicate 32 1),
      selected_connection = 7, selected_streams = 0\<rparr>"
  define r where "r = snd (select_from_pool (\<lambda>_. True) (registry w2) 0)"
  have "select_connection (\<lambda>_. True) (\<lambda>_. 0)
      \<lparr>members = [example_member], next_member_id = 2, next_round_robin_offset = 0\<rparr> =
      (Some chosen, \<lparr>members = [example_member], next_member_id = 2, next_round_robin_offset = 1\<rparr>)"
    by (simp add: select_connection_def least_active_index_def chosen_def example_member_def
        map_filter_simps upt_rec Let_def)
  then have sel: "select_from_pool (\<lambda>_. True) (registry w2) 0 = (Some chosen, r)"
    by (simp add: r_def select_from_pool_def w1_def w2_def facts)
  define w3 where "w3 = w2\<lparr>registry := r, visitors := {#VisitorRouted ''a.dev'' 0 chosen#}\<rparr>"
  have s3: "world_step default_limits w2 w3"
    using visitor_selects [of w2 "''a.dev''" 0 0 "{#}" "\<lambda>_. True" chosen r default_limits] sel
    by (simp add: w2_def w3_def)
  have r': "work r = []" "pending_admissions r = 1" "sealed r = False" "next_stream_id r = 1"
    "authorization r = \<lparr>allocation = 0, snapshot = example_snapshot\<rparr>"
    using select_from_pool_frame [OF sel] by (auto simp: w1_def w2_def facts)
  have r3: "world_reachable default_limits example_snapshot w3"
    by (rule world_next [OF r2 s3]) (simp add: w3_def r')
  let ?s = "\<lparr>work_hostname = ''a.dev'', work_member_id = 1,
       work_identity = ClientIdentity (replicate 32 1), abort_requested = False\<rparr>"
  have "stream_remains_authorized ?s example_snapshot"
    by (simp add: stream_remains_authorized_def tunnel_index_for_public_hostname_def
        tunnel_index_for_client_identity_def example_defs)
  then obtain r4 where r4: "register_active_visitor_work r ''a.dev'' 0 chosen = Some (Some 1, r4)"
    "work r4 = [(1, ?s)]" "next_stream_id r4 = 2"
    by (simp add: register_active_visitor_work_def r' chosen_def record_open_stream_def Let_def)
  define w4 where "w4 = w3\<lparr>registry := r4, visitors := {#VisitorWorking 1 0#}\<rparr>"
  have s4: "world_step default_limits w3 w4"
    using visitor_registers [of w3 "''a.dev''" 0 chosen "{#}" 1 r4 default_limits] r4(1)
    by (simp add: w3_def w4_def chosen_def)
  have "world_reachable default_limits example_snapshot w4"
    by (rule world_next [OF r3 s4]) (simp add: w4_def r4)
  moreover have "replacement w4 = ReplacementIdle"
    by (simp add: w4_def w3_def w2_def w1_def facts)
  ultimately show ?thesis using r4 by (intro exI [of _ w4]) (simp add: w4_def)
qed

definition replaced_tunnels :: "server_tunnel_config list" where
  "replaced_tunnels =
     [\<lparr>tunnel_config_id = Some ''t1'', tunnel_public_hostnames = [''a.dev''],
       authorized_client_identities = [ClientIdentity (replicate 32 4)]\<rparr>]"

definition replaced_snapshot :: authorization_snapshot where
  "replaced_snapshot = tunnels_snapshot replaced_tunnels (Managed [''t1''])"

lemma replaced_prepared:
  "snapshot a = example_snapshot \<Longrightarrow>
     prepare_managed_replacement a ''s.dev'' replaced_tunnels = Inr replaced_snapshot"
  by (auto simp: prepare_managed_replacement_def example_snapshot_def tunnels_snapshot_def result_simps
      replaced_snapshot_def replaced_tunnels_def tunnels_compatible_def intro!: exI [of _ "[''t1'']"])

definition committed :: "server_world \<Rightarrow> server_world" where
  "committed w = w\<lparr>registry := install_snapshot (registry w) replaced_snapshot,
     replacement := ReplacementCommitted example_snapshot\<rparr>"

lemma committed_reachable:
  assumes "world_reachable limits example_snapshot w" "replacement w = ReplacementIdle"
    and "snapshot (authorization (registry w)) = example_snapshot" "next_stream_id (registry w) \<noteq> 0"
  shows "world_reachable limits example_snapshot (committed w)"
proof (rule world_next [OF assms(1)])
  show "world_step limits w (committed w)"
    using replacement_commits [OF assms(2) replaced_prepared [OF assms(3)]] assms(3)
    by (simp add: committed_def)
qed (use assms(4) in \<open>simp add: committed_def install_snapshot_def\<close>)

section \<open>Properties\<close>



text \<open>
  C8: The registry's bookkeeping is exact: pending admissions are the Visitors still being routed,
  the records in flight are the Visitors being proxied under distinct stream numbers, and the load
  of every connection is the number of Visitors on it. Quiescence therefore means what it says.
\<close>

theorem registry_counts_exact:
  assumes "world_reachable limits snap w"
  shows "pending_admissions (registry w) = size (filter_mset awaiting_work (visitors w)) \<and>
         in_flight_visitor_count (registry w) = size (filter_mset (\<lambda>v. \<not> awaiting_work v) (visitors w)) \<and>
         (has_outstanding_visitor_work (registry w) \<longleftrightarrow> visitors w \<noteq> {#}) \<and>
         distinct (map fst (work (registry w))) \<and>
         (\<forall>c. active_streams (registry w) c =
            size (filter_mset (\<lambda>v. \<exists>i. v = VisitorWorking i c) (visitors w)))"
proof -
  have inv: "work_counted w" "loads_counted w" using reachable_invariants [OF assms] by blast+
  have size_working: "size (working V) = size (filter_mset (\<lambda>v. \<not> awaiting_work v) V)" for V
  proof (induction V)
    case (add v V)
    then show ?case by (cases v) auto
  qed simp
  have count_working: "count (image_mset snd (working V)) c =
      size (filter_mset (\<lambda>v. \<exists>i. v = VisitorWorking i c) V)" for V c
  proof (induction V)
    case (add v V)
    then show ?case by (cases v) auto
  qed simp
  have placed: "length (work (registry w)) = size (filter_mset (\<lambda>v. \<not> awaiting_work v) (visitors w))"
    using inv(1) unfolding size_working [symmetric]
    by (metis length_map size_image_mset size_mset work_counted_def)
  have pending: "pending_admissions (registry w) = size (filter_mset awaiting_work (visitors w))"
    using inv(1) by (simp add: work_counted_def pending_visitors_of_def)
  have "size (filter_mset awaiting_work V) + size (filter_mset (\<lambda>v. \<not> awaiting_work v) V) = size V" for V
    by (metis multiset_partition size_union)
  from this [of "visitors w"]
  have "length (work (registry w)) + pending_admissions (registry w) = size (visitors w)"
    unfolding placed pending by linarith
  then have "has_outstanding_visitor_work (registry w) \<longleftrightarrow> size (visitors w) \<noteq> 0"
    unfolding has_outstanding_visitor_work_def by (metis add_eq_0_iff_both_eq_0 length_0_conv neq0_conv)
  then show ?thesis
    using placed pending inv by (simp add: in_flight_visitor_count_def work_counted_def
        loads_counted_def count_working)
qed

theorem registry_counts_exact_witness:
  "\<exists>w. world_reachable default_limits example_snapshot w \<and> in_flight_visitor_count (registry w) = 1 \<and>
     active_streams (registry w) 0 = 1"
proof -
  obtain w where w: "world_reachable default_limits example_snapshot w" "visitors w = {#VisitorWorking 1 0#}"
    using working_reachable by blast
  from registry_counts_exact [OF w(1)] w show ?thesis by (intro exI [of _ w]) simp
qed

text \<open>
  C22: Sealing is final. Once the registry has stopped accepting work, no interleaving adds a
  Visitor record or a pending admission, so an empty registry stays empty.
\<close>

theorem sealed_registry_only_drains:
  assumes "(world_step limits)\<^sup>*\<^sup>* w w'" "sealed (registry w)"
  shows "sealed (registry w') \<and>
         fst ` set (work (registry w')) \<subseteq> fst ` set (work (registry w)) \<and>
         pending_admissions (registry w') \<le> pending_admissions (registry w)"
  using assms
proof (induction rule: rtranclp_induct)
  case (step y z)
  then show ?case using world_step_sealed [OF step.hyps(2)] by (meson order_trans)
qed simp

theorem sealed_registry_only_drains_witness:
  "sealed (registry ((world_start example_snapshot)\<lparr>registry :=
     stop_accepting_new_work (registry (world_start example_snapshot))\<rparr>))"
  using sealed_registry_only_drains [OF rtranclp.rtrancl_refl, of "(world_start example_snapshot)\<lparr>registry :=
     stop_accepting_new_work (registry (world_start example_snapshot))\<rparr>"]
  by (simp add: stop_accepting_new_work_def)

text \<open>
  C21: No operation of the registry panics or underflows in any reachable state: dropping an
  admission, registering and finishing Visitor work, removing a closed connection, releasing the
  permit of a detached connection, and realigning the pools after a commit all succeed.
\<close>

theorem registry_never_panics:
  assumes "snapshot_wf snap" "world_reachable limits snap w"
  shows "(\<forall>v. v \<in># visitors w \<and> awaiting_work v \<longrightarrow> visitor_admission_drop (registry w) \<noteq> None) \<and>
         (\<forall>h a chosen. VisitorRouted h a chosen \<in># visitors w \<longrightarrow>
            register_active_visitor_work (registry w) h a chosen \<noteq> None) \<and>
         (\<forall>i c. VisitorWorking i c \<in># visitors w \<longrightarrow> active_visitor_work_drop (registry w) i c \<noteq> None) \<and>
         (\<forall>n. watcher_fires (registry w) n \<noteq> None) \<and>
         (\<forall>c identity. (c, identity) \<in> set (closing_permits (registry w)) \<longrightarrow>
            tunnel_connection_drop (connection_admission (registry w)) identity \<noteq> None) \<and>
         (\<forall>previous. replacement w = ReplacementCommitted previous \<longrightarrow>
            realign_pools previous (registry w) \<noteq> None)"
proof (intro conjI allI impI)
  have inv: "work_counted w" "loads_counted w" "pools_shaped w" "permits_counted limits w"
    using reachable_invariants [OF assms(2)] reachable_pools [OF assms] by blast+
  have pending: "pending_admissions (registry w) \<noteq> 0" if "v \<in># visitors w" "awaiting_work v" for v
    using inv(1) multi_member_split [OF that(1)] that(2) by (auto simp: work_counted_def)
  show "visitor_admission_drop (registry w) \<noteq> None" if "v \<in># visitors w \<and> awaiting_work v" for v
    using pending that by (auto simp: visitor_admission_drop_def)
  show "register_active_visitor_work (registry w) h a chosen \<noteq> None"
    if "VisitorRouted h a chosen \<in># visitors w" for h a chosen
    using pending [OF that] by (simp add: register_active_visitor_work_def Let_def)
  show "active_visitor_work_drop (registry w) i c \<noteq> None" if "VisitorWorking i c \<in># visitors w" for i c
    using inv(2) multi_member_split [OF that] by (auto simp: loads_counted_def active_visitor_work_drop_def)
  show "watcher_fires (registry w) n \<noteq> None" for n
    using inv(3,4) by (intro watcher_fires_total) (simp_all add: pools_shaped_def permits_counted_def)
  show "tunnel_connection_drop (connection_admission (registry w)) identity \<noteq> None"
    if "(c, identity) \<in> set (closing_permits (registry w))" for c identity
  proof -
    have "identity \<in># mset (map snd (closing_permits (registry w)))" using that by force
    then have "identity \<in># permit_holders (registry w)" by (simp add: permit_holders_def)
    then obtain P where "permit_holders (registry w) = add_mset identity P" by (metis multi_member_split)
    with inv(4) admission_counts_drop show ?thesis by (force simp: permits_counted_def)
  qed
  show "realign_pools previous (registry w) \<noteq> None" if "replacement w = ReplacementCommitted previous" for previous
    using inv(3) that realign_pools_result [of "registry w" previous]
    by (auto simp: pools_shaped_def simp del: managed_tunnel_ids.simps)
qed

theorem registry_never_panics_witness:
  "\<exists>w. world_reachable default_limits example_snapshot w \<and> active_visitor_work_drop (registry w) 1 0 \<noteq> None"
proof -
  obtain w where w: "world_reachable default_limits example_snapshot w" "visitors w = {#VisitorWorking 1 0#}"
    using working_reachable by blast
  from registry_never_panics [OF example_snapshot_wf w(1)] w show ?thesis by (intro exI [of _ w]) simp
qed

text \<open>
  C23: Tunnel connection limits hold across replacements: the connections in any pool together
  with the revoked ones still closing never exceed the global limit nor, per Client identity, the
  identity limit, and the admission counters equal their number.
\<close>

theorem registry_connection_limits:
  assumes "snapshot_wf snap" "world_reachable limits snap w"
  shows "size (permit_holders (registry w)) \<le> max_tunnel_connections limits \<and>
         (\<forall>c. count (permit_holders (registry w)) c \<le> max_tunnel_connections_per_identity limits) \<and>
         active (connection_admission (registry w)) = size (permit_holders (registry w)) \<and>
         active_by_identity (connection_admission (registry w)) = counts (permit_holders (registry w))"
  using reachable_pools [OF assms] by (auto simp: permits_counted_def permits_fit_def admission_counts_def)

theorem registry_connection_limits_witness:
  "size (permit_holders (registry registered_world)) \<le> max_tunnel_connections default_limits"
  using registry_connection_limits [OF example_snapshot_wf registered_reachable] by blast



section \<open>A registration that overlaps a replacement\<close>

text \<open>
  Registration looks its pool up under the pools lock but joins it after releasing the lock. A
  replacement that runs in between revokes the identity without meeting the connection, which then
  joins the pool of the surviving Tunnel: the registry is idle, no close was requested, and the
  pool serves a connection of an identity that the current snapshot does not authorize. The run
  below is such an interleaving. Visitors routed to it are still refused, by the check made when
  their work is registered.
\<close>

lemma replaced_realigned:
  "\<exists>r. realign_pools example_snapshot (install_snapshot (registry (world_start example_snapshot))
          replaced_snapshot) = Some (0, r) \<and>
       tunnel_pools r = [0] \<and> members (pools r 0) = [] \<and> close_requests r = [] \<and> work r = [] \<and>
       next_stream_id r = 1 \<and> connection_admission r = \<lparr>active = 0, active_by_identity = Map.empty\<rparr> \<and>
       snapshot (authorization r) = replaced_snapshot"
  by (simp add: realign_pools_def close_removed_def example_defs replaced_snapshot_def replaced_tunnels_def
      install_snapshot_def commit_snapshot_def connections_for_identities_def take_members_def
      pool_with_admission_def pools_by_id_def upt_rec Let_def)

theorem revoked_connection_can_join_pool:
  "\<exists>w m. world_reachable default_limits example_snapshot w \<and> replacement w = ReplacementIdle \<and>
     registrations w = {#} \<and> tunnel_pools (registry w) = [0] \<and> m \<in> set (members (pools (registry w) 0)) \<and>
     \<not> authorizes_client_identity (snapshot (authorization (registry w))) (member_identity m) \<and>
     close_requests (registry w) = []"
proof -
  let ?w = "(world_start example_snapshot)\<lparr>registrations := {#(example_connection, 0)#}\<rparr>"
  have start: "replacement ?w = ReplacementIdle" "snapshot (authorization (registry ?w)) = example_snapshot"
    "next_stream_id (registry ?w) \<noteq> 0"
    by (simp_all add: world_start_def from_authorization_with_admission_def Let_def)
  have c: "world_reachable default_limits example_snapshot (committed ?w)"
    by (rule committed_reachable [OF looked_up_reachable start])
  obtain r where r: "realign_pools example_snapshot (registry (committed ?w)) = Some (0, r)"
    "tunnel_pools r = [0]" "members (pools r 0) = []" "close_requests r = []" "work r = []"
    "next_stream_id r = 1" "connection_admission r = \<lparr>active = 0, active_by_identity = Map.empty\<rparr>"
    "snapshot (authorization r) = replaced_snapshot"
    using replaced_realigned by (auto simp: committed_def)
  define w1 where "w1 = (committed ?w)\<lparr>registry := r, replacement := ReplacementRealigned\<rparr>"
  have "world_step default_limits (committed ?w) w1"
    unfolding w1_def by (rule replacement_realigns [OF _ r(1)]) (simp add: committed_def)
  then have w1: "world_reachable default_limits example_snapshot w1"
    by (rule world_next [OF c]) (simp add: w1_def r)
  define w2 where "w2 = w1\<lparr>registry := open_readiness r, replacement := ReplacementIdle\<rparr>"
  have "reset_unauthorized (registry w1) = (0, r)"
    by (simp add: reset_unauthorized_def reset_streams_matching_def w1_def r(5))
  then have "world_step default_limits w1 w2"
    unfolding w2_def by (intro replacement_resets) (simp_all add: w1_def)
  then have w2: "world_reachable default_limits example_snapshot w2"
    by (rule world_next [OF w1]) (simp add: w2_def r)
  obtain r3 where r3: "register_in_pool default_limits (registry w2) example_connection 0 = (Registered, r3)"
    "members (pools r3 0) = [\<lparr>member_id = next_member_id (pools r 0),
       member_identity = ClientIdentity (replicate 32 1), member_connection = 7,
       member_streams = next_streams r, close_watcher = next_watcher (open_readiness r)\<rparr>]"
    "close_requests r3 = close_requests (open_readiness r)" "next_stream_id r3 = 1" "tunnel_pools r3 = [0]"
    "authorization r3 = authorization r"
    by (simp add: register_in_pool_def w2_def pool_try_register_def r tunnel_connection_try_acquire_def
        default_limits_def count_of_def example_connection_def push_member_def Let_def)
  define w3 where "w3 = w2\<lparr>registry := r3, registrations := {#}\<rparr>"
  have "world_step default_limits w2 w3"
    unfolding w3_def by (rule connection_registers [OF _ r3(1)]) (simp add: w2_def w1_def committed_def)
  then have "world_reachable default_limits example_snapshot w3"
    by (rule world_next [OF w2]) (simp add: w3_def r3)
  moreover have "close_requests r3 = []" using r3(3) r(4) by (simp add: open_readiness_def)
  moreover have "\<not> authorizes_client_identity replaced_snapshot (ClientIdentity (replicate 32 1))"
    by (simp add: authorizes_client_identity_def replaced_snapshot_def replaced_tunnels_def tunnels_snapshot_def)
  ultimately show ?thesis
    using r3(2,5,6) r(8) by (intro exI [of _ w3]) (simp add: w3_def w2_def)
qed

end
