(* ===== verification/Visitor_Intake_Properties.thy ===== *)
theory Visitor_Intake_Properties
  imports Visitor_Intake Registry_Properties
begin

text \<open>
  All Visitor tasks of a Server together with replacements and registrations. Each step of a task is
  one step of the registry's world or leaves it alone, and the permits taken from the admission policy
  are those the tasks hold, so the theorems on the registry and the limits hold of the tasks.
\<close>

section \<open>The system\<close>

record 'sem intake_system =
  shared :: "'sem edge"
  tasks :: "(visitor \<times> visitor_phase) multiset"
  joining :: "(server_connection \<times> nat) multiset"
  replacing :: replacement_phase

fun phase_task :: "visitor_phase \<Rightarrow> visitor_task multiset" where
  "phase_task (RouteAdmitted f) = {#VisitorAdmitted (forward_hostname f)#}"
| "phase_task (RoutePool f taken_under p) = {#VisitorPool (forward_hostname f) taken_under p#}"
| "phase_task (RouteSelected f taken_under chosen) = {#VisitorRouted (forward_hostname f) taken_under chosen#}"
| "phase_task (OpeningStream f taken_under chosen) = {#VisitorRouted (forward_hostname f) taken_under chosen#}"
| "phase_task (StreamOpened f taken_under chosen) = {#VisitorRouted (forward_hostname f) taken_under chosen#}"
| "phase_task (StreamPermitted f taken_under chosen) = {#VisitorRouted (forward_hostname f) taken_under chosen#}"
| "phase_task (Relaying f initial stream_id streams) = {#VisitorWorking stream_id streams#}"
| "phase_task _ = {#}"

text \<open>The permits a task holds: its Visitor permit by source, its pending open, its routed stream.\<close>

fun phase_visitor :: "visitor_phase \<Rightarrow> ip_addr option multiset" where
  "phase_visitor ReadingAddresses = {#None#}"
| "phase_visitor (ReadingHello a rest) = {#Some (ip (source a))#}"
| "phase_visitor _ = {#}"

fun phase_open :: "visitor_phase \<Rightarrow> nat" where
  "phase_open (OpeningStream f taken_under chosen) = 1"
| "phase_open (StreamOpened f taken_under chosen) = 1"
| "phase_open _ = 0"

fun phase_stream :: "visitor_phase \<Rightarrow> nat" where
  "phase_stream (StreamPermitted f taken_under chosen) = 1"
| "phase_stream (Relaying f initial stream_id streams) = 1"
| "phase_stream _ = 0"

definition over_tasks :: "(visitor_phase \<Rightarrow> 'm :: comm_monoid_add) \<Rightarrow> (visitor \<times> visitor_phase) multiset \<Rightarrow> 'm" where
  "over_tasks f T = (\<Sum>(v, phase)\<in>#T. f phase)"

lemma over_tasks_simps [simp]:
  "over_tasks f {#} = 0" "over_tasks f (add_mset (v, phase) T) = f phase + over_tasks f T"
  by (simp_all add: over_tasks_def)

definition edge_world ::
  "'sem edge \<Rightarrow> visitor_task multiset \<Rightarrow> (server_connection \<times> nat) multiset \<Rightarrow> replacement_phase \<Rightarrow> server_world" where
  "edge_world e V R P = \<lparr>registry = tunnels e, visitors = V, registrations = R, replacement = P\<rparr>"

definition system_world :: "'sem intake_system \<Rightarrow> server_world" where
  "system_world s = edge_world (shared s) (over_tasks phase_task (tasks s)) (joining s) (replacing s)"

text \<open>
  The rest of the Server moves too: connections register and close, authorization is replaced, and
  other work takes and returns handshake and connection permits. A lookup waits for the pools lock.
\<close>

inductive intake_step ::
  "'sem semaphore_ops \<Rightarrow> 'acc visitor_intake \<Rightarrow> server_admission_limits \<Rightarrow> 'sem intake_system \<Rightarrow>
   'sem intake_system \<Rightarrow> bool" for sem intake limits where
  visitor_accepted:
    "accepted_task sem env (shared s) = (Some phase, e) \<Longrightarrow>
     encode_proxy_v2 (direct_addresses v) \<noteq> None \<Longrightarrow>
     intake_step sem intake limits s (s\<lparr>shared := e, tasks := add_mset (v, phase) (tasks s)\<rparr>)"
| visitor_turned_away:
    "accepted_task sem env (shared s) = (None, e) \<Longrightarrow> intake_step sem intake limits s (s\<lparr>shared := e\<rparr>)"
| visitor_moves:
    "tasks s = add_mset (v, phase) T \<Longrightarrow>
     (\<exists>f. phase = RouteAdmitted f) \<longrightarrow> pools_unlocked (system_world s) \<Longrightarrow>
     visitor_step sem intake env v event phase (shared s) = Some (phase', e) \<Longrightarrow>
     intake_step sem intake limits s (s\<lparr>shared := e, tasks := add_mset (v, phase') T\<rparr>)"
| registry_moves:
    "world_step limits (system_world s) w \<Longrightarrow> visitors w = visitors (system_world s) \<Longrightarrow>
     intake_step sem intake limits s
       (s\<lparr>shared := (shared s)\<lparr>tunnels := registry w\<rparr>, joining := registrations w, replacing := replacement w\<rparr>)"
| other_admission:
    "intake_step sem intake limits s
       (s\<lparr>shared := (shared s)\<lparr>policy := (policy (shared s))\<lparr>pending_handshakes := h, tunnel_connections := t,
          log_gate := g\<rparr>\<rparr>\<rparr>)"

definition system_start ::
  "'sem semaphore_ops \<Rightarrow> server_admission_limits \<Rightarrow> authorization_snapshot \<Rightarrow> 'sem intake_system" where
  "system_start sem limits snap =
     \<lparr>shared = \<lparr>policy = server_admission_policy_new sem limits, tunnels = registry (world_start snap), route_log = []\<rparr>,
      tasks = {#}, joining = {#}, replacing = ReplacementIdle\<rparr>"

inductive intake_reachable ::
  "'sem semaphore_ops \<Rightarrow> 'acc visitor_intake \<Rightarrow> server_admission_limits \<Rightarrow> authorization_snapshot \<Rightarrow>
   'sem intake_system \<Rightarrow> bool" for sem intake limits snap where
  intake_initial: "intake_reachable sem intake limits snap (system_start sem limits snap)"
| intake_next:
    "intake_reachable sem intake limits snap s \<Longrightarrow> intake_step sem intake limits s s' \<Longrightarrow>
     next_stream_id (tunnels (shared s')) \<noteq> 0 \<Longrightarrow> intake_reachable sem intake limits snap s'"

section \<open>Permits\<close>

definition visitor_counts ::
  "'sem semaphore_ops \<Rightarrow> server_admission_limits \<Rightarrow> 'sem server_admission_policy \<Rightarrow>
   ip_addr option multiset \<Rightarrow> nat \<Rightarrow> nat \<Rightarrow> bool" where
  "visitor_counts sem limits p V opens streams \<longleftrightarrow>
     policy_limits p = limits \<and>
     sem_available sem (pending_visitors p) + size V = max_pending_visitors limits \<and>
     pending_visitors_by_source p = counts (known_sources V) \<and>
     (\<forall>a. count (known_sources V) a \<le> max_pending_visitors_per_source limits) \<and>
     sem_available sem (pending_stream_opens p) + opens = max_pending_stream_opens limits \<and>
     sem_available sem (active_routed_streams p) + streams = max_active_routed_streams limits"

lemma policy_saturated [simp]:
  "visitor_counts sem limits (policy (saturated env rejected e)) V n m \<longleftrightarrow> visitor_counts sem limits (policy e) V n m"
  "tunnels (saturated env rejected e) = tunnels e"
  "visitor_counts sem limits (policy (recovered ls e)) V n m \<longleftrightarrow> visitor_counts sem limits (policy e) V n m"
  "tunnels (recovered ls e) = tunnels e"
proof -
  obtain g where "snd (report_saturation (policy e) rejected (clock env)) = policy e\<lparr>log_gate := g\<rparr>"
    using report_saturation_policy by (metis prod.collapse)
  then show "visitor_counts sem limits (policy (saturated env rejected e)) V n m \<longleftrightarrow>
      visitor_counts sem limits (policy e) V n m"
    by (simp add: saturated_def visitor_counts_def)
  obtain g where "snd (report_recovery (policy e) ls) = policy e\<lparr>log_gate := g\<rparr>"
    using report_recovery_policy by (metis prod.collapse)
  then show "visitor_counts sem limits (policy (recovered ls e)) V n m \<longleftrightarrow>
      visitor_counts sem limits (policy e) V n m"
    by (simp add: recovered_def visitor_counts_def)
qed (simp_all add: saturated_def recovered_def)

lemma log_route_simps [simp]: "policy (log_route h o' e) = policy e" "tunnels (log_route h o' e) = tunnels e"
  by (simp_all add: log_route_def)

lemma drop_visitor_permit_counts:
  assumes "semaphore_laws sem" "visitor_counts sem limits (policy e) (add_mset w V) n m"
  obtains e' where "drop_visitor_permit sem w phase e = (phase, e')" "tunnels e' = tunnels e"
    "visitor_counts sem limits (policy e') V n m"
proof -
  have "count (known_sources V) x \<le> max_pending_visitors_per_source limits" for x
    using assms(2) known_sources_mono [of V x w] unfolding visitor_counts_def by (meson le_trans)
  with assms that show thesis
    by (simp add: drop_visitor_permit_def visitor_counts_def visitor_permit_drop_counts)
qed

lemma drop_stream_counts:
  assumes "semaphore_laws sem"
  shows "visitor_counts sem limits (policy (drop_pending_open sem e)) V n m \<longleftrightarrow>
      visitor_counts sem limits (policy e) V (Suc n) m"
    "visitor_counts sem limits (policy (drop_active_stream sem e)) V n m \<longleftrightarrow>
      visitor_counts sem limits (policy e) V n (Suc m)"
    "tunnels (drop_pending_open sem e) = tunnels e" "tunnels (drop_active_stream sem e) = tunnels e"
  using assms by (simp_all add: drop_pending_open_def drop_active_stream_def visitor_counts_def)

lemma admit_counts:
  assumes "semaphore_laws sem" "visitor_counts sem limits p V n m"
  shows "try_admit_visitor_global sem p = Inr p' \<Longrightarrow> visitor_counts sem limits p' (add_mset None V) n m"
    "try_admit_pending_stream_open sem p = Inr p' \<Longrightarrow> visitor_counts sem limits p' V (Suc n) m"
    "try_admit_active_routed_stream sem p = Inr p' \<Longrightarrow> visitor_counts sem limits p' V n (Suc m)"
  using assms(2) by (auto simp: visitor_counts_def admit_defs result_simps dest!: try_admit_Inr [OF assms(1)])

section \<open>Steps of a task\<close>

text \<open>
  A step is sound when it does not panic, takes and returns exactly the permits of its phases, and is
  a step of the registry's world or leaves the registry alone.
\<close>

definition sound_step ::
  "'sem semaphore_ops \<Rightarrow> server_admission_limits \<Rightarrow> visitor_phase \<Rightarrow> 'sem edge \<Rightarrow> visitor_phase \<Rightarrow> 'sem edge \<Rightarrow> bool" where
  "sound_step sem limits phase e phase' e' \<longleftrightarrow>
     phase' \<noteq> VisitorPanicked \<and>
     (\<forall>V n m. visitor_counts sem limits (policy e) (phase_visitor phase + V) (phase_open phase + n) (phase_stream phase + m) \<longrightarrow>
        visitor_counts sem limits (policy e') (phase_visitor phase' + V) (phase_open phase' + n) (phase_stream phase' + m)) \<and>
     (tunnels e' = tunnels e \<and> phase_task phase' = phase_task phase \<or>
      (\<forall>W R P. ((\<exists>f. phase = RouteAdmitted f) \<longrightarrow> (\<forall>previous. P \<noteq> ReplacementCommitted previous)) \<longrightarrow>
         world_step limits (edge_world e (phase_task phase + W) R P) (edge_world e' (phase_task phase' + W) R P)))"

lemma drop_route_gives_up:
  assumes "pending_admissions (tunnels e) \<noteq> 0"
  obtains r where "drop_route e = (VisitorDone, e\<lparr>tunnels := r\<rparr>)" "visitor_admission_drop (tunnels e) = Some r"
  using assms that by (simp add: drop_route_def visitor_admission_drop_def)

lemma drop_route_sound:
  assumes "drop_route e1 = (phase', e')" "pending_admissions (tunnels e) \<noteq> 0" "tunnels e1 = tunnels e"
    and "phase_task phase = {#v#}" "awaiting_work v" "phase_visitor phase = {#}" "phase_stream phase = 0"
    and "\<And>V n m. visitor_counts sem limits (policy e) V (phase_open phase + n) m \<Longrightarrow>
           visitor_counts sem limits (policy e1) V n m"
  shows "sound_step sem limits phase e phase' e'"
proof -
  obtain r where r: "phase' = VisitorDone" "e' = e1\<lparr>tunnels := r\<rparr>" "visitor_admission_drop (tunnels e) = Some r"
    using drop_route_gives_up [of e1] assms(1-3) by (metis prod.inject)
  then have "world_step limits (edge_world e ({#v#} + W) R P) (edge_world e' ({#} + W) R P)" for W R P
    using visitor_gives_up [of "edge_world e ({#v#} + W) R P" v W r limits] assms(5) by (simp add: edge_world_def)
  with assms(4,6-8) r(1,2) show ?thesis by (simp add: sound_step_def)
qed

lemma begins_step:
  "begin_active_visitor_admission (tunnels e) = Some r \<Longrightarrow>
     world_step limits (edge_world e W R P) (edge_world (e\<lparr>tunnels := r\<rparr>) (add_mset (VisitorAdmitted h) W) R P)"
  using visitor_begins [of "edge_world e W R P" r limits h] by (simp add: edge_world_def)

lemma handle_parsed_sound:
  assumes "handle_parsed intake env hello a rest e = (phase', e')"
  shows "sound_step sem limits (HelloParsed hello a rest) e phase' e'"
  using assms
  by (auto simp: handle_parsed_def serve_acme_tls_alpn_01_def sound_step_def Let_def
           split: if_splits option.splits intro: begins_step)

lemma read_addresses_sound:
  assumes "semaphore_laws sem" "read_addresses_step sem intake env v event e = Some (phase', e')"
    "visitor_counts sem limits (policy e) (add_mset None V0) n0 m0"
  shows "sound_step sem limits ReadingAddresses e phase' e'"
proof -
  have dropped: "sound_step sem limits ReadingAddresses e phase' e'"
    if "drop_visitor_permit sem None VisitorDone (f e) = (phase', e')"
      "\<And>V n m. visitor_counts sem limits (policy (f e)) V n m = visitor_counts sem limits (policy e) V n m"
      "tunnels (f e) = tunnels e" for f
  proof -
    have "visitor_counts sem limits (policy e') V n m"
      if "visitor_counts sem limits (policy e) (add_mset None V) n m" for V n m
      using drop_visitor_permit_counts [OF assms(1), of limits "f e" None V n m] that
        \<open>drop_visitor_permit sem None VisitorDone (f e) = (phase', e')\<close>
        \<open>\<And>V n m. visitor_counts sem limits (policy (f e)) V n m = visitor_counts sem limits (policy e) V n m\<close>
      by (metis prod.inject)
    moreover have "phase' = VisitorDone" "tunnels e' = tunnels e"
      using drop_visitor_permit_counts [OF assms(1), of limits "f e" None V0 n0 m0] that assms(3)
      by (metis prod.inject)+
    ultimately show ?thesis by (simp add: sound_step_def)
  qed
  consider "drop_visitor_permit sem None VisitorDone e = (phase', e')"
    | a rest where "count_source sem env a rest e = (phase', e')"
    using assms(2) by (auto simp: read_addresses_step_def split: if_splits option.splits)
  then show ?thesis
  proof cases
    case 1
    then show ?thesis by (rule dropped [of "\<lambda>e. e"]) simp_all
  next
    case (2 a rest)
    let ?use = "use_canonical_source (pending_visitors_by_source (policy e)) None (ip (source a))
      (max_pending_visitors_per_source (policy_limits (policy e)))"
    show ?thesis
    proof (cases ?use)
      case (Inl rejected)
      with 2 show ?thesis by (intro dropped [of "saturated env rejected"]) (simp_all add: count_source_def)
    next
      case (Inr r)
      have moved: "\<exists>sources. r = Some (Some (ip (source a)), sources) \<and>
          sources = counts (known_sources (add_mset (Some (ip (source a))) V)) \<and>
          (\<forall>x. count (known_sources (add_mset (Some (ip (source a))) V)) x \<le> max_pending_visitors_per_source limits)"
        if "visitor_counts sem limits (policy e) (add_mset None V) n m" for V n m
        using use_canonical_source_counts [OF _ Inr, of V] that
          use_canonical_source_within [of "Some (ip (source a))" "ip (source a)" None V]
        unfolding visitor_counts_def by blast
      from moved [OF assms(3)] obtain sources where r: "r = Some (Some (ip (source a)), sources)" by blast
      with 2 Inr have "phase' = ReadingHello a rest"
        "e' = e\<lparr>policy := (policy e)\<lparr>pending_visitors_by_source := sources\<rparr>\<rparr>"
        by (simp_all add: count_source_def)
      with moved r show ?thesis by (fastforce simp: sound_step_def visitor_counts_def)
    qed
  qed
qed

lemma read_hello_sound:
  assumes "semaphore_laws sem" "read_hello_step sem intake v event a rest e = Some (phase', e')"
    "visitor_counts sem limits (policy e) (add_mset (Some (ip (source a))) V0) n0 m0"
  shows "sound_step sem limits (ReadingHello a rest) e phase' e'"
proof -
  let ?w = "Some (ip (source a))"
  obtain phase where phase: "drop_visitor_permit sem ?w phase e = (phase', e')"
    "phase = VisitorDone \<or> (\<exists>hello rest'. phase = HelloParsed hello a rest')"
    using assms(2) by (auto simp: read_hello_step_def split: if_splits sum.splits)
  have "phase' = phase" "tunnels e' = tunnels e"
    using drop_visitor_permit_counts [OF assms(1,3), of phase] phase(1) by (metis prod.inject)+
  moreover have "visitor_counts sem limits (policy e') V n m"
    if "visitor_counts sem limits (policy e) (add_mset ?w V) n m" for V n m
    using drop_visitor_permit_counts [OF assms(1) that, of phase] phase(1) by (metis prod.inject)
  ultimately show ?thesis using phase(2) by (auto simp: sound_step_def)
qed

lemma look_up_pool_sound:
  assumes "look_up_pool f e = (phase', e')" "pending_admissions (tunnels e) \<noteq> 0"
  shows "sound_step sem limits (RouteAdmitted f) e phase' e'"
proof (cases "route_pool (tunnels e) (forward_hostname f)")
  case (Inl outcome)
  then have "drop_route (log_route (forward_hostname f)
      (case outcome of Unauthorized \<Rightarrow> RejectedUnauthorized | _ \<Rightarrow> RouteNoActiveTunnelConnection) e) = (phase', e')"
    using assms(1) by (simp add: look_up_pool_def)
  then show ?thesis by (rule drop_route_sound [OF _ assms(2)]) auto
next
  case (Inr p)
  then have "world_step limits (edge_world e ({#VisitorAdmitted (forward_hostname f)#} + W) R P)
      (edge_world e ({#VisitorPool (forward_hostname f) (allocation (authorization (tunnels e))) p#} + W) R P)"
    if "\<forall>previous. P \<noteq> ReplacementCommitted previous" for W R P
    using visitor_looks_up [of "edge_world e ({#VisitorAdmitted (forward_hostname f)#} + W) R P"
        "forward_hostname f" W p limits] that by (simp add: edge_world_def)
  with assms(1) Inr show ?thesis by (auto simp: look_up_pool_def sound_step_def)
qed

lemma select_route_sound:
  assumes "select_route env f taken_under p e = (phase', e')" "pending_admissions (tunnels e) \<noteq> 0"
  shows "sound_step sem limits (RoutePool f taken_under p) e phase' e'"
proof -
  let ?v = "VisitorPool (forward_hostname f) taken_under p"
  obtain chosen r where sel: "select_from_pool (accepts env) (tunnels e) p = (chosen, r)" by fastforce
  show ?thesis
  proof (cases chosen)
    case None
    let ?e = "log_route (forward_hostname f) RouteNoActiveTunnelConnection (e\<lparr>tunnels := r\<rparr>)"
    have "pending_admissions r \<noteq> 0" using select_from_pool_frame [OF sel] assms(2) by (auto simp: same_visitor_state_def)
    then obtain r' where r': "drop_route ?e = (VisitorDone, ?e\<lparr>tunnels := r'\<rparr>)" "visitor_admission_drop r = Some r'"
      using drop_route_gives_up [of ?e] by auto
    then have "world_step limits (edge_world e ({#?v#} + W) R P) (edge_world (?e\<lparr>tunnels := r'\<rparr>) ({#} + W) R P)" for W R P
      using visitor_finds_none [of "edge_world e ({#?v#} + W) R P" "forward_hostname f" taken_under p W "accepts env" r r' limits]
        sel None by (simp add: edge_world_def)
    with assms(1) sel None r'(1) show ?thesis by (auto simp: select_route_def sound_step_def)
  next
    case (Some c)
    then have "world_step limits (edge_world e ({#?v#} + W) R P)
        (edge_world (e\<lparr>tunnels := r\<rparr>) ({#VisitorRouted (forward_hostname f) taken_under c#} + W) R P)" for W R P
      using visitor_selects [of "edge_world e ({#?v#} + W) R P" "forward_hostname f" taken_under p W "accepts env" c r limits]
        sel by (simp add: edge_world_def)
    with assms(1) sel Some show ?thesis by (auto simp: select_route_def sound_step_def)
  qed
qed

lemma admit_stream_open_sound:
  assumes "semaphore_laws sem" "admit_stream_open sem env f taken_under chosen e = (phase', e')"
    "pending_admissions (tunnels e) \<noteq> 0"
  shows "sound_step sem limits (RouteSelected f taken_under chosen) e phase' e'"
proof (cases "try_admit_pending_stream_open sem (policy e)")
  case (Inl rejected)
  then have "drop_route (saturated env rejected e) = (phase', e')" using assms(2) by (simp add: admit_stream_open_def)
  then show ?thesis by (rule drop_route_sound [OF _ assms(3)]) auto
next
  case (Inr p)
  with assms(2) admit_counts(2) [OF assms(1) _ Inr] show ?thesis
    by (auto simp: admit_stream_open_def sound_step_def)
qed

lemma stream_open_failed_sound:
  assumes "semaphore_laws sem" "stream_open_failed sem f e = (phase', e')" "pending_admissions (tunnels e) \<noteq> 0"
  shows "sound_step sem limits (OpeningStream f taken_under chosen) e phase' e'"
  by (rule drop_route_sound [OF assms(2) [unfolded stream_open_failed_def] assms(3)])
     (auto simp: drop_stream_counts [OF assms(1)])

lemma sound_step_opened:
  "sound_step sem limits (OpeningStream f taken_under chosen) e (StreamOpened f taken_under chosen) e"
  by (simp add: sound_step_def)

lemma admit_active_stream_sound:
  assumes "semaphore_laws sem" "admit_active_stream sem env f taken_under chosen e = (phase', e')"
    "pending_admissions (tunnels e) \<noteq> 0"
  shows "sound_step sem limits (StreamOpened f taken_under chosen) e phase' e'"
proof (cases "try_admit_active_routed_stream sem (policy e)")
  case (Inl rejected)
  then have "drop_route (saturated env rejected (drop_pending_open sem e)) = (phase', e')"
    using assms(2) by (simp add: admit_active_stream_def)
  then show ?thesis by (rule drop_route_sound [OF _ assms(3)]) (auto simp: drop_stream_counts [OF assms(1)])
next
  case (Inr p)
  with assms(2) admit_counts(3) [OF assms(1) _ Inr] show ?thesis
    by (auto simp: admit_active_stream_def sound_step_def drop_stream_counts [OF assms(1)])
qed

lemma register_work_sound:
  assumes "semaphore_laws sem" "register_work sem f taken_under chosen e = (phase', e')"
    "pending_admissions (tunnels e) \<noteq> 0" "encode_proxy_v2 (forward_addresses f) \<noteq> None"
  shows "sound_step sem limits (StreamPermitted f taken_under chosen) e phase' e'"
proof -
  let ?v = "VisitorRouted (forward_hostname f) taken_under chosen"
  obtain id r where r: "register_active_visitor_work (tunnels e) (forward_hostname f) taken_under chosen = Some (id, r)"
    using assms(3) unfolding register_active_visitor_work_def Let_def by (metis (full_types))
  obtain initial where initial: "encode_tunnel_stream (forward_addresses f) (forward_bytes f) = Some initial"
    using assms(4) by (auto simp: encode_tunnel_stream_def)
  show ?thesis
  proof (cases id)
    case None
    with r have "world_step limits (edge_world e ({#?v#} + W) R P)
        (edge_world (drop_active_stream sem (e\<lparr>tunnels := r\<rparr>)) ({#} + W) R P)" for W R P
      using visitor_refused [of "edge_world e ({#?v#} + W) R P" "forward_hostname f" taken_under chosen W r limits]
      by (simp add: edge_world_def drop_active_stream_def)
    with assms(2) r None show ?thesis
      by (auto simp: register_work_def sound_step_def drop_stream_counts [OF assms(1)])
  next
    case (Some i)
    with r have "world_step limits (edge_world e ({#?v#} + W) R P)
        (edge_world (log_route (forward_hostname f) Forwarded (e\<lparr>tunnels := r\<rparr>))
          ({#VisitorWorking i (selected_streams chosen)#} + W) R P)" for W R P
      using visitor_registers [of "edge_world e ({#?v#} + W) R P" "forward_hostname f" taken_under chosen W i r limits]
      by (simp add: edge_world_def)
    with assms(2) r Some initial show ?thesis by (auto simp: register_work_def sound_step_def)
  qed
qed

lemma finish_work_sound:
  assumes "semaphore_laws sem" "finish_work sem stream_id streams e = (phase', e')"
    "active_streams (tunnels e) streams \<noteq> 0"
  shows "sound_step sem limits (Relaying f initial stream_id streams) e phase' e'"
proof -
  let ?v = "VisitorWorking stream_id streams"
  obtain r where r: "active_visitor_work_drop (tunnels e) stream_id streams = Some r"
    using assms(3) by (auto simp: active_visitor_work_drop_def)
  then have "world_step limits (edge_world e ({#?v#} + W) R P)
      (edge_world (drop_active_stream sem (e\<lparr>tunnels := r\<rparr>)) ({#} + W) R P)" for W R P
    using visitor_finishes [of "edge_world e ({#?v#} + W) R P" stream_id streams W r limits]
    by (simp add: edge_world_def drop_active_stream_def)
  with assms(2) r show ?thesis
    by (auto simp: finish_work_def sound_step_def drop_stream_counts [OF assms(1)])
qed

section \<open>What a task carries\<close>

text \<open>
  The addresses, the ClientHello and the unread rest a task carries are those the intake derives from
  its socket, and a task that is routed is for another hostname than the Server's.
\<close>

definition forward_faithful :: "'acc visitor_intake \<Rightarrow> visitor \<Rightarrow> forward \<Rightarrow> bool" where
  "forward_faithful intake v f =
     (\<exists>hello rest. intake_addresses intake v = Some (forward_addresses f, rest) \<and>
        read_client_hello (intake_tls intake) (arriving_end v) rest = Inr (hello, forward_rest f) \<and>
        forward_hostname f = public_hostname hello \<and> forward_bytes f = buffered_bytes hello \<and>
        forward_hostname f \<noteq> intake_server_hostname intake)"

fun phase_faithful :: "'acc visitor_intake \<Rightarrow> visitor \<Rightarrow> visitor_phase \<Rightarrow> bool" where
  "phase_faithful intake v (ReadingHello a rest) = (intake_addresses intake v = Some (a, rest))"
| "phase_faithful intake v (HelloParsed hello a rest') =
     (\<exists>rest. intake_addresses intake v = Some (a, rest) \<and>
        read_client_hello (intake_tls intake) (arriving_end v) rest = Inr (hello, rest'))"
| "phase_faithful intake v (RouteAdmitted f) = forward_faithful intake v f"
| "phase_faithful intake v (RoutePool f taken_under p) = forward_faithful intake v f"
| "phase_faithful intake v (RouteSelected f taken_under chosen) = forward_faithful intake v f"
| "phase_faithful intake v (OpeningStream f taken_under chosen) = forward_faithful intake v f"
| "phase_faithful intake v (StreamOpened f taken_under chosen) = forward_faithful intake v f"
| "phase_faithful intake v (StreamPermitted f taken_under chosen) = forward_faithful intake v f"
| "phase_faithful intake v (Relaying f initial stream_id streams) =
     (forward_faithful intake v f \<and> encode_tunnel_stream (forward_addresses f) (forward_bytes f) = Some initial)"
| "phase_faithful intake v phase = True"

lemma drop_phases:
  "drop_visitor_permit sem w phase e = (phase', e') \<Longrightarrow> phase' \<in> {phase, VisitorPanicked}"
  "drop_route e = (phase', e') \<Longrightarrow> phase' \<in> {VisitorDone, VisitorPanicked}"
  by (auto simp: drop_visitor_permit_def drop_route_def split: option.splits)

lemma read_addresses_faithful:
  assumes "read_addresses_step sem intake env v event e = Some (phase', e')"
  shows "phase_faithful intake v phase'"
  using assms
  by (auto simp: read_addresses_step_def count_source_def dest!: drop_phases
           split: if_splits option.splits sum.splits)

lemma read_hello_faithful:
  assumes "read_hello_step sem intake v event a rest e = Some (phase', e')" "intake_addresses intake v = Some (a, rest)"
  shows "phase_faithful intake v phase'"
  using assms
  by (auto simp: read_hello_step_def dest!: drop_phases split: if_splits sum.splits)

lemma handle_parsed_faithful:
  assumes "handle_parsed intake env hello a rest' e = (phase', e')" "intake_addresses intake v = Some (a, rest)"
    "read_client_hello (intake_tls intake) (arriving_end v) rest = Inr (hello, rest')"
  shows "phase_faithful intake v phase'"
  using assms
  by (auto simp: handle_parsed_def serve_acme_tls_alpn_01_def Let_def forward_faithful_def
           split: if_splits option.splits)

lemma forwarding_faithful:
  assumes "forward_faithful intake v f"
  shows "look_up_pool f e = (phase', e') \<Longrightarrow> phase_faithful intake v phase'"
    "select_route env f taken_under p e = (phase', e') \<Longrightarrow> phase_faithful intake v phase'"
    "admit_stream_open sem env f taken_under chosen e = (phase', e') \<Longrightarrow> phase_faithful intake v phase'"
    "stream_open_failed sem f e = (phase', e') \<Longrightarrow> phase_faithful intake v phase'"
    "admit_active_stream sem env f taken_under chosen e = (phase', e') \<Longrightarrow> phase_faithful intake v phase'"
    "register_work sem f taken_under chosen e = (phase', e') \<Longrightarrow> phase_faithful intake v phase'"
    "finish_work sem stream_id streams e = (phase', e') \<Longrightarrow> phase_faithful intake v phase'"
  using assms
  by (auto simp: look_up_pool_def select_route_def admit_stream_open_def stream_open_failed_def
      admit_active_stream_def register_work_def finish_work_def
      dest!: drop_phases split: sum.splits option.splits prod.splits)

lemma visitor_step_faithful:
  assumes "visitor_step sem intake env v event phase e = Some (phase', e')" "phase_faithful intake v phase"
  shows "phase_faithful intake v phase'"
  using assms
  by (cases phase)
     (auto simp: on_event_def dest: read_addresses_faithful read_hello_faithful handle_parsed_faithful forwarding_faithful
           split: if_splits)

lemma intake_addresses_encodable:
  assumes "intake_addresses intake v = Some (a, rest)" "encode_proxy_v2 (direct_addresses v) \<noteq> None"
  shows "encode_proxy_v2 a \<noteq> None"
  using assms by (auto simp: intake_addresses_def split: if_splits sum.splits dest: read_proxy_v2_Inr)

section \<open>Invariant of the system\<close>

definition system_ok :: "'sem semaphore_ops \<Rightarrow> 'acc visitor_intake \<Rightarrow> server_admission_limits \<Rightarrow>
   authorization_snapshot \<Rightarrow> 'sem intake_system \<Rightarrow> bool" where
  "system_ok sem intake limits snap s \<longleftrightarrow>
     world_reachable limits snap (system_world s) \<and>
     visitor_counts sem limits (policy (shared s)) (over_tasks phase_visitor (tasks s))
       (over_tasks phase_open (tasks s)) (over_tasks phase_stream (tasks s)) \<and>
     (\<forall>v phase. (v, phase) \<in># tasks s \<longrightarrow>
        phase \<noteq> VisitorPanicked \<and> phase_faithful intake v phase \<and> encode_proxy_v2 (direct_addresses v) \<noteq> None)"

lemma phase_task_pending:
  assumes "work_counted (edge_world e ({#v#} + W) R P)" "awaiting_work v"
  shows "pending_admissions (tunnels e) \<noteq> 0"
  using assms by (simp add: work_counted_def edge_world_def)

lemma visitor_step_sound:
  assumes laws: "semaphore_laws sem"
    and step: "visitor_step sem intake env v event phase e = Some (phase', e')"
    and world: "work_counted (edge_world e (phase_task phase + W) R P)" "loads_counted (edge_world e (phase_task phase + W) R P)"
    and counts: "visitor_counts sem limits (policy e) (phase_visitor phase + V) n m"
    and task: "phase_faithful intake v phase" "encode_proxy_v2 (direct_addresses v) \<noteq> None"
  shows "sound_step sem limits phase e phase' e'"
proof (cases phase)
  case ReadingAddresses
  with step counts show ?thesis by (auto intro: read_addresses_sound [OF laws])
next
  case (ReadingHello a rest)
  with step counts show ?thesis by (auto intro: read_hello_sound [OF laws])
next
  case (HelloParsed hello a rest)
  with step show ?thesis by (auto intro: handle_parsed_sound)
next
  case (ServingChallenge bytes)
  with step show ?thesis by (auto simp: sound_step_def)
next
  case (RouteAdmitted f)
  with step phase_task_pending [of e "VisitorAdmitted (forward_hostname f)" W R P] world(1) show ?thesis
    by (auto intro: look_up_pool_sound)
next
  case (RoutePool f taken_under p)
  with step phase_task_pending [of e "VisitorPool (forward_hostname f) taken_under p" W R P] world(1) show ?thesis
    by (auto intro: select_route_sound)
next
  case (RouteSelected f taken_under chosen)
  with step phase_task_pending [of e "VisitorRouted (forward_hostname f) taken_under chosen" W R P] world(1) show ?thesis
    by (auto intro: admit_stream_open_sound [OF laws])
next
  case (OpeningStream f taken_under chosen)
  with step phase_task_pending [of e "VisitorRouted (forward_hostname f) taken_under chosen" W R P] world(1) show ?thesis
    by (cases "event = OpenSucceeded") (auto intro: stream_open_failed_sound [OF laws] sound_step_opened)
next
  case (StreamOpened f taken_under chosen)
  with step phase_task_pending [of e "VisitorRouted (forward_hostname f) taken_under chosen" W R P] world(1) show ?thesis
    by (auto intro: admit_active_stream_sound [OF laws])
next
  case (StreamPermitted f taken_under chosen)
  then have "encode_proxy_v2 (forward_addresses f) \<noteq> None"
    using task intake_addresses_encodable [of intake v "forward_addresses f"] unfolding forward_faithful_def
    by (metis phase_faithful.simps(8) forward_faithful_def)
  with StreamPermitted step phase_task_pending [of e "VisitorRouted (forward_hostname f) taken_under chosen" W R P] world(1)
  show ?thesis by (auto intro: register_work_sound [OF laws])
next
  case (Relaying f initial stream_id streams)
  then have "active_streams (tunnels e) streams \<noteq> 0" using world(2) by (simp add: loads_counted_def edge_world_def)
  with Relaying step show ?thesis by (auto intro: finish_work_sound [OF laws])
qed (use step in simp_all)

lemma system_start_ok:
  assumes "semaphore_laws sem"
  shows "system_ok sem intake limits snap (system_start sem limits snap)"
  using world_initial [of limits snap] assms
  by (simp add: system_ok_def system_start_def system_world_def edge_world_def visitor_counts_def
      server_admission_policy_new_def world_start_def)

lemma visitor_moves_ok:
  assumes laws: "semaphore_laws sem" and ok: "system_ok sem intake limits snap s"
    and tasks: "tasks s = add_mset (v, phase) T"
    and lock: "(\<exists>f. phase = RouteAdmitted f) \<longrightarrow> pools_unlocked (system_world s)"
    and step: "visitor_step sem intake env v event phase (shared s) = Some (phase', e)"
    and fresh: "next_stream_id (tunnels e) \<noteq> 0"
  shows "system_ok sem intake limits snap (s\<lparr>shared := e, tasks := add_mset (v, phase') T\<rparr>)"
proof -
  let ?W = "over_tasks phase_task T"
  have world: "system_world s = edge_world (shared s) (phase_task phase + ?W) (joining s) (replacing s)"
    by (simp add: system_world_def tasks)
  have reach: "world_reachable limits snap (edge_world (shared s) (phase_task phase + ?W) (joining s) (replacing s))"
    using ok by (simp add: system_ok_def world)
  have task: "phase_faithful intake v phase" "encode_proxy_v2 (direct_addresses v) \<noteq> None"
    using ok tasks by (auto simp: system_ok_def)
  have counts: "visitor_counts sem limits (policy (shared s)) (phase_visitor phase + over_tasks phase_visitor T)
      (phase_open phase + over_tasks phase_open T) (phase_stream phase + over_tasks phase_stream T)"
    using ok by (simp add: system_ok_def tasks)
  have sound: "sound_step sem limits phase (shared s) phase' e"
    using visitor_step_sound [OF laws step _ _ counts task] reachable_invariants [OF reach] by blast
  have "world_reachable limits snap (edge_world e (phase_task phase' + ?W) (joining s) (replacing s))"
  proof (cases "tunnels e = tunnels (shared s) \<and> phase_task phase' = phase_task phase")
    case True
    with reach show ?thesis by (simp add: edge_world_def)
  next
    case False
    moreover have "(\<exists>f. phase = RouteAdmitted f) \<longrightarrow> (\<forall>previous. replacing s \<noteq> ReplacementCommitted previous)"
      using lock by (simp add: world edge_world_def)
    ultimately have "world_step limits (edge_world (shared s) (phase_task phase + ?W) (joining s) (replacing s))
        (edge_world e (phase_task phase' + ?W) (joining s) (replacing s))"
      using sound unfolding sound_step_def by blast
    with reach show ?thesis by (rule world_next) (simp add: edge_world_def fresh)
  qed
  moreover have "visitor_counts sem limits (policy e) (phase_visitor phase' + over_tasks phase_visitor T)
      (phase_open phase' + over_tasks phase_open T) (phase_stream phase' + over_tasks phase_stream T)"
    using sound counts unfolding sound_step_def by blast
  moreover have "phase' \<noteq> VisitorPanicked" using sound by (simp add: sound_step_def)
  moreover have "phase_faithful intake v phase'" by (rule visitor_step_faithful [OF step task(1)])
  ultimately show ?thesis using ok task(2) by (auto simp: system_ok_def system_world_def tasks)
qed

lemma accepted_ok:
  assumes laws: "semaphore_laws sem" and ok: "system_ok sem intake limits snap s"
    and acc: "accepted_task sem env (shared s) = (Some phase, e)" and v: "encode_proxy_v2 (direct_addresses v) \<noteq> None"
  shows "system_ok sem intake limits snap (s\<lparr>shared := e, tasks := add_mset (v, phase) (tasks s)\<rparr>)"
proof -
  obtain p where p: "try_admit_visitor_global sem (policy (shared s)) = Inr p" "phase = ReadingAddresses"
    "e = recovered [VisitorsGlobal, VisitorSource] ((shared s)\<lparr>policy := p\<rparr>)"
    using acc by (auto simp: accepted_task_def split: sum.splits)
  have "system_world (s\<lparr>shared := e, tasks := add_mset (v, phase) (tasks s)\<rparr>) = system_world s"
    by (simp add: system_world_def edge_world_def p(2,3))
  moreover have "visitor_counts sem limits (policy e) (add_mset None (over_tasks phase_visitor (tasks s)))
      (over_tasks phase_open (tasks s)) (over_tasks phase_stream (tasks s))"
    using admit_counts(1) [OF laws _ p(1)] ok by (simp add: p(3) system_ok_def)
  ultimately show ?thesis using ok v by (auto simp: system_ok_def p(2))
qed

lemma turned_away_ok:
  assumes "system_ok sem intake limits snap s" "accepted_task sem env (shared s) = (None, e)"
  shows "system_ok sem intake limits snap (s\<lparr>shared := e\<rparr>)"
proof -
  obtain rejected where e: "e = saturated env rejected (shared s)"
    using assms(2) by (auto simp: accepted_task_def split: sum.splits)
  have "system_world (s\<lparr>shared := e\<rparr>) = system_world s" by (simp add: system_world_def edge_world_def e)
  with assms(1) show ?thesis by (simp add: system_ok_def e)
qed

lemma registry_moves_ok:
  assumes "system_ok sem intake limits snap s" "world_step limits (system_world s) w" "visitors w = visitors (system_world s)"
    "next_stream_id (registry w) \<noteq> 0"
  shows "system_ok sem intake limits snap
    (s\<lparr>shared := (shared s)\<lparr>tunnels := registry w\<rparr>, joining := registrations w, replacing := replacement w\<rparr>)"
    (is "system_ok _ _ _ _ ?s")
proof -
  have "system_world ?s = w" using assms(3) by (simp add: system_world_def edge_world_def)
  moreover have "world_reachable limits snap w" using assms by (auto simp: system_ok_def intro: world_next)
  ultimately show ?thesis using assms(1) by (simp add: system_ok_def)
qed

lemma other_admission_ok:
  assumes "system_ok sem intake limits snap s"
  shows "system_ok sem intake limits snap
    (s\<lparr>shared := (shared s)\<lparr>policy := (policy (shared s))\<lparr>pending_handshakes := h, tunnel_connections := t, log_gate := g\<rparr>\<rparr>\<rparr>)"
    (is "system_ok _ _ _ _ ?s")
proof -
  have "system_world ?s = system_world s" by (simp add: system_world_def edge_world_def)
  with assms show ?thesis by (simp add: system_ok_def visitor_counts_def)
qed

lemma intake_reachable_ok:
  assumes "semaphore_laws sem" "intake_reachable sem intake limits snap s"
  shows "system_ok sem intake limits snap s"
  using assms(2)
proof induction
  case intake_initial
  show ?case by (rule system_start_ok [OF assms(1)])
next
  case (intake_next s s')
  from intake_next.hyps(2,3) show ?case
  proof (induction rule: intake_step.cases)
    case (visitor_accepted env u phase e v)
    with intake_next.IH accepted_ok [OF assms(1)] show ?case by blast
  next
    case (visitor_turned_away env u e)
    with intake_next.IH turned_away_ok show ?case by blast
  next
    case (visitor_moves u v phase T env event phase' e)
    from visitor_moves(2,6) have "next_stream_id (tunnels e) \<noteq> 0" by simp
    with visitor_moves intake_next.IH visitor_moves_ok [OF assms(1)] show ?case by blast
  next
    case (registry_moves u w)
    from registry_moves(2,5) have "next_stream_id (registry w) \<noteq> 0" by simp
    with registry_moves intake_next.IH registry_moves_ok show ?case by blast
  next
    case (other_admission u h t g)
    with other_admission_ok [OF intake_next.IH] show ?case by simp
  qed
qed

lemma over_tasks_done:
  assumes "\<forall>v phase. (v, phase) \<in># T \<longrightarrow> phase = VisitorDone" "f VisitorDone = 0"
  shows "over_tasks f T = 0"
  using assms(1)
proof (induction T)
  case (add x T)
  then show ?case using assms(2) by (cases x) (metis add.right_neutral over_tasks_simps(2) union_single_eq_member insert_iff set_mset_add_mset_insert)
qed simp

section \<open>Progress\<close>

text \<open>How many steps a task can still take.\<close>

fun steps_left :: "visitor_phase \<Rightarrow> nat" where
  "steps_left ReadingAddresses = 10"
| "steps_left (ReadingHello a rest) = 9"
| "steps_left (HelloParsed hello a rest) = 8"
| "steps_left (RouteAdmitted f) = 7"
| "steps_left (RoutePool f taken_under p) = 6"
| "steps_left (RouteSelected f taken_under chosen) = 5"
| "steps_left (OpeningStream f taken_under chosen) = 4"
| "steps_left (StreamOpened f taken_under chosen) = 3"
| "steps_left (StreamPermitted f taken_under chosen) = 2"
| "steps_left (Relaying f initial stream_id streams) = 1"
| "steps_left (ServingChallenge bytes) = 1"
| "steps_left VisitorDone = 0"
| "steps_left VisitorPanicked = 0"

lemma read_steps_decrease:
  "read_addresses_step sem intake env v event e = Some (phase', e') \<Longrightarrow> steps_left phase' < 10"
  "read_hello_step sem intake v event a rest e = Some (phase', e') \<Longrightarrow> steps_left phase' < 9"
  by (auto simp: read_addresses_step_def read_hello_step_def count_source_def dest!: drop_phases
           split: if_splits option.splits sum.splits)

lemma forward_steps_decrease:
  "handle_parsed intake env hello a rest e = (phase', e') \<Longrightarrow> steps_left phase' < 8"
  "look_up_pool f e = (phase', e') \<Longrightarrow> steps_left phase' < 7"
  "select_route env f taken_under p e = (phase', e') \<Longrightarrow> steps_left phase' < 6"
  "admit_stream_open sem env f taken_under chosen e = (phase', e') \<Longrightarrow> steps_left phase' < 5"
  "stream_open_failed sem f e = (phase', e') \<Longrightarrow> steps_left phase' < 4"
  "admit_active_stream sem env f taken_under chosen e = (phase', e') \<Longrightarrow> steps_left phase' < 3"
  "register_work sem f taken_under chosen e = (phase', e') \<Longrightarrow> steps_left phase' < 2"
  "finish_work sem stream_id streams e = (phase', e') \<Longrightarrow> steps_left phase' < 1"
  by (auto simp: handle_parsed_def serve_acme_tls_alpn_01_def Let_def look_up_pool_def select_route_def
      admit_stream_open_def stream_open_failed_def admit_active_stream_def register_work_def finish_work_def
      dest!: drop_phases split: if_splits sum.splits option.splits prod.splits)

lemma visitor_step_decreases:
  assumes "visitor_step sem intake env v event phase e = Some (phase', e')"
  shows "steps_left phase' < steps_left phase"
  using assms
  by (cases phase)
     (auto split: if_splits dest: read_steps_decrease forward_steps_decrease forward_steps_decrease [unfolded less_one])

lemma visitor_step_enabled:
  assumes "phase \<noteq> VisitorDone" "phase \<noteq> VisitorPanicked"
  shows "\<exists>event. visitor_step sem intake env v event phase e \<noteq> None"
proof -
  have "visitor_step sem intake env v Continue phase e \<noteq> None \<or>
      visitor_step sem intake env v RelayEnded phase e \<noteq> None \<or>
      visitor_step sem intake env v OpenFailed phase e \<noteq> None"
    using assms by (cases phase) (simp_all add: read_addresses_step_def read_hello_step_def on_event_def)
  then show ?thesis by blast
qed

text \<open>The phases one task goes through, whatever the rest of the Server does between its steps.\<close>

inductive task_run :: "'sem semaphore_ops \<Rightarrow> 'acc visitor_intake \<Rightarrow> visitor \<Rightarrow> visitor_phase \<Rightarrow> nat \<Rightarrow> visitor_phase \<Rightarrow> bool"
  for sem intake v where
  none: "task_run sem intake v phase 0 phase"
| more: "visitor_step sem intake env v event phase (e :: 'sem edge) = Some (phase', e') \<Longrightarrow>
     task_run sem intake v phase' n ending \<Longrightarrow> task_run sem intake v phase (Suc n) ending"

lemma task_run_bound: "task_run sem intake v phase n ending \<Longrightarrow> n + steps_left ending \<le> steps_left phase"
  by (induction rule: task_run.induct) (auto dest!: visitor_step_decreases)

section \<open>Properties\<close>

text \<open>
  C14: the Visitor tasks of a Server, under every interleaving with each other, with replacements of
  the authorization and with connections that come and go, are a run of the registry, so its theorems
  hold of them. None panics; Visitors before routing, also per source, pending stream opens and routed
  streams stay within their limits; and when every task is done, every permit is back and the
  registry has no outstanding Visitor work.
\<close>

theorem visitor_tasks_sound:
  assumes "semaphore_laws sem" "intake_reachable sem intake limits snap s"
  shows "world_reachable limits snap (system_world s) \<and>
    (\<forall>v phase. (v, phase) \<in># tasks s \<longrightarrow> phase \<noteq> VisitorPanicked \<and> phase_faithful intake v phase) \<and>
    size (over_tasks phase_visitor (tasks s)) \<le> max_pending_visitors limits \<and>
    (\<forall>a. count (known_sources (over_tasks phase_visitor (tasks s))) a \<le> max_pending_visitors_per_source limits) \<and>
    over_tasks phase_open (tasks s) \<le> max_pending_stream_opens limits \<and>
    over_tasks phase_stream (tasks s) \<le> max_active_routed_streams limits \<and>
    ((\<forall>v phase. (v, phase) \<in># tasks s \<longrightarrow> phase = VisitorDone) \<longrightarrow>
       sem_available sem (pending_visitors (policy (shared s))) = max_pending_visitors limits \<and>
       pending_visitors_by_source (policy (shared s)) = Map.empty \<and>
       sem_available sem (pending_stream_opens (policy (shared s))) = max_pending_stream_opens limits \<and>
       sem_available sem (active_routed_streams (policy (shared s))) = max_active_routed_streams limits \<and>
       \<not> has_outstanding_visitor_work (tunnels (shared s)))"
proof -
  have ok: "system_ok sem intake limits snap s" by (rule intake_reachable_ok [OF assms])
  have "\<not> has_outstanding_visitor_work (tunnels (shared s))" if "\<forall>v phase. (v, phase) \<in># tasks s \<longrightarrow> phase = VisitorDone"
  proof -
    have "work_counted (system_world s)" using ok reachable_invariants by (auto simp: system_ok_def)
    then show ?thesis using over_tasks_done [OF that, of phase_task]
      by (simp add: work_counted_def system_world_def edge_world_def has_outstanding_visitor_work_def)
  qed
  moreover have "counts {#} = (Map.empty :: ip_addr \<rightharpoonup> nat)" by simp
  ultimately show ?thesis
    using ok over_tasks_done [of "tasks s" phase_visitor] over_tasks_done [of "tasks s" phase_open] over_tasks_done [of "tasks s" phase_stream]
    by (auto simp: system_ok_def visitor_counts_def)
qed

text \<open>An accepted Visitor for the witnesses.\<close>

definition example_visitor :: visitor where
  "example_visitor = \<lparr>direct_addresses = example_addresses, arriving = [[22, 3], [1, 0], [7]], arriving_end = Eof\<rparr>"

definition example_intake :: "u8 list visitor_intake" where
  "example_intake = \<lparr>intake_server_hostname = ''s.dev'', has_public_tls_config = False, expects_proxy_header = False,
     visitor_proxy_trusted_networks = [], has_certificate_controller = False, intake_tls = example_tls\<rparr>"

definition example_surroundings :: surroundings where
  "example_surroundings = \<lparr>clock = 0, accepts = (\<lambda>_. True), certificate_serving = True\<rparr>"

lemma example_accepted:
  "\<exists>s. intake_reachable nat_semaphore example_intake default_limits example_snapshot s \<and>
     tasks s = {#(example_visitor, ReadingAddresses)#}"
proof -
  let ?s = "system_start nat_semaphore default_limits example_snapshot"
  obtain e where e: "accepted_task nat_semaphore example_surroundings (shared ?s) = (Some ReadingAddresses, e)"
    "tunnels e = tunnels (shared ?s)"
    by (simp add: accepted_task_def try_admit_visitor_global_def try_admit_def system_start_def nat_semaphore_def
        server_admission_policy_new_def default_limits_def)
  have "encode_proxy_v2 (direct_addresses example_visitor) \<noteq> None"
    by (simp add: example_visitor_def encode_example)
  then have "intake_step nat_semaphore example_intake default_limits ?s
      (?s\<lparr>shared := e, tasks := add_mset (example_visitor, ReadingAddresses) (tasks ?s)\<rparr>)"
    by (rule visitor_accepted [OF e(1)])
  moreover have "next_stream_id (tunnels e) \<noteq> 0"
    by (simp add: e(2) system_start_def world_start_def from_authorization_with_admission_def Let_def)
  ultimately have "intake_reachable nat_semaphore example_intake default_limits example_snapshot
      (?s\<lparr>shared := e, tasks := add_mset (example_visitor, ReadingAddresses) (tasks ?s)\<rparr>)"
    by (intro intake_next [OF intake_initial]) simp_all
  then show ?thesis by (intro exI conjI) (assumption, simp add: system_start_def)
qed

theorem visitor_tasks_sound_witness:
  "\<exists>s :: nat intake_system. tasks s = {#(example_visitor, ReadingAddresses)#} \<and>
     world_reachable default_limits example_snapshot (system_world s) \<and>
     size (over_tasks phase_visitor (tasks s)) = 1"
proof -
  obtain s where s: "intake_reachable nat_semaphore example_intake default_limits example_snapshot s"
    "tasks s = {#(example_visitor, ReadingAddresses)#}" using example_accepted by blast
  from visitor_tasks_sound [OF nat_semaphore_laws s(1)] s(2) show ?thesis by (intro exI [of _ s]) simp
qed



end
