(* ===== verification/End_To_End.thy ===== *)
theory End_To_End
  imports Client_Stream Visitor_Intake_Properties
begin

text \<open>
  From the Visitor's socket on the Server to the backend behind the Client: the intake of
  \<open>src/src/server/visitor_stream.rs\<close>, the framing, the relay of \<open>src/src/proxy.rs\<close> and the handler of
  \<open>src/src/client/tunnel_stream.rs\<close> composed.
\<close>

text \<open>
  What both roles rely on in the TLS parser: the hostname of a ClientHello depends on the bytes of the
  stream, not on how they arrive.
\<close>

definition hello_stable :: "'acc tls_acceptor \<Rightarrow> bool" where
  "hello_stable tls \<longleftrightarrow>
     (\<forall>ending ending' reader reader' hello hello' rest rest'.
        concat reader = concat reader' \<and> read_client_hello tls ending reader = Inr (hello, rest) \<and>
        read_client_hello tls ending' reader' = Inr (hello', rest') \<longrightarrow>
        public_hostname hello = public_hostname hello')"

lemma intake_addresses_header:
  assumes "intake_addresses intake v = Some (a, rest)"
  obtains header where "concat (arriving v) = header @ concat rest" "\<not> expects_proxy_header intake \<longrightarrow> header = []"
  using assms that
  by (auto simp: intake_addresses_def split: if_splits sum.splits dest!: read_proxy_v2_Inr)

lemma read_client_hello_split:
  "read_client_hello tls ending reader = Inr (hello, rest) \<Longrightarrow> concat reader = buffered_bytes hello @ concat rest"
  using read_client_hello_loop_Inr unfolding read_client_hello_def by fastforce

lemma relay_half_all:
  "fst (relay_half initial segs ending None works) = initial @ concat segs"
  by (simp add: relay_half_def Let_def)

lemma handle_passthrough_Some:
  assumes "encode_proxy_v2 a \<noteq> None"
  shows "\<exists>h. handle_passthrough env service a bytes rest = Some h \<and> handled_tls h = None \<and>
    (\<forall>address first rest'. handled_backend h = Some (address, first) \<and> handled_relay h = Some (RawRelay rest') \<longrightarrow>
       address = backend_address service \<and> rest' = rest \<and> (\<exists>header. proxy_header service a = Some header \<and> first = header @ bytes))"
  using assms
  by (auto simp: handle_passthrough_def proxy_header_def rejected_stream_def Let_def split: sum.splits)

lemma handle_terminate_Some:
  assumes "encode_proxy_v2 a \<noteq> None"
  shows "\<exists>h. handle_terminate handler env service hello a rest = Some h \<and>
    (\<forall>bytes. handled_tls h = Some bytes \<longrightarrow> bytes = buffered_bytes hello @ concat rest) \<and>
    (\<forall>rest'. handled_relay h \<noteq> Some (RawRelay rest'))"
  using assms
  by (cases "write_backend_with_timeout env")
     (auto simp: handle_terminate_def handle_acme_tls_alpn_challenge_def finish_terminate_def rejected_stream_def Let_def
           split: sum.splits timed.splits)

text \<open>What the Client does with a stream, in terms of the addresses and bytes it read from it.\<close>

definition relays_to :: "'acc stream_handler \<Rightarrow> handled \<Rightarrow> public_hostname \<Rightarrow> visitor_tcp_addresses \<Rightarrow> u8 list \<Rightarrow> bool" where
  "relays_to handler h hostname a bytes \<longleftrightarrow>
     (\<forall>address first rest works ending. handled_backend h = Some (address, first) \<and> handled_relay h = Some (RawRelay rest) \<longrightarrow>
        (\<exists>service header. service \<in> set (handler_services handler) \<and> claims service hostname \<and>
           address = backend_address service \<and> proxy_header service a = Some header \<and>
           first @ fst (relay_half [] rest ending None works) = header @ bytes)) \<and>
     (\<forall>tls_bytes. handled_tls h = Some tls_bytes \<longrightarrow> tls_bytes = bytes)"

lemma rejected_stream_relays: "relays_to handler (rejected_stream failure routes) hostname a bytes"
  by (simp add: relays_to_def rejected_stream_def)

lemma handle_stream_rejects:
  assumes "\<not> (intake_in_time env \<and> (\<exists>d r. read_tunnel_stream (handler_tls handler) ending stream = Inr (d, r)))"
  shows "\<exists>failure. handle_stream handler env ending stream = Some (rejected_stream failure [])"
  using assms by (cases "read_tunnel_stream (handler_tls handler) ending stream") (auto simp: handle_stream_def)

lemma handle_stream_relays:
  assumes "intake_in_time env" "read_tunnel_stream (handler_tls handler) ending stream = Inr (d, r)"
    "encode_proxy_v2 (addresses d) \<noteq> None"
  shows "\<exists>h. handle_stream handler env ending stream = Some h \<and>
    relays_to handler h (public_hostname (client_hello d)) (addresses d) (buffered_bytes (client_hello d) @ concat r)"
proof (cases "select_service (handler_services handler) (public_hostname (client_hello d))")
  case None
  with assms show ?thesis by (simp add: handle_stream_def Let_def relays_to_def)
next
  case (Some service)
  show ?thesis
  proof (cases "tls_mode service = Terminate")
    case True
    with assms Some have "handle_stream handler env ending stream =
        handle_terminate handler env service (client_hello d) (addresses d) r" by (simp add: handle_stream_def Let_def)
    with handle_terminate_Some [OF assms(3), of handler env service "client_hello d" r] show ?thesis
      unfolding relays_to_def by metis
  next
    case False
    with assms Some have "handle_stream handler env ending stream =
        handle_passthrough env service (addresses d) (buffered_bytes (client_hello d)) r" by (simp add: handle_stream_def Let_def)
    moreover obtain h where h: "handle_passthrough env service (addresses d) (buffered_bytes (client_hello d)) r = Some h"
      "handled_tls h = None" "\<And>address first rest'. handled_backend h = Some (address, first) \<Longrightarrow>
         handled_relay h = Some (RawRelay rest') \<Longrightarrow> address = backend_address service \<and> rest' = r \<and>
         (\<exists>header. proxy_header service (addresses d) = Some header \<and> first = header @ buffered_bytes (client_hello d))"
      using handle_passthrough_Some [OF assms(3)] by metis
    moreover have "relays_to handler h (public_hostname (client_hello d)) (addresses d) (buffered_bytes (client_hello d) @ concat r)"
      using h(2,3) select_service_claims [OF Some] unfolding relays_to_def relay_half_all by (metis append.assoc append_Nil option.discI)
    ultimately show ?thesis by simp
  qed
qed


definition example_handler :: "u8 list stream_handler" where
  "example_handler = \<lparr>handler_services = example_services, default_server_config = (\<lambda>_. False),
     acme_challenge_server_config = (\<lambda>_. False), handler_tls = example_tls\<rparr>"

definition example_stream_surroundings :: stream_surroundings where
  "example_stream_surroundings = \<lparr>intake_in_time = True, connecting = (\<lambda>_. InTime), initial_write = InTime, handshake = InTime\<rparr>"

definition example_forward :: forward where
  "example_forward = \<lparr>forward_hostname = ''a.dev'', forward_bytes = [22, 3, 1, 0], forward_addresses = example_addresses,
     forward_rest = [[7]]\<rparr>"

lemma example_hello_hostname:
  "read_client_hello_loop tls ending acceptor taken reader = Inr (h, rest) \<Longrightarrow> tls = example_tls \<Longrightarrow>
     public_hostname h = ''a.dev''"
proof (induction tls ending acceptor taken reader rule: read_client_hello_loop.induct)
  case (1 tls ending acceptor taken reader)
  obtain chunk reader1 where r: "read_some READ_BUFFER reader = (chunk, reader1)" by fastforce
  from "1.prems" r have guards: "\<not> (reader = [] \<and> ending = Byte_Stream.Failed)" "chunk \<noteq> []"
      "\<not> length (taken @ chunk) > CLIENT_HELLO_BUFFER_LIMIT"
    by (subst (asm) read_client_hello_loop.simps, auto simp: Let_def split: if_splits)+
  show ?case
  proof (cases "length (acceptor @ chunk) < 3")
    case True
    with "1.prems" r guards have "read_client_hello_loop tls ending (acceptor @ chunk) (taken @ chunk) reader1 = Inr (h, rest)"
      by (subst (asm) read_client_hello_loop.simps) (simp add: Let_def example_tls_def)
    with "1.IH" [OF guards(1) r [symmetric] refl guards(2) refl guards(3), of "acceptor @ chunk" "acceptor @ chunk"] True "1.prems"(2)
    show ?thesis by (simp add: example_tls_def)
  next
    case False
    with "1.prems" r guards have "finish_client_hello (taken @ chunk) (Some ''a.dev'') None = Inr h"
      by (subst (asm) read_client_hello_loop.simps) (auto simp: Let_def example_tls_def result_simps)
    then show ?thesis by (auto simp: finish_client_hello_def validate_example)
  qed
qed

lemma example_tls_stable: "hello_stable example_tls"
  unfolding hello_stable_def read_client_hello_def using example_hello_hostname by metis

lemma example_relaying: "phase_faithful example_intake example_visitor (Relaying example_forward (example_header @ [22, 3, 1, 0]) 1 0)"
  by (auto simp: forward_faithful_def example_intake_def example_visitor_def example_forward_def intake_addresses_def
      read_example_hello encode_tunnel_stream_def encode_example example_hello_def intro!: exI [of _ example_hello])

lemma example_handled:
  "handle_stream example_handler example_stream_surroundings Eof [example_header, [22, 3, 1, 0], [7]] =
     Some \<lparr>handled_result = Inr (), handled_log = [RoutePassthrough ''h:1''],
       handled_backend = Some (''h:1'', example_header @ [22, 3, 1, 0]), handled_tls = None, handled_relay = Some (RawRelay [[7]])\<rparr>"
proof -
  have "read_proxy_v2 [example_header, [22, 3, 1, 0], [7]] = Inr (example_addresses, [[22, 3, 1, 0], [7]])"
    by (simp add: read_proxy_v2_def example_header_def example_addresses_def SIGNATURE_def
      MAX_PROXY_V2_HEADER_LEN_def decode_payload_def byte_range_def u16_from_def)
  then have "read_tunnel_stream example_tls Eof [example_header, [22, 3, 1, 0], [7]] =
      Inr (\<lparr>addresses = example_addresses, client_hello = example_hello\<rparr>, [[7]])"
    by (simp add: read_tunnel_stream_def read_client_hello_def read_client_hello_loop.simps example_tls_def
      example_hello_def READ_BUFFER_def CLIENT_HELLO_BUFFER_LIMIT_def finish_client_hello_def validate_example)
  then show ?thesis
    by (simp add: handle_stream_def example_handler_def example_stream_surroundings_def example_hello_def example_services_def
      select_service_def handle_passthrough_def connect_backend_def write_backend_with_timeout_def proxy_header_def encode_example Let_def)
qed


end
