(* ===== verification/Server_Loop.thy ===== *)
theory Server_Loop
  imports Visitor_Intake
begin

text \<open>
  The Server's accept loop and its shutdown (\<open>src/src/server/mod.rs\<close>): the listeners served in
  rotation, the process-wide connection numbers (\<open>src/src/server_connection_log.rs\<close>), the admission of
  Visitors and Tunnel handshakes, and the way from the end of the loop to the result of \<open>serve\<close>.
\<close>

section \<open>Rotating listeners\<close>

text \<open>
  One poll over \<open>n\<close> listeners, of which those in \<open>ready\<close> have a connection waiting: the index that is
  accepted and the next cursor.
\<close>

definition accept_public_connections :: "nat \<Rightarrow> (nat \<Rightarrow> bool) \<Rightarrow> nat \<Rightarrow> (nat \<times> nat) option" where
  "accept_public_connections n ready cursor =
     map_option (\<lambda>offset. ((cursor + offset) mod n, ((cursor + offset) mod n + 1) mod n))
       (find (\<lambda>offset. ready ((cursor + offset) mod n)) [0..<n])"

text \<open>The endpoints: \<open>select_all\<close> over the list rotated to the cursor gives the first ready position.\<close>

definition accept_tunnel_connections :: "nat \<Rightarrow> (nat \<Rightarrow> bool) \<Rightarrow> nat \<Rightarrow> (nat \<times> nat) option" where
  "accept_tunnel_connections n ready cursor =
     (let rotated = rotate cursor [0..<n]
      in map_option (\<lambda>index. (rotated ! index, (cursor + index + 1) mod n))
           (find (\<lambda>index. ready (rotated ! index)) [0..<n]))"

section \<open>Connection numbers\<close>

text \<open>
  \<open>ConnectionLogContext::allocate\<close> by any number of tasks over one atomic counter: a task loads the
  counter, then exchanges it, which may also fail spuriously and gives back the value it saw.
\<close>

datatype allocation_pc = NotStarted | Holding u64 | Allocated u64 | IdsExhausted

record id_counter =
  last_connection_id :: u64
  allocations :: "nat \<Rightarrow> allocation_pc"

definition after_previous :: "u64 \<Rightarrow> allocation_pc" where
  "after_previous previous = (if previous = - 1 then IdsExhausted else Holding previous)"

inductive id_step :: "id_counter \<Rightarrow> id_counter \<Rightarrow> bool" where
  id_load: "allocations c t = NotStarted \<Longrightarrow>
     id_step c (c\<lparr>allocations := (allocations c)(t := after_previous (last_connection_id c))\<rparr>)"
| id_exchange: "allocations c t = Holding previous \<Longrightarrow> last_connection_id c = previous \<Longrightarrow>
     id_step c \<lparr>last_connection_id = previous + 1, allocations = (allocations c)(t := Allocated (previous + 1))\<rparr>"
| id_retry: "allocations c t = Holding previous \<Longrightarrow>
     id_step c (c\<lparr>allocations := (allocations c)(t := after_previous (last_connection_id c))\<rparr>)"

inductive id_reachable :: "id_counter \<Rightarrow> bool" where
  id_initial: "id_reachable \<lparr>last_connection_id = 0, allocations = (\<lambda>_. NotStarted)\<rparr>"
| id_next: "id_reachable c \<Longrightarrow> id_step c d \<Longrightarrow> id_reachable d"

text \<open>A call without contention.\<close>

definition allocate_connection_id :: "u64 \<Rightarrow> u64 option" where
  "allocate_connection_id previous = (if previous = - 1 then None else Some (previous + 1))"

section \<open>Events of the loop\<close>

datatype 'v server_event =
    FatalEvent | ShutdownEvent | VisitorEvent 'v | TunnelEvent "nat option"

text \<open>The biased selection: a fatal failure first, then shutdown, then Visitors, then Tunnels.\<close>

definition next_server_event ::
  "bool \<Rightarrow> bool \<Rightarrow> 'v option \<Rightarrow> nat option option \<Rightarrow> 'v server_event option" where
  "next_server_event fatal shutdown visitor tunnel =
     (if fatal then Some FatalEvent
      else if shutdown then Some ShutdownEvent
      else case visitor of
             Some v \<Rightarrow> Some (VisitorEvent v)
           | None \<Rightarrow> map_option TunnelEvent tunnel)"

datatype serve_error = FatalAfterCommit | AcceptFailed io_error | ConnectionIdsExhausted

record 'sem accept_state =
  accept_edge :: "'sem edge"
  accept_backoff_state :: accept_backoff
  accept_last_id :: u64
  accept_tasks :: "visitor_phase list"

text \<open>
  One accepted or failed public socket: \<open>Inr\<close> the instant before which no further Visitor is
  accepted, \<open>Inl\<close> the error that ends the loop.
\<close>

definition process_public_accept ::
  "'sem semaphore_ops \<Rightarrow> surroundings \<Rightarrow> (io_error, unit) result \<Rightarrow> 'sem accept_state \<Rightarrow>
   (serve_error, nat option) result \<times> 'sem accept_state" where
  "process_public_accept sem env accepted s =
     (case accepted of
        Inr _ \<Rightarrow>
          (let s = s\<lparr>accept_backoff_state := snd (on_success (accept_backoff_state s))\<rparr>
           in case allocate_connection_id (accept_last_id s) of
                None \<Rightarrow> (Inl ConnectionIdsExhausted, s)
              | Some connection_id \<Rightarrow>
                  (let (task, e) = accepted_task sem env (accept_edge s)
                   in (Inr None,
                       s\<lparr>accept_last_id := connection_id, accept_edge := e,
                         accept_tasks := accept_tasks s @ (case task of None \<Rightarrow> [] | Some phase \<Rightarrow> [phase])\<rparr>)))
      | Inl error \<Rightarrow>
          (case on_error (accept_backoff_state s) error of
             (None, backoff) \<Rightarrow> (Inl (AcceptFailed error), s)
           | (Some delay, backoff) \<Rightarrow>
               (let e = accept_edge s;
                    (logged, gate) = should_log (log_gate (policy e)) PublicAcceptRetry (clock env)
                in (Inr (Some (clock env + delay * 1000000)),
                    s\<lparr>accept_backoff_state := backoff, accept_edge := e\<lparr>policy := (policy e)\<lparr>log_gate := gate\<rparr>\<rparr>\<rparr>))))"

section \<open>Tunnel handshakes\<close>

text \<open>Whether the handshake was spawned; a refused one is reported as saturation.\<close>

definition admit_tunnel_handshake ::
  "'sem semaphore_ops \<Rightarrow> surroundings \<Rightarrow> 'sem edge \<Rightarrow> bool \<times> 'sem edge" where
  "admit_tunnel_handshake sem env e =
     (case try_admit_handshake sem (policy e) of
        Inl rejected \<Rightarrow> (False, saturated env rejected e)
      | Inr p \<Rightarrow> (True, recovered [Handshakes] (e\<lparr>policy := p\<rparr>)))"

definition report_tunnel_handshake_failure :: "surroundings \<Rightarrow> 'sem edge \<Rightarrow> bool \<times> 'sem edge" where
  "report_tunnel_handshake_failure env e =
     (let (logged, gate) = should_log (log_gate (policy e)) TunnelHandshakeFailure (clock env)
      in (logged, e\<lparr>policy := (policy e)\<lparr>log_gate := gate\<rparr>\<rparr>))"

text \<open>
  The end of a handshake, \<open>None\<close> when it failed or timed out. Registering uses the admission
  counters the registry shares with the policy.
\<close>

definition register_tunnel_connection ::
  "'sem semaphore_ops \<Rightarrow> surroundings \<Rightarrow> server_connection option \<Rightarrow> 'sem edge \<Rightarrow> 'sem edge" where
  "register_tunnel_connection sem env handshake e =
     (let e = e\<lparr>policy := (policy e)\<lparr>pending_handshakes := sem_release sem (pending_handshakes (policy e))\<rparr>\<rparr>
      in case handshake of
           None \<Rightarrow> snd (report_tunnel_handshake_failure env e)
         | Some connection \<Rightarrow>
             (let (_, gate) = take_recovered (log_gate (policy e)) TunnelHandshakeFailure;
                  e = e\<lparr>policy := (policy e)\<lparr>log_gate := gate\<rparr>\<rparr>;
                  (outcome, r) = register_connection (policy_limits (policy e)) (tunnels e) connection;
                  e = e\<lparr>tunnels := r\<rparr>
              in case outcome of
                   Rejected rejected \<Rightarrow> saturated env rejected e
                 | Registered \<Rightarrow>
                     recovered [TunnelConnectionsGlobal, TunnelConnectionsPerTunnel, TunnelConnectionsPerIdentity] e
                 | Closed \<Rightarrow> e))"

section \<open>Serving\<close>

datatype serve_phase =
    Accepting | StoppingHandshakes | AwaitingQuiescence | ClosingConnections | FlushingClose | ServeReturned | ServePanicked

record 'sem server_run =
  run_state :: "'sem accept_state"
  run_shutdown :: orderly_shutdown
  accept_not_before :: "nat option"
  handshakes :: nat
  readiness_probe_open :: bool
  listeners_open :: bool
  terminal_error :: "serve_error option"
  exit_mode :: "ShutdownMode option"
  serve_phase :: serve_phase

definition run_registry :: "'sem server_run \<Rightarrow> tunnel_registry" where
  "run_registry s = tunnels (accept_edge (run_state s))"

definition set_registry :: "tunnel_registry \<Rightarrow> 'sem server_run \<Rightarrow> 'sem server_run" where
  "set_registry r s = s\<lparr>run_state := (run_state s)\<lparr>accept_edge := (accept_edge (run_state s))\<lparr>tunnels := r\<rparr>\<rparr>\<rparr>"

text \<open>
  The end of the accept loop: no new work, readiness and listeners closed; then the handshakes are
  aborted, and a graceful shutdown with time left waits for quiescence.
\<close>

definition leave_loop :: "'sem server_run \<Rightarrow> 'sem server_run" where
  "leave_loop s =
     (case shutdown_mode (run_shutdown s) of
        None \<Rightarrow> s\<lparr>serve_phase := ServePanicked\<rparr>
      | Some mode \<Rightarrow>
          (set_registry (stop_accepting_new_work (run_registry s)) s)\<lparr>readiness_probe_open := False,
             listeners_open := False, exit_mode := Some mode, serve_phase := StoppingHandshakes\<rparr>)"

definition abort_handshakes :: "'sem semaphore_ops \<Rightarrow> 'sem server_run \<Rightarrow> 'sem server_run" where
  "abort_handshakes sem s =
     (let e = accept_edge (run_state s);
          e = e\<lparr>policy := (policy e)\<lparr>pending_handshakes := (sem_release sem ^^ handshakes s) (pending_handshakes (policy e))\<rparr>\<rparr>
      in s\<lparr>run_state := (run_state s)\<lparr>accept_edge := e\<rparr>, handshakes := 0,
           serve_phase := (if exit_mode s = Some Graceful \<and> 0 < graceful_shutdown_duration (run_shutdown s)
                           then AwaitingQuiescence else ClosingConnections)\<rparr>)"

definition close_connections :: "'sem server_run \<Rightarrow> 'sem server_run" where
  "close_connections s =
     (let s = set_registry (snd (close_all (run_registry s) ''graceful shutdown'')) s
      in s\<lparr>run_state := (run_state s)\<lparr>accept_tasks := []\<rparr>, serve_phase := FlushingClose\<rparr>)"

definition fail_loop :: "nat \<Rightarrow> serve_error option \<Rightarrow> 'sem server_run \<Rightarrow> 'sem server_run" where
  "fail_loop now e s =
     leave_loop (s\<lparr>terminal_error := e, run_shutdown := snd (begin_fast_shutdown (run_shutdown s) now)\<rparr>)"

definition loop_event ::
  "'sem semaphore_ops \<Rightarrow> surroundings \<Rightarrow> (io_error, unit) result server_event \<Rightarrow> 'sem server_run \<Rightarrow> 'sem server_run" where
  "loop_event sem env event s =
     (case event of
        FatalEvent \<Rightarrow> fail_loop (clock env) (Some FatalAfterCommit) s
      | ShutdownEvent \<Rightarrow> leave_loop s
      | VisitorEvent accepted \<Rightarrow>
          (case process_public_accept sem env accepted (run_state s) of
             (Inr not_before, st) \<Rightarrow> s\<lparr>run_state := st, accept_not_before := not_before\<rparr>
           | (Inl e, st) \<Rightarrow> fail_loop (clock env) (Some e) (s\<lparr>run_state := st\<rparr>))
      | TunnelEvent None \<Rightarrow> fail_loop (clock env) None s
      | TunnelEvent (Some incoming) \<Rightarrow>
          (case allocate_connection_id (accept_last_id (run_state s)) of
             None \<Rightarrow> fail_loop (clock env) (Some ConnectionIdsExhausted) s
           | Some connection_id \<Rightarrow>
               (let (spawned, e) = admit_tunnel_handshake sem env (accept_edge (run_state s))
                in s\<lparr>run_state := (run_state s)\<lparr>accept_last_id := connection_id, accept_edge := e\<rparr>,
                     handshakes := handshakes s + (if spawned then 1 else 0)\<rparr>)))"

text \<open>
  The steps of a running Server. Meanwhile shutdown may begin or escalate, handshakes and Visitors go
  on, and the registry changes, but sealed work stays sealed.
\<close>

inductive server_step ::
  "'sem semaphore_ops \<Rightarrow> 'sem server_run \<Rightarrow> 'sem server_run \<Rightarrow> bool" for sem where
  accepts_event:
    "serve_phase s = Accepting \<Longrightarrow>
     next_server_event fatal (shutdown_mode (run_shutdown s) \<noteq> None) visitor tunnel = Some event \<Longrightarrow>
     server_step sem s (loop_event sem env event s)"
| shutdown_begins:
    "server_step sem s (s\<lparr>run_shutdown := snd (begin_graceful_shutdown (run_shutdown s) now)\<rparr>)"
| shutdown_escalates:
    "server_step sem s (s\<lparr>run_shutdown := snd (begin_fast_shutdown (run_shutdown s) now)\<rparr>)"
| handshake_ends:
    "handshakes s = Suc n \<Longrightarrow>
     server_step sem s
       (s\<lparr>run_state := (run_state s)\<lparr>accept_edge := register_tunnel_connection sem env handshake (accept_edge (run_state s))\<rparr>,
          handshakes := n\<rparr>)"
| work_goes_on:
    "sealed (run_registry s) \<longrightarrow> sealed r \<Longrightarrow>
     accepting_tunnel_connections r = accepting_tunnel_connections (run_registry s) \<Longrightarrow>
     server_step sem s (set_registry r s)"
| quiescent:
    "serve_phase s = AwaitingQuiescence \<Longrightarrow> \<not> has_outstanding_visitor_work (run_registry s) \<Longrightarrow>
     server_step sem s (s\<lparr>serve_phase := ClosingConnections\<rparr>)"
| deadline_expires:
    "serve_phase s = AwaitingQuiescence \<Longrightarrow> server_step sem s (s\<lparr>serve_phase := ClosingConnections\<rparr>)"
| fast_requested:
    "serve_phase s = AwaitingQuiescence \<Longrightarrow> shutdown_mode (run_shutdown s) = Some Fast \<Longrightarrow>
     server_step sem s (s\<lparr>serve_phase := ClosingConnections\<rparr>)"
| handshakes_aborted:
    "serve_phase s = StoppingHandshakes \<Longrightarrow> server_step sem s (abort_handshakes sem s)"
| connections_closed:
    "serve_phase s = ClosingConnections \<Longrightarrow> server_step sem s (close_connections s)"
| flushed:
    "serve_phase s = FlushingClose \<Longrightarrow> server_step sem s (s\<lparr>serve_phase := ServeReturned\<rparr>)"

definition server_run_new ::
  "'sem edge \<Rightarrow> orderly_shutdown \<Rightarrow> u64 \<Rightarrow> bool \<Rightarrow> 'sem server_run" where
  "server_run_new e shutdown last_id probe =
     \<lparr>run_state = \<lparr>accept_edge = e, accept_backoff_state = accept_backoff_default, accept_last_id = last_id,
        accept_tasks = []\<rparr>, run_shutdown = shutdown, accept_not_before = None, handshakes = 0,
      readiness_probe_open = probe, listeners_open = True, terminal_error = None, exit_mode = None, serve_phase = Accepting\<rparr>"

inductive serve_reachable ::
  "'sem semaphore_ops \<Rightarrow> 'sem edge \<Rightarrow> orderly_shutdown \<Rightarrow> u64 \<Rightarrow> bool \<Rightarrow> 'sem server_run \<Rightarrow> bool"
  for sem e shutdown last_id probe where
  serve_initial: "serve_reachable sem e shutdown last_id probe (server_run_new e shutdown last_id probe)"
| serve_next: "serve_reachable sem e shutdown last_id probe s \<Longrightarrow> server_step sem s s' \<Longrightarrow>
     serve_reachable sem e shutdown last_id probe s'"

definition serve_result :: "'sem server_run \<Rightarrow> (serve_error, unit) result" where
  "serve_result s = (case terminal_error s of None \<Rightarrow> Inr () | Some e \<Rightarrow> Inl e)"

section \<open>Rotation\<close>

lemma find_upt_Some:
  "find P [0..<n] = Some i \<longleftrightarrow> i < n \<and> P i \<and> (\<forall>j<i. \<not> P j)"
  by (auto simp: find_Some_iff)

text \<open>Both ways of rotating accept the same connection and leave the same cursor.\<close>

lemma accept_rotations_agree:
  assumes "0 < n"
  shows "accept_tunnel_connections n ready cursor = accept_public_connections n ready cursor"
proof -
  have nth: "rotate cursor [0..<n] ! i = (cursor + i) mod n" if "i < n" for i
    using that by (simp add: nth_rotate)
  have cong: "find (\<lambda>i. ready (rotate cursor [0..<n] ! i)) [0..<n] = find (\<lambda>i. ready ((cursor + i) mod n)) [0..<n]"
    by (rule find_cong) (simp_all add: nth)
  show ?thesis
  proof (cases "find (\<lambda>i. ready ((cursor + i) mod n)) [0..<n]")
    case None
    with cong show ?thesis by (simp add: accept_tunnel_connections_def accept_public_connections_def)
  next
    case (Some i)
    then have "i < n" by (simp add: find_upt_Some)
    with Some cong nth show ?thesis
      by (simp add: accept_tunnel_connections_def accept_public_connections_def mod_Suc_eq)
  qed
qed

text \<open>How far a listener is from the cursor.\<close>

definition distance :: "nat \<Rightarrow> nat \<Rightarrow> nat \<Rightarrow> nat" where
  "distance n cursor i = (i + n - cursor) mod n"

lemma distance_reaches:
  assumes "cursor < n" "i < n"
  shows "(cursor + distance n cursor i) mod n = i"
proof -
  have "(cursor + distance n cursor i) mod n = (cursor + (i + n - cursor)) mod n"
    by (simp add: distance_def mod_add_right_eq)
  also have "\<dots> = (i + n) mod n" using assms by simp
  finally show ?thesis using assms by simp
qed

lemma distance_unique:
  assumes "cursor < n" "d < n" "(cursor + d) mod n = i"
  shows "distance n cursor i = d"
proof (cases "cursor + d < n")
  case True
  with assms show ?thesis by (auto simp: distance_def)
next
  case False
  with assms have "i = cursor + d - n" by (simp add: le_mod_geq)
  with False assms show ?thesis by (simp add: distance_def)
qed

lemma accept_approaches:
  assumes "cursor < n" "i < n" "ready i" "accept_public_connections n ready cursor = Some (j, cursor')"
  shows "cursor' < n \<and> j < n \<and> ready j \<and> (j = i \<or> distance n cursor' i < distance n cursor i)"
proof -
  let ?d = "distance n cursor i"
  obtain k where k: "find (\<lambda>k. ready ((cursor + k) mod n)) [0..<n] = Some k"
    "j = (cursor + k) mod n" "cursor' = (j + 1) mod n"
    using assms(4) by (auto simp: accept_public_connections_def)
  have d: "?d < n" "(cursor + ?d) mod n = i"
    using assms distance_reaches by (simp_all add: distance_def)
  have first: "k < n" "ready j" "\<not> ?d < k"
    using k(1,2) assms(3) d by (auto simp: find_upt_Some)
  have range: "j < n" "cursor' < n" using k(2,3) assms(1) by simp_all
  have "distance n cursor' i < ?d" if "j \<noteq> i"
  proof -
    have "k < ?d" using that first(3) k(2) d(2) by (metis nat_neq_iff)
    have "(cursor' + (?d - k - 1)) mod n = (cursor + k + 1 + (?d - k - 1)) mod n"
      unfolding k(2,3) by (metis mod_add_left_eq)
    also have "cursor + k + 1 + (?d - k - 1) = cursor + ?d" using \<open>k < ?d\<close> by simp
    finally have "distance n cursor' i = ?d - k - 1"
      using distance_unique [OF range(2)] d by simp
    with \<open>k < ?d\<close> show ?thesis by simp
  qed
  with first range show ?thesis by blast
qed

text \<open>The connections accepted while readiness changes from poll to poll.\<close>

fun accept_run :: "nat \<Rightarrow> (nat \<Rightarrow> bool) list \<Rightarrow> nat \<Rightarrow> nat list" where
  "accept_run n [] cursor = []"
| "accept_run n (ready # readies) cursor =
     (case accept_public_connections n ready cursor of
        None \<Rightarrow> accept_run n readies cursor
      | Some (j, cursor') \<Rightarrow> j # accept_run n readies cursor')"

lemma accept_ready:
  assumes "i < n" "ready i" "cursor < n"
  shows "accept_public_connections n ready cursor \<noteq> None"
proof -
  have "(cursor + distance n cursor i) mod n = i" "distance n cursor i < n"
    using assms distance_reaches by (simp_all add: distance_def)
  with assms(2) have "find (\<lambda>k. ready ((cursor + k) mod n)) [0..<n] \<noteq> None"
    unfolding find_None_iff by (metis atLeastLessThan_iff le0 set_upt)
  then show ?thesis by (simp add: accept_public_connections_def)
qed

lemma accept_run_reaches:
  assumes "cursor < n" "i < n" "\<forall>ready\<in>set readies. ready i" "distance n cursor i < length readies"
  shows "i \<in> set (take (Suc (distance n cursor i)) (accept_run n readies cursor))"
  using assms
proof (induction readies arbitrary: cursor)
  case (Cons ready readies)
  obtain j cursor' where a: "accept_public_connections n ready cursor = Some (j, cursor')"
    using accept_ready [of i n ready cursor] Cons.prems by auto
  have near: "cursor' < n" "j = i \<or> distance n cursor' i < distance n cursor i"
    using accept_approaches [OF Cons.prems(1,2) _ a] Cons.prems(3) by auto
  show ?case
  proof (cases "j = i")
    case False
    with near have less: "distance n cursor' i < distance n cursor i" by simp
    then have "i \<in> set (take (Suc (distance n cursor' i)) (accept_run n readies cursor'))"
      using Cons.prems near(1) by (intro Cons.IH) auto
    then have "i \<in> set (take (distance n cursor i) (accept_run n readies cursor'))"
      using less by (meson Suc_leI set_take_subset_set_take subsetD)
    with a show ?thesis by simp
  qed (use a in simp)
qed simp

section \<open>Connection numbers\<close>

definition ids_ok :: "id_counter \<Rightarrow> bool" where
  "ids_ok c \<longleftrightarrow>
     (\<forall>t i. allocations c t = Allocated i \<longrightarrow> 0 < i \<and> i \<le> last_connection_id c) \<and>
     (\<forall>t u i. allocations c t = Allocated i \<and> allocations c u = Allocated i \<longrightarrow> t = u) \<and>
     (\<forall>t p. allocations c t = Holding p \<longrightarrow> p \<noteq> - 1) \<and>
     (\<forall>t. allocations c t = IdsExhausted \<longrightarrow> last_connection_id c = - 1)"

lemma id_step_ok:
  assumes "id_step c d" "ids_ok c"
  shows "ids_ok d \<and> last_connection_id c \<le> last_connection_id d"
  using assms
proof cases
  case (id_exchange t previous)
  have p: "previous \<noteq> - 1" using assms(2) id_exchange by (auto simp: ids_ok_def)
  note next' = u64_next [OF p]
  have below: "i \<le> previous" if "allocations c u = Allocated i" for u i
    using assms(2) that id_exchange(3) by (auto simp: ids_ok_def)
  have "last_connection_id c \<noteq> - 1" using p id_exchange(3) by simp
  then have none: "allocations c u \<noteq> IdsExhausted" for u using assms(2) by (auto simp: ids_ok_def)
  have fresh: "allocations c u \<noteq> Allocated (previous + 1)" for u
    using below [of u "previous + 1"] next' by (meson leD)
  have "i \<le> previous + 1" if "allocations c u = Allocated i" for u i
    using below [OF that] next' by (meson less_imp_le order_trans)
  with next' none fresh assms(2) id_exchange show ?thesis
    unfolding ids_ok_def by (auto intro: less_imp_le)
qed (auto simp: ids_ok_def after_previous_def split: if_splits)

lemma id_reachable_ok: "id_reachable c \<Longrightarrow> ids_ok c"
proof (induction rule: id_reachable.induct)
  case id_initial
  show ?case by (simp add: ids_ok_def)
next
  case (id_next c d)
  then show ?case using id_step_ok by blast
qed

section \<open>Leaving the loop\<close>

lemma begin_shutdown_modes:
  assumes "shutdown_state s \<le> 2"
  shows "shutdown_mode (snd (begin_fast_shutdown s now)) = Some Fast" "shutdown_state (snd (begin_fast_shutdown s now)) \<le> 2"
    "shutdown_state (snd (begin_graceful_shutdown s now)) \<le> 2" "shutdown_mode (snd (begin_graceful_shutdown s now)) \<noteq> None"
    "shutdown_mode s = Some Fast \<Longrightarrow> shutdown_mode (snd (begin_graceful_shutdown s now)) = Some Fast"
  using assms
  by (auto simp: begin_fast_shutdown_def begin_graceful_shutdown_def transition_to_def shutdown_mode_def Let_def record_start_def
           split: if_splits)

text \<open>The state after the loop: nothing new can start, and the error, if any, came with a fast shutdown.\<close>

definition stopped :: "'sem server_run \<Rightarrow> bool" where
  "stopped s \<longleftrightarrow> sealed (run_registry s) \<and> \<not> accepting_tunnel_connections (run_registry s) \<and>
     \<not> readiness_probe_open s \<and> \<not> listeners_open s \<and> shutdown_mode (run_shutdown s) \<noteq> None \<and>
     (terminal_error s \<noteq> None \<longrightarrow> shutdown_mode (run_shutdown s) = Some Fast)"

definition run_ok :: "'sem server_run \<Rightarrow> bool" where
  "run_ok s \<longleftrightarrow> shutdown_state (run_shutdown s) \<le> 2 \<and> serve_phase s \<noteq> ServePanicked \<and>
     (serve_phase s = Accepting \<longrightarrow> terminal_error s = None \<and> listeners_open s) \<and>
     (serve_phase s \<noteq> Accepting \<longrightarrow> stopped s) \<and>
     (serve_phase s \<notin> {Accepting, StoppingHandshakes} \<longrightarrow> handshakes s = 0) \<and>
     (serve_phase s \<in> {FlushingClose, ServeReturned} \<longrightarrow> accept_tasks (run_state s) = [])"

lemma leave_loop_ok:
  assumes "shutdown_state (run_shutdown s) \<le> 2" "shutdown_mode (run_shutdown s) \<noteq> None"
    "terminal_error s \<noteq> None \<longrightarrow> shutdown_mode (run_shutdown s) = Some Fast"
  shows "run_ok (leave_loop s)" "terminal_error (leave_loop s) = terminal_error s"
  using assms
  by (auto simp: leave_loop_def run_ok_def stopped_def set_registry_def run_registry_def stop_accepting_new_work_def)

lemma fail_loop_ok:
  assumes "shutdown_state (run_shutdown s) \<le> 2"
  shows "run_ok (fail_loop now e s)" "terminal_error (fail_loop now e s) = e"
  using leave_loop_ok [of "s\<lparr>terminal_error := e, run_shutdown := snd (begin_fast_shutdown (run_shutdown s) now)\<rparr>"]
    begin_shutdown_modes(1,2) [OF assms, of now]
  by (simp_all add: fail_loop_def)

lemma loop_event_ok:
  assumes "run_ok s" "serve_phase s = Accepting"
    "next_server_event fatal (shutdown_mode (run_shutdown s) \<noteq> None) visitor tunnel = Some event"
  shows "run_ok (loop_event sem env event s)"
proof -
  have ok: "shutdown_state (run_shutdown s) \<le> 2" "terminal_error s = None" "listeners_open s"
    using assms(1,2) by (auto simp: run_ok_def)
  show ?thesis
  proof (cases event)
    case FatalEvent
    with fail_loop_ok [OF ok(1)] show ?thesis by (simp add: loop_event_def)
  next
    case ShutdownEvent
    with assms(3) have "shutdown_mode (run_shutdown s) \<noteq> None"
      by (auto simp: next_server_event_def split: if_splits option.splits)
    with leave_loop_ok [OF ok(1) this] ok(2) ShutdownEvent show ?thesis by (simp add: loop_event_def)
  next
    case (VisitorEvent accepted)
    obtain r st where p: "process_public_accept sem env accepted (run_state s) = (r, st)" by fastforce
    show ?thesis
    proof (cases r)
      case (Inl e)
      with VisitorEvent p fail_loop_ok [of "s\<lparr>run_state := st\<rparr>" "clock env" "Some e"] ok(1) show ?thesis
        by (simp add: loop_event_def)
    next
      case (Inr b)
      with VisitorEvent p assms(2) ok show ?thesis by (simp add: loop_event_def run_ok_def)
    qed
  next
    case (TunnelEvent incoming)
    show ?thesis
    proof (cases "incoming = None \<or> allocate_connection_id (accept_last_id (run_state s)) = None")
      case True
      with TunnelEvent fail_loop_ok [OF ok(1)] show ?thesis by (auto simp: loop_event_def split: option.splits)
    next
      case False
      with TunnelEvent assms(2) ok show ?thesis
        by (auto simp: loop_event_def run_ok_def split: prod.splits)
    qed
  qed
qed

lemma register_tunnel_connection_sealed:
  assumes "\<not> accepting_tunnel_connections (tunnels e)" "sealed (tunnels e)"
  shows "\<not> accepting_tunnel_connections (tunnels (register_tunnel_connection sem env handshake e)) \<and>
    sealed (tunnels (register_tunnel_connection sem env handshake e))"
  using assms
  by (auto simp: register_tunnel_connection_def report_tunnel_handshake_failure_def register_connection_def
      close_connection_def saturated_def recovered_def Let_def split: option.splits prod.splits)

lemma server_step_ok:
  assumes "server_step sem s s'" "run_ok s"
  shows "run_ok s'"
  using assms
proof cases
  case (accepts_event fatal visitor tunnel event env)
  with assms(2) loop_event_ok show ?thesis by blast
next
  case (shutdown_begins now)
  with assms(2) begin_shutdown_modes(3-5) [of "run_shutdown s" now] show ?thesis
    by (auto simp: run_ok_def stopped_def run_registry_def)
next
  case (shutdown_escalates now)
  with assms(2) begin_shutdown_modes(1,2) [of "run_shutdown s" now] show ?thesis
    by (auto simp: run_ok_def stopped_def run_registry_def)
next
  case (handshake_ends n env handshake)
  with assms(2) have "serve_phase s \<in> {Accepting, StoppingHandshakes}" by (auto simp: run_ok_def)
  with handshake_ends(1) assms(2) register_tunnel_connection_sealed [of "accept_edge (run_state s)" sem env handshake]
  show ?thesis by (auto simp: run_ok_def stopped_def run_registry_def)
next
  case (work_goes_on r)
  with assms(2) show ?thesis by (auto simp: run_ok_def stopped_def run_registry_def set_registry_def)
next
  case handshakes_aborted
  with assms(2) show ?thesis
    by (auto simp: run_ok_def stopped_def run_registry_def abort_handshakes_def Let_def)
next
  case connections_closed
  with assms(2) show ?thesis
    by (auto simp: run_ok_def stopped_def run_registry_def set_registry_def close_connections_def close_all_def Let_def)
qed (use assms(2) in \<open>auto simp: run_ok_def stopped_def run_registry_def\<close>)

lemma serve_reachable_ok:
  assumes "serve_reachable sem e shutdown last_id probe s" "shutdown_state shutdown = 0"
  shows "run_ok s"
  using assms
proof (induction rule: serve_reachable.induct)
  case serve_initial
  then show ?case by (simp add: run_ok_def server_run_new_def)
next
  case (serve_next s s')
  then show ?case using server_step_ok by blast
qed

section \<open>Properties\<close>

text \<open>
  C19: no listener starves. While a listener has connections waiting, every \<open>n\<close> polls over \<open>n\<close> listeners
  accept one of them, whatever the other listeners do; the Tunnel endpoints rotate in the same way.
\<close>

theorem listeners_never_starve:
  assumes "cursor < n" "i < n" "n \<le> length readies" "\<forall>ready\<in>set readies. ready i"
  shows "i \<in> set (take n (accept_run n readies cursor)) \<and>
    (\<forall>ready c. accept_tunnel_connections n ready c = accept_public_connections n ready c)"
proof -
  have "distance n cursor i < n" using assms(1) by (simp add: distance_def)
  then have "i \<in> set (take (Suc (distance n cursor i)) (accept_run n readies cursor))"
    using assms by (intro accept_run_reaches) auto
  with \<open>distance n cursor i < n\<close> have "i \<in> set (take n (accept_run n readies cursor))"
    by (meson Suc_leI set_take_subset_set_take subsetD)
  with accept_rotations_agree assms(1) show ?thesis by simp
qed

theorem listeners_never_starve_witness:
  "(2 :: nat) \<in> set (take 3 (accept_run 3 [\<lambda>_. True, \<lambda>_. True, \<lambda>i. i = 2] 0))"
  using listeners_never_starve [of 0 3 2 "[\<lambda>_. True, \<lambda>_. True, \<lambda>i. i = 2]"] by simp

text \<open>
  C20: connection numbers are never reused, by any number of concurrent accepts: allocated numbers are
  distinct, positive and at most the counter, which only grows; allocation fails only when all
  \<open>2 ^ 64 - 1\<close> numbers were given out, and then the counter stays at its maximum instead of wrapping.
\<close>

theorem connection_ids_unique:
  assumes "id_reachable c" "id_step c d"
  shows "(\<forall>t i. allocations d t = Allocated i \<longrightarrow> 0 < i \<and> i \<le> last_connection_id d) \<and>
    (\<forall>t u i. allocations d t = Allocated i \<and> allocations d u = Allocated i \<longrightarrow> t = u) \<and>
    (\<forall>t. allocations d t = IdsExhausted \<longrightarrow> last_connection_id d = - 1) \<and>
    last_connection_id c \<le> last_connection_id d"
proof -
  have "ids_ok d \<and> last_connection_id c \<le> last_connection_id d"
    by (rule id_step_ok [OF assms(2) id_reachable_ok [OF assms(1)]])
  then show ?thesis unfolding ids_ok_def by blast
qed

theorem connection_ids_unique_witness:
  "last_connection_id \<lparr>last_connection_id = 0, allocations = (\<lambda>_. NotStarted)\<rparr> \<le>
     last_connection_id \<lparr>last_connection_id = 0, allocations = (\<lambda>_. NotStarted)(1 := Holding 0)\<rparr>"
proof -
  let ?c = "\<lparr>last_connection_id = 0, allocations = (\<lambda>_. NotStarted)\<rparr>"
  have "id_step ?c (?c\<lparr>allocations := (allocations ?c)(1 := after_previous (last_connection_id ?c))\<rparr>)"
    by (rule id_load) simp
  then have "id_step ?c \<lparr>last_connection_id = 0, allocations = (\<lambda>_. NotStarted)(1 := Holding 0)\<rparr>"
    by (simp add: after_previous_def)
  from connection_ids_unique [OF id_initial this] show ?thesis by blast
qed

text \<open>
  C18: a Server stops in order. It never leaves its accept loop without a shutdown mode; from then on
  the registry refuses work and connections, readiness and listeners are closed, and no handshake is
  left once they are aborted. While it accepts there is no terminal error; an error it returns has
  forced a fast shutdown, and when it returns no Visitor task it started is left.
\<close>

theorem serve_stops_in_order:
  assumes "serve_reachable sem e shutdown last_id probe s" "shutdown_state shutdown = 0"
  shows "serve_phase s \<noteq> ServePanicked \<and>
    (serve_phase s = Accepting \<longrightarrow> terminal_error s = None) \<and>
    (serve_phase s \<noteq> Accepting \<longrightarrow>
       sealed (run_registry s) \<and> \<not> accepting_tunnel_connections (run_registry s) \<and>
       \<not> readiness_probe_open s \<and> \<not> listeners_open s \<and> shutdown_mode (run_shutdown s) \<noteq> None) \<and>
    (serve_phase s \<notin> {Accepting, StoppingHandshakes} \<longrightarrow> handshakes s = 0) \<and>
    (serve_phase s = ServeReturned \<longrightarrow> accept_tasks (run_state s) = [] \<and>
       (serve_result s \<noteq> Inr () \<longrightarrow> shutdown_mode (run_shutdown s) = Some Fast))"
  using serve_reachable_ok [OF assms]
  by (auto simp: run_ok_def stopped_def serve_result_def split: option.splits)

theorem serve_stops_in_order_witness:
  "\<exists>s :: nat server_run. serve_phase s = ServeReturned \<and> serve_result s = Inl FatalAfterCommit \<and>
     sealed (run_registry s) \<and> handshakes s = 0 \<and> shutdown_mode (run_shutdown s) = Some Fast"
proof -
  fix e :: "nat edge" and env
  let ?reach = "serve_reachable nat_semaphore e (orderly_shutdown_new 60 2) 0 True"
  define s0 where "s0 = server_run_new e (orderly_shutdown_new 60 2) 0 True"
  define s1 where "s1 = loop_event nat_semaphore env FatalEvent s0"
  have mode: "shutdown_mode (snd (begin_fast_shutdown (orderly_shutdown_new 60 2) now)) = Some Fast" for now
    by (rule begin_shutdown_modes(1)) (simp add: orderly_shutdown_new_def)
  have p1: "serve_phase s1 = StoppingHandshakes" "terminal_error s1 = Some FatalAfterCommit" "exit_mode s1 = Some Fast"
    by (simp_all add: s1_def s0_def loop_event_def fail_loop_def leave_loop_def server_run_new_def mode set_registry_def)
  have "?reach s0" unfolding s0_def by (rule serve_initial)
  then have "?reach s1" unfolding s1_def
    by (rule serve_next [OF _ accepts_event [where fatal = True and visitor = None and tunnel = None]])
       (simp_all add: s0_def server_run_new_def next_server_event_def)
  then have "?reach (abort_handshakes nat_semaphore s1)" by (rule serve_next [OF _ handshakes_aborted [OF p1(1)]])
  moreover have p2: "serve_phase (abort_handshakes nat_semaphore s1) = ClosingConnections"
    by (simp add: abort_handshakes_def p1(3) Let_def)
  ultimately have "?reach (close_connections (abort_handshakes nat_semaphore s1))"
    by (rule serve_next [OF _ connections_closed])
  moreover have "serve_phase (close_connections (abort_handshakes nat_semaphore s1)) = FlushingClose"
    by (simp add: close_connections_def Let_def)
  ultimately have r: "?reach ((close_connections (abort_handshakes nat_semaphore s1))\<lparr>serve_phase := ServeReturned\<rparr>)"
    by (rule serve_next [OF _ flushed])
  let ?s = "(close_connections (abort_handshakes nat_semaphore s1))\<lparr>serve_phase := ServeReturned\<rparr>"
  from serve_stops_in_order [OF r] have "sealed (run_registry ?s) \<and> handshakes ?s = 0 \<and>
      (serve_result ?s \<noteq> Inr () \<longrightarrow> shutdown_mode (run_shutdown ?s) = Some Fast)"
    by (simp add: orderly_shutdown_new_def)
  moreover have "serve_result ?s = Inl FatalAfterCommit"
    by (simp add: serve_result_def close_connections_def abort_handshakes_def set_registry_def p1(2) Let_def)
  ultimately show ?thesis by (intro exI [of _ ?s]) simp
qed

end
