(* ===== verification/Sse.thy ===== *)
theory Sse
  imports Prelude
begin

text \<open>
  Server-Sent Events framing (\<open>src/src/sse.rs\<close>) and UTF-8 validity as \<open>str::from_utf8\<close>
  decides it. A byte is a character of a string. The parser is fed chunk by chunk and enforces its
  limits while a line is still incomplete.
\<close>

section \<open>UTF-8\<close>

definition continuation :: "char \<Rightarrow> bool" where
  "continuation c = (128 \<le> code c \<and> code c \<le> 191)"

definition second_byte :: "char \<Rightarrow> char \<Rightarrow> bool" where
  "second_byte a b =
     (continuation b \<and> (code a = 224 \<longrightarrow> 160 \<le> code b) \<and> (code a = 237 \<longrightarrow> code b \<le> 159) \<and>
      (code a = 240 \<longrightarrow> 144 \<le> code b) \<and> (code a = 244 \<longrightarrow> code b \<le> 143))"

text \<open>One scalar value; the rest of the bytes, or \<open>None\<close> for a malformed sequence.\<close>

fun utf8_char :: "string \<Rightarrow> string option" where
  "utf8_char [] = None"
| "utf8_char (a # s) =
     (if code a < 128 then Some s
      else if code a < 194 then None
      else if code a < 224 then
        (case s of b # t \<Rightarrow> if continuation b then Some t else None | _ \<Rightarrow> None)
      else if code a < 240 then
        (case s of b # c # t \<Rightarrow> if second_byte a b \<and> continuation c then Some t else None | _ \<Rightarrow> None)
      else if code a < 245 then
        (case s of
           b # c # d # t \<Rightarrow> if second_byte a b \<and> continuation c \<and> continuation d then Some t else None
         | _ \<Rightarrow> None)
      else None)"

lemma utf8_char_shorter: "utf8_char s = Some t \<Longrightarrow> length t < length s"
  by (cases s) (auto split: if_splits list.splits)

text \<open>The number of scalar values of a valid string (\<open>chars().count()\<close>).\<close>

function utf8_count :: "string \<Rightarrow> nat option" where
  "utf8_count s =
     (if s = [] then Some 0
      else case utf8_char s of None \<Rightarrow> None | Some t \<Rightarrow> map_option Suc (utf8_count t))"
  by auto
termination by (relation "measure length") (auto dest: utf8_char_shorter)

declare utf8_count.simps [simp del]

definition valid_utf8 :: "string \<Rightarrow> bool" where
  "valid_utf8 s = (utf8_count s \<noteq> None)"

lemma utf8_char_append: "utf8_char s = Some t \<Longrightarrow> utf8_char (s @ u) = Some (t @ u)"
  by (cases s) (auto split: if_splits list.splits)

lemma utf8_count_append:
  "utf8_count s = Some m \<Longrightarrow> utf8_count t = Some n \<Longrightarrow> utf8_count (s @ t) = Some (m + n)"
proof (induction s arbitrary: m rule: utf8_count.induct)
  case (1 s)
  show ?case
  proof (cases "s = []")
    case True
    with 1 show ?thesis by (simp add: utf8_count.simps [of "[]"])
  next
    case False
    with "1.prems"(1) obtain u k where u: "utf8_char s = Some u" "utf8_count u = Some k" "m = Suc k"
      by (auto simp: utf8_count.simps [of s] split: option.splits)
    with "1.IH" [OF False u(1) u(2) "1.prems"(2)] utf8_char_append [OF u(1), of t] False show ?thesis
      by (simp add: utf8_count.simps [of "s @ t"])
  qed
qed

lemma utf8_count_ascii: "is_ascii s \<Longrightarrow> utf8_count s = Some (length s)"
  by (induction s) (simp_all add: utf8_count.simps is_ascii_def)

lemma valid_utf8_append: "valid_utf8 s \<Longrightarrow> valid_utf8 t \<Longrightarrow> valid_utf8 (s @ t)"
  by (auto simp: valid_utf8_def dest: utf8_count_append)

lemma valid_utf8_ascii: "is_ascii s \<Longrightarrow> valid_utf8 s"
  by (simp add: valid_utf8_def utf8_count_ascii)

lemma valid_utf8_Nil [simp]: "valid_utf8 []"
  by (simp add: valid_utf8_def utf8_count.simps [of "[]"])

section \<open>The parser\<close>

text \<open>\<open>usize::saturating_add\<close> on a 64-bit target.\<close>

abbreviation usize_max :: nat where
  "usize_max \<equiv> 2 ^ 64 - 1"

definition saturating_add :: "nat \<Rightarrow> nat \<Rightarrow> nat" where
  "saturating_add a b = min (a + b) usize_max"

record sse_limits =
  max_line_bytes :: nat
  max_event_type_bytes :: nat
  max_event_data_bytes :: nat

datatype SseLimitKind = Line | EventType | EventData

record sse_event =
  event_type :: "string option"
  event_data :: string

datatype SseParseItem = Comment | Event sse_event

datatype SseParseError =
    InvalidUtf8 | LimitExceeded SseLimitKind nat nat

record sse_parser =
  sse_limits :: sse_limits
  pending :: string
  parser_event_type :: "string option"
  data_lines :: "string list"
  data_bytes :: nat
  saw_cr :: bool

definition sse_parser_new :: "sse_limits \<Rightarrow> sse_parser" where
  "sse_parser_new limits =
     \<lparr>sse_limits = limits, pending = [], parser_event_type = None, data_lines = [], data_bytes = 0,
      saw_cr = False\<rparr>"

abbreviation LF :: char where "LF \<equiv> CHR 0x0A"
abbreviation CR :: char where "CR \<equiv> CHR 0x0D"

fun join_lines :: "string list \<Rightarrow> string" where
  "join_lines [] = []"
| "join_lines [l] = l"
| "join_lines (l # ls) = l @ LF # join_lines ls"

definition dispatch_event :: "sse_parser \<Rightarrow> sse_event \<times> sse_parser" where
  "dispatch_event p =
     (\<lparr>event_type = parser_event_type p, event_data = join_lines (data_lines p)\<rparr>,
      p\<lparr>parser_event_type := None, data_lines := [], data_bytes := 0\<rparr>)"

definition strip_space :: "string \<Rightarrow> string" where
  "strip_space s = (case s of c # t \<Rightarrow> if c = CHR '' '' then t else s | [] \<Rightarrow> s)"

definition split_field :: "string \<Rightarrow> string \<times> string" where
  "split_field line =
     (case split_once (CHR '':'') line of
        Some (field, rest) \<Rightarrow> (field, strip_space rest)
      | None \<Rightarrow> (line, []))"

definition apply_field ::
  "sse_parser \<Rightarrow> string \<Rightarrow> string \<Rightarrow> (SseParseError, sse_parser) result" where
  "apply_field p field value =
     (if field = ''event'' then
        if length value > max_event_type_bytes (sse_limits p)
        then Inl (LimitExceeded EventType (length value) (max_event_type_bytes (sse_limits p)))
        else Inr (p\<lparr>parser_event_type := Some value\<rparr>)
      else if field = ''data'' then
        let added = (if data_lines p = [] then length value else saturating_add (length value) 1);
            next_bytes = saturating_add (data_bytes p) added
        in if next_bytes > max_event_data_bytes (sse_limits p)
           then Inl (LimitExceeded EventData next_bytes (max_event_data_bytes (sse_limits p)))
           else Inr (p\<lparr>data_bytes := next_bytes, data_lines := data_lines p @ [value]\<rparr>)
      else if field = ''id'' \<or> field = ''retry'' then Inr p
      else Inr p)"

definition finish_line ::
  "sse_parser \<Rightarrow> (SseParseError, sse_parser \<times> SseParseItem list) result" where
  "finish_line p =
     (let line = pending p; p = p\<lparr>pending := []\<rparr>
      in if line = [] then
           let (event, p) = dispatch_event p in Inr (p, [Event event])
         else if \<not> valid_utf8 line then Inl InvalidUtf8
         else if starts_with (CHR '':'') line then Inr (p, [Comment])
         else
           let (field, value) = split_field line
           in and_then (apply_field p field value) (\<lambda>p. Inr (p, [])))"

definition accept_byte ::
  "sse_parser \<Rightarrow> char \<Rightarrow> (SseParseError, sse_parser \<times> SseParseItem list) result" where
  "accept_byte p byte =
     (if byte = LF then finish_line p
      else if byte = CR then Inr (p\<lparr>saw_cr := True\<rparr>, [])
      else if length (pending p) \<ge> max_line_bytes (sse_limits p)
        then Inl (LimitExceeded Line (saturating_add (length (pending p)) 1) (max_line_bytes (sse_limits p)))
      else Inr (p\<lparr>pending := pending p @ [byte]\<rparr>, []))"

definition push_byte ::
  "sse_parser \<Rightarrow> char \<Rightarrow> (SseParseError, sse_parser \<times> SseParseItem list) result" where
  "push_byte p byte =
     (if saw_cr p then
        let p = p\<lparr>saw_cr := False\<rparr>
        in if byte = LF then finish_line p
           else and_then (finish_line p) (\<lambda>(p, items).
                and_then (accept_byte p byte) (\<lambda>(p, more). Inr (p, items @ more)))
      else accept_byte p byte)"

fun push ::
  "sse_parser \<Rightarrow> string \<Rightarrow> (SseParseError, sse_parser \<times> SseParseItem list) result" where
  "push p [] = Inr (p, [])"
| "push p (byte # chunk) =
     and_then (push_byte p byte) (\<lambda>(p, items).
     and_then (push p chunk) (\<lambda>(p, more). Inr (p, items @ more)))"

text \<open>Feeding several chunks one after the other.\<close>

fun push_chunks ::
  "sse_parser \<Rightarrow> string list \<Rightarrow> (SseParseError, sse_parser \<times> SseParseItem list) result" where
  "push_chunks p [] = Inr (p, [])"
| "push_chunks p (chunk # chunks) =
     and_then (push p chunk) (\<lambda>(p, items).
     and_then (push_chunks p chunks) (\<lambda>(p, more). Inr (p, items @ more)))"

section \<open>Fragmentation\<close>

definition then_push ::
  "(SseParseError, sse_parser \<times> SseParseItem list) result
     \<Rightarrow> (sse_parser \<Rightarrow> (SseParseError, sse_parser \<times> SseParseItem list) result)
     \<Rightarrow> (SseParseError, sse_parser \<times> SseParseItem list) result" where
  "then_push r f = and_then r (\<lambda>(p, items). and_then (f p) (\<lambda>(p, more). Inr (p, items @ more)))"

lemma then_push_Inl [simp]: "then_push (Inl e) f = Inl e"
  by (simp add: then_push_def)

lemma then_push_Nil [simp]: "then_push (Inr (p, [])) f = f p"
  by (cases "f p") (auto simp: then_push_def)

lemma then_push_return [simp]: "then_push r (\<lambda>p. Inr (p, [])) = r"
  by (cases r) (auto simp: then_push_def)

lemma then_push_assoc: "then_push (then_push r f) g = then_push r (\<lambda>p. then_push (f p) g)"
proof (cases r)
  case (Inr a)
  obtain p items where a: "a = (p, items)" by (cases a)
  show ?thesis
  proof (cases "f p")
    case (Inr b)
    with \<open>r = Inr a\<close> a show ?thesis
      by (cases b; cases "g (fst b)") (auto simp: then_push_def)
  qed (simp add: \<open>r = Inr a\<close> a then_push_def)
qed simp

lemma push_Cons [simp]: "push p (byte # chunk) = then_push (push_byte p byte) (\<lambda>p. push p chunk)"
  by (simp add: then_push_def)

declare push.simps(2) [simp del]

lemma push_append: "push p (a @ b) = then_push (push p a) (\<lambda>p. push p b)"
  by (induction a arbitrary: p) (simp_all add: then_push_assoc)

lemma push_chunks_Cons [simp]:
  "push_chunks p (chunk # chunks) = then_push (push p chunk) (\<lambda>p. push_chunks p chunks)"
  by (simp add: then_push_def)

declare push_chunks.simps(2) [simp del]

lemma push_chunks_concat: "push_chunks p chunks = push p (concat chunks)"
  by (induction chunks arbitrary: p) (simp_all add: push_append)


section \<open>Lines\<close>

text \<open>The stream as a list of lines, each handled as a whole.\<close>

definition take_line ::
  "sse_parser \<Rightarrow> string \<Rightarrow> (SseParseError, sse_parser \<times> SseParseItem list) result" where
  "take_line p line = finish_line (p\<lparr>pending := line\<rparr>)"

fun take_lines ::
  "sse_parser \<Rightarrow> string list \<Rightarrow> (SseParseError, sse_parser \<times> SseParseItem list) result" where
  "take_lines p [] = Inr (p, [])"
| "take_lines p (line # ls) = then_push (take_line p line) (\<lambda>p. take_lines p ls)"

definition line_fits :: "sse_limits \<Rightarrow> string \<Rightarrow> bool" where
  "line_fits limits line =
     (length line \<le> max_line_bytes limits \<and> LF \<notin> set line \<and> CR \<notin> set line)"

definition line_start :: "sse_parser \<Rightarrow> bool" where
  "line_start p = (pending p = [] \<and> \<not> saw_cr p)"

definition line_end :: "string \<Rightarrow> bool" where
  "line_end e = (e = [LF] \<or> e = [CR, LF])"

lemma push_line_bytes:
  assumes "LF \<notin> set l" "CR \<notin> set l" "length (pending p) + length l \<le> max_line_bytes (sse_limits p)"
    and "\<not> saw_cr p"
  shows "push p l = Inr (p\<lparr>pending := pending p @ l\<rparr>, [])"
  using assms by (induction l arbitrary: p) (auto simp: push_byte_def accept_byte_def)

lemma push_line_end:
  assumes "\<not> saw_cr p" "line_end e"
  shows "push p e = finish_line p"
proof -
  have "finish_line (p\<lparr>saw_cr := False\<rparr>) = finish_line p" using assms by (cases p) simp
  with assms show ?thesis by (auto simp: line_end_def push_byte_def accept_byte_def)
qed

lemma apply_field_keeps:
  assumes "apply_field p field value = Inr q"
  shows "sse_limits q = sse_limits p \<and> pending q = pending p \<and> saw_cr q = saw_cr p"
  using assms by (auto simp: apply_field_def Let_def split: if_splits)

lemma finish_line_keeps:
  assumes "finish_line p = Inr (q, items)"
  shows "sse_limits q = sse_limits p \<and> pending q = [] \<and> saw_cr q = saw_cr p"
  using assms apply_field_keeps
  by (fastforce simp: finish_line_def dispatch_event_def Let_def result_simps
      split: if_splits prod.splits)

lemma push_line:
  assumes "line_start p" "line_fits (sse_limits p) l" "line_end e"
  shows "push p (l @ e) = take_line p l"
  using assms by (simp add: push_append push_line_bytes push_line_end take_line_def
      line_start_def line_fits_def)

lemma take_line_keeps:
  assumes "line_start p" "take_line p l = Inr (q, items)"
  shows "line_start q \<and> sse_limits q = sse_limits p"
  using assms finish_line_keeps [of "p\<lparr>pending := l\<rparr>" q items]
  by (simp add: line_start_def take_line_def)

lemma stream_is_lines:
  assumes "line_start p"
    and "list_all (line_fits (sse_limits p)) (map fst ls)"
    and "list_all line_end (map snd ls)"
  shows "push p (concat (map (\<lambda>(l, e). l @ e) ls)) = take_lines p (map fst ls)"
  using assms
proof (induction ls arbitrary: p)
  case (Cons le ls)
  obtain l e where le: "le = (l, e)" by (cases le)
  with Cons.prems have step: "push p (l @ e) = take_line p l" by (simp add: push_line)
  show ?case
  proof (cases "take_line p l")
    case (Inl err)
    with step le show ?thesis by (simp add: push_append [of p "l @ e", simplified])
  next
    case (Inr r)
    obtain q items where r: "r = (q, items)" by (cases r)
    with Inr take_line_keeps Cons.prems(1) have q: "line_start q" "sse_limits q = sse_limits p"
      by blast+
    with Cons.IH [of q] Cons.prems(2,3) have
      "push q (concat (map (\<lambda>(l, e). l @ e) ls)) = take_lines q (map fst ls)" by simp
    with step le Inr r show ?thesis
      by (simp add: push_append [of p "l @ e", simplified] then_push_def)
  qed
qed simp


definition example_limits :: sse_limits where
  "example_limits =
     \<lparr>max_line_bytes = 16, max_event_type_bytes = 4, max_event_data_bytes = 8\<rparr>"


section \<open>Limits\<close>

lemma length_join_lines_snoc:
  "length (join_lines (ls @ [l])) =
     length (join_lines ls) + length l + (if ls = [] then 0 else 1)"
  by (induction ls rule: join_lines.induct) auto

definition sse_wf :: "sse_parser \<Rightarrow> bool" where
  "sse_wf p =
     (length (pending p) \<le> max_line_bytes (sse_limits p) \<and>
      pred_option (\<lambda>t. length t \<le> max_event_type_bytes (sse_limits p)) (parser_event_type p) \<and>
      data_bytes p = length (join_lines (data_lines p)) \<and>
      data_bytes p \<le> max_event_data_bytes (sse_limits p))"

fun item_within :: "sse_limits \<Rightarrow> SseParseItem \<Rightarrow> bool" where
  "item_within limits Comment = True"
| "item_within limits (Event e) =
     (pred_option (\<lambda>t. length t \<le> max_event_type_bytes limits) (event_type e) \<and>
      length (event_data e) \<le> max_event_data_bytes limits)"

text \<open>Below the saturation point the running count of data bytes is exact.\<close>

definition exact_limits :: "sse_limits \<Rightarrow> bool" where
  "exact_limits limits = (max_event_data_bytes limits < usize_max)"

lemma apply_field_wf:
  assumes "sse_wf p" "exact_limits (sse_limits p)" "apply_field p field value = Inr q"
  shows "sse_wf q"
  using assms
  by (auto simp: apply_field_def sse_wf_def exact_limits_def saturating_add_def
      length_join_lines_snoc Let_def split: if_splits)

lemma finish_line_wf:
  assumes "sse_wf p" "exact_limits (sse_limits p)" "finish_line p = Inr (q, items)"
  shows "sse_wf q \<and> list_all (item_within (sse_limits p)) items"
proof -
  have "sse_wf (p\<lparr>pending := []\<rparr>)" using assms(1) by (simp add: sse_wf_def)
  with assms apply_field_wf [of "p\<lparr>pending := []\<rparr>"] show ?thesis
    by (auto simp: finish_line_def dispatch_event_def Let_def result_simps sse_wf_def
        split: if_splits prod.splits)
qed

lemma accept_byte_wf:
  assumes "sse_wf p" "exact_limits (sse_limits p)" "accept_byte p byte = Inr (q, items)"
  shows "sse_wf q \<and> sse_limits q = sse_limits p \<and> list_all (item_within (sse_limits p)) items"
  using assms finish_line_wf [of p q items] finish_line_keeps [of p q items]
  by (auto simp: accept_byte_def sse_wf_def split: if_splits)

lemma push_byte_wf:
  assumes wf: "sse_wf p" and ok: "exact_limits (sse_limits p)"
    and push: "push_byte p byte = Inr (q, items)"
  shows "sse_wf q \<and> sse_limits q = sse_limits p \<and> list_all (item_within (sse_limits p)) items"
proof (cases "saw_cr p")
  case True
  let ?p = "p\<lparr>saw_cr := False\<rparr>"
  have p: "sse_wf ?p" "exact_limits (sse_limits ?p)" using wf ok by (simp_all add: sse_wf_def)
  show ?thesis
  proof (cases "byte = LF")
    case True
    with \<open>saw_cr p\<close> push have "finish_line ?p = Inr (q, items)" by (simp add: push_byte_def)
    from finish_line_wf [OF p this] finish_line_keeps [OF this] show ?thesis by simp
  next
    case False
    with \<open>saw_cr p\<close> push obtain r i j where r: "finish_line ?p = Inr (r, i)"
        "accept_byte r byte = Inr (q, j)" "items = i @ j"
      by (auto simp: push_byte_def Let_def result_simps)
    from finish_line_wf [OF p r(1)] finish_line_keeps [OF r(1)] accept_byte_wf [OF _ _ r(2)] ok r(3)
    show ?thesis by simp
  qed
next
  case False
  with push have "accept_byte p byte = Inr (q, items)" by (simp add: push_byte_def)
  from accept_byte_wf [OF wf ok this] show ?thesis .
qed

text \<open>
  C37: Whatever bytes a peer sends, the parser never buffers more than the line limit, never holds
  an event name or accumulated event data beyond their limits, counts the accumulated data
  exactly, and never dispatches an event that exceeds the limits.
\<close>

theorem sse_limits_enforced:
  assumes "sse_wf p" "exact_limits (sse_limits p)" "push p chunk = Inr (q, items)"
  shows "sse_wf q \<and> sse_limits q = sse_limits p \<and> list_all (item_within (sse_limits p)) items"
  using assms
proof (induction chunk arbitrary: p items)
  case (Cons byte chunk)
  from Cons.prems(3) obtain r i j where r: "push_byte p byte = Inr (r, i)" "push r chunk = Inr (q, j)"
      "items = i @ j"
    by (auto simp: then_push_def result_simps)
  from push_byte_wf [OF Cons.prems(1,2) r(1)] Cons.IH [OF _ _ r(2)] Cons.prems(2) r(3)
  show ?case by simp
qed simp

lemma sse_parser_new_wf: "sse_wf (sse_parser_new limits)"
  by (simp add: sse_wf_def sse_parser_new_def)

theorem sse_limits_enforced_witness:
  "push (sse_parser_new example_limits) [LF] =
     Inr (sse_parser_new example_limits, [Event \<lparr>event_type = None, event_data = []\<rparr>]) \<and>
   list_all (item_within example_limits) [Event \<lparr>event_type = None, event_data = []\<rparr>]"
proof -
  have push: "push (sse_parser_new example_limits) [LF] =
     Inr (sse_parser_new example_limits, [Event \<lparr>event_type = None, event_data = []\<rparr>])"
    by (simp add: push_byte_def accept_byte_def finish_line_def dispatch_event_def
        sse_parser_new_def)
  have "exact_limits (sse_limits (sse_parser_new example_limits))"
    by (simp add: exact_limits_def sse_parser_new_def example_limits_def)
  from sse_limits_enforced [OF sse_parser_new_wf this push] push show ?thesis
    by (simp add: sse_parser_new_def)
qed

end
