(* ===== verification/Fd_Capacity.thy ===== *)
theory Fd_Capacity
  imports Sse
begin

text \<open>
  Startup sizing of Visitor sockets from the descriptor limit (\<open>src/src/fd_capacity.rs\<close>). The
  arithmetic is on natural numbers with every width of the source written out: a \<open>u128\<close>
  product that overflows or a subtraction that underflows is \<open>None\<close>, and a cast to
  \<open>usize\<close> truncates to 64 bits.
\<close>

definition client_capacity :: "nat \<Rightarrow> nat \<Rightarrow> nat \<Rightarrow> nat" where
  "client_capacity configured nofile reserve = min configured (nofile - reserve)"

definition as_usize :: "nat \<Rightarrow> nat" where
  "as_usize n = n mod 2 ^ 64"

definition in_u128 :: "nat \<Rightarrow> nat option" where
  "in_u128 n = (if n < 2 ^ 128 then Some n else None)"

definition checked_sub :: "nat \<Rightarrow> nat \<Rightarrow> nat option" where
  "checked_sub a b = (if b \<le> a then Some (a - b) else None)"

fun give_leftover ::
  "nat list \<Rightarrow> nat list \<Rightarrow> (nat list \<times> nat) \<Rightarrow> (nat list \<times> nat) option" where
  "give_leftover configured [] (result, remaining) = Some (result, remaining)"
| "give_leftover configured (index # indexes) (result, remaining) =
     Option.bind (checked_sub (configured ! index) (result ! index)) (\<lambda>room.
       let extra = as_usize (min remaining room)
       in if result ! index + extra \<ge> 2 ^ 64 then None
          else Option.bind (checked_sub remaining extra) (\<lambda>rest.
                 give_leftover configured indexes (result[index := result ! index + extra], rest)))"

definition server_capacity :: "nat list \<Rightarrow> nat \<Rightarrow> nat \<Rightarrow> nat list option" where
  "server_capacity configured nofile reserve =
     (let available = nofile - reserve
      in Option.bind (in_u128 (sum_list configured)) (\<lambda>total.
         if total \<le> available then Some configured
         else
           Option.bind (those (map (\<lambda>v. map_option (\<lambda>p. as_usize (p div total)) (in_u128 (v * available)))
               configured)) (\<lambda>result.
           Option.bind (in_u128 (sum_list result)) (\<lambda>used.
           Option.bind (checked_sub available used) (\<lambda>remaining.
             map_option fst (give_leftover configured [2, 0, 1] (result, remaining)))))))"

definition FD_RESERVE :: nat where
  "FD_RESERVE = 512"

text \<open>Applying the limit: the effective value, and whether a warning is logged.\<close>

definition apply_client :: "nat \<Rightarrow> nat option \<Rightarrow> nat \<Rightarrow> nat \<times> bool" where
  "apply_client configured nofile reserve =
     (case nofile of
        None \<Rightarrow> (configured, False)
      | Some nofile \<Rightarrow>
          let effective = client_capacity configured nofile reserve
          in (effective, effective \<noteq> configured))"

definition apply_server :: "nat list \<Rightarrow> nat option \<Rightarrow> nat \<Rightarrow> (nat list \<times> bool) option" where
  "apply_server configured nofile reserve =
     (case nofile of
        None \<Rightarrow> Some (configured, False)
      | Some nofile \<Rightarrow>
          map_option (\<lambda>effective. (effective, effective \<noteq> configured))
            (server_capacity configured nofile reserve))"

text \<open>
  The startup entry points. Raising the limit is a call of the \<open>rlimit\<close> package; its outcome, the
  soft limit now in force if it is known and whether raising it failed, is a parameter. The
  second component says whether a warning is logged.
\<close>

definition fd_client :: "bool \<Rightarrow> nat \<Rightarrow> nat \<Rightarrow> nat \<Rightarrow> nat option \<times> bool \<Rightarrow> nat \<times> bool" where
  "fd_client managed max_server_addresses server_addresses max_visitor_streams raised =
     (let addresses = (if managed then max_server_addresses else server_addresses);
          reserve = saturating_add FD_RESERVE addresses;
          (nofile, problem) = raised;
          (effective, warning) = apply_client max_visitor_streams nofile reserve
      in (effective, warning \<or> problem))"

definition fd_server :: "nat list \<Rightarrow> nat option \<times> bool \<Rightarrow> (nat list \<times> bool) option" where
  "fd_server configured raised =
     (let (nofile, problem) = raised
      in map_option (\<lambda>(effective, warning). (effective, warning \<or> problem))
           (apply_server configured nofile FD_RESERVE))"

section \<open>Shares\<close>

lemma div_sum3_le: "(a + b + c) div (t::nat) \<ge> a div t + b div t + c div t"
proof (cases "t = 0")
  case False
  have "a div t * t + b div t * t + c div t * t \<le> a + b + c"
    by (intro add_mono div_times_less_eq_dividend)
  with False show ?thesis by (simp add: less_eq_div_iff_mult_less_eq distrib_right)
qed simp

lemma share_le:
  assumes "w \<le> t"
  shows "v * w div t \<le> (v::nat)"
proof -
  have "v * w div t \<le> v * t div t" using assms by (intro div_le_mono mult_le_mono2)
  also have "\<dots> \<le> v" by (cases "t = 0") simp_all
  finally show ?thesis .
qed

lemma in_u128_product:
  assumes "v < 2 ^ 64" "w < 2 ^ 64"
  shows "in_u128 (v * w) = Some (v * w)"
proof -
  have "v * w < 2 ^ 64 * 2 ^ 64" using assms by (rule mult_strict_mono) simp_all
  then show ?thesis by (simp add: in_u128_def)
qed

lemma give_leftover_step:
  assumes "r ! i \<le> c ! i" "c ! i < 2 ^ 64"
  shows "give_leftover c (i # is) (r, rest) =
    give_leftover c is
      (r[i := r ! i + min rest (c ! i - r ! i)], rest - min rest (c ! i - r ! i))"
proof -
  have "min rest (c ! i - r ! i) < 2 ^ 64" using assms by linarith
  then have "as_usize (min rest (c ! i - r ! i)) = min rest (c ! i - r ! i)"
    by (simp add: as_usize_def)
  moreover have "r ! i + min rest (c ! i - r ! i) < 2 ^ 64" using assms by linarith
  ultimately show ?thesis using assms(1) by (simp add: checked_sub_def Let_def del: min_less_iff_conj)
qed

lemma spread_sum:
  assumes "rest \<le> a + b + (c::nat)" "e2 = min rest c" "e0 = min (rest - e2) a"
    and "e1 = min (rest - e2 - e0) b"
  shows "e0 + e1 + e2 = rest"
  using assms by linarith

lemma give_leftover_steps:
  assumes r: "r0 \<le> c0" "r1 \<le> c1" "r2 \<le> c2" and c: "c0 < 2 ^ 64" "c1 < 2 ^ 64" "c2 < 2 ^ 64"
    and room: "rest \<le> (c0 - r0) + (c1 - r1) + (c2 - r2)"
  shows "\<exists>s0 s1 s2. give_leftover [c0, c1, c2] [2, 0, 1] ([r0, r1, r2], rest) = Some ([s0, s1, s2], 0) \<and>
           r0 \<le> s0 \<and> s0 \<le> c0 \<and> r1 \<le> s1 \<and> s1 \<le> c1 \<and> r2 \<le> s2 \<and> s2 \<le> c2 \<and>
           s0 + s1 + s2 = r0 + r1 + r2 + rest"
proof -
  define e2 where "e2 = min rest (c2 - r2)"
  define e0 where "e0 = min (rest - e2) (c0 - r0)"
  define e1 where "e1 = min (rest - e2 - e0) (c1 - r1)"
  have sum: "e0 + e1 + e2 = rest" by (rule spread_sum [OF room e2_def e0_def e1_def])
  have "give_leftover [c0, c1, c2] [2, 0, 1] ([r0, r1, r2], rest) =
      give_leftover [c0, c1, c2] [0, 1] ([r0, r1, r2 + e2], rest - e2)"
    using give_leftover_step [of "[r0, r1, r2]" 2 "[c0, c1, c2]"] r c by (simp add: e2_def)
  also have "\<dots> = give_leftover [c0, c1, c2] [1] ([r0 + e0, r1, r2 + e2], rest - e2 - e0)"
    using give_leftover_step [of "[r0, r1, r2 + e2]" 0 "[c0, c1, c2]"] r c by (simp add: e0_def)
  also have "\<dots> = Some ([r0 + e0, r1 + e1, r2 + e2], rest - e2 - e0 - e1)"
    using give_leftover_step [of "[r0 + e0, r1, r2 + e2]" 1 "[c0, c1, c2]"] r c
    by (simp add: e1_def)
  also have "rest - e2 - e0 - e1 = 0" using sum by simp
  finally have "give_leftover [c0, c1, c2] [2, 0, 1] ([r0, r1, r2], rest) =
      Some ([r0 + e0, r1 + e1, r2 + e2], 0)" .
  moreover have "r0 + e0 \<le> c0" "r1 + e1 \<le> c1" "r2 + e2 \<le> c2"
    using r e0_def e1_def e2_def by linarith+
  moreover have "(r0 + e0) + (r1 + e1) + (r2 + e2) = r0 + r1 + r2 + rest"
    using sum by simp
  ultimately show ?thesis by (intro exI conjI) (assumption | simp)+
qed

lemma server_capacity_clamped:
  assumes c: "c0 < 2 ^ 64" "c1 < 2 ^ 64" "c2 < 2 ^ 64" and n: "nofile < 2 ^ 64"
    and big: "nofile - reserve < c0 + c1 + c2"
  shows "\<exists>s0 s1 s2. server_capacity [c0, c1, c2] nofile reserve = Some [s0, s1, s2] \<and>
           s0 \<le> c0 \<and> s1 \<le> c1 \<and> s2 \<le> c2 \<and> s0 + s1 + s2 = nofile - reserve"
proof -
  define w where "w = nofile - reserve"
  define t where "t = c0 + c1 + c2"
  define share where "share v = v * w div t" for v
  have w: "w < 2 ^ 64" "w < t" using n big by (simp_all add: w_def t_def)
  have le: "share c0 \<le> c0" "share c1 \<le> c1" "share c2 \<le> c2"
    using w(2) by (simp_all add: share_def share_le)
  have "share c0 + share c1 + share c2 \<le> (c0 * w + c1 * w + c2 * w) div t"
    unfolding share_def by (rule div_sum3_le)
  also have "\<dots> = w" using w(2) by (simp add: t_def flip: distrib_right)
  finally have used: "share c0 + share c1 + share c2 \<le> w" .
  have fits: "as_usize (share c0) = share c0" "as_usize (share c1) = share c1"
    "as_usize (share c2) = share c2"
    using le c by (simp_all add: as_usize_def)
  have small: "in_u128 t = Some t" "in_u128 (share c0 + share c1 + share c2) = Some (share c0 + share c1 + share c2)"
    using c used w(1) by (simp_all add: in_u128_def t_def)
  have room: "w - (share c0 + share c1 + share c2) \<le> (c0 - share c0) + (c1 - share c1) + (c2 - share c2)"
    using w(2) le by (simp add: t_def)
  have "server_capacity [c0, c1, c2] nofile reserve =
      map_option fst (give_leftover [c0, c1, c2] [2, 0, 1]
        ([share c0, share c1, share c2], w - (share c0 + share c1 + share c2)))"
    using small fits used w c
    by (simp add: server_capacity_def w_def [symmetric] t_def [symmetric] add.assoc [symmetric]
        in_u128_product share_def [symmetric] checked_sub_def Let_def
        del: give_leftover.simps)
  moreover obtain s0 s1 s2 where "give_leftover [c0, c1, c2] [2, 0, 1]
        ([share c0, share c1, share c2], w - (share c0 + share c1 + share c2)) = Some ([s0, s1, s2], 0)"
      "s0 \<le> c0" "s1 \<le> c1" "s2 \<le> c2"
      "s0 + s1 + s2 = share c0 + share c1 + share c2 + (w - (share c0 + share c1 + share c2))"
    using give_leftover_steps [OF le c room] by blast
  ultimately show ?thesis using used by (auto simp: w_def)
qed

text \<open>
  Sizing the three Server socket pools never panics or overflows. The effective limits never
  exceed the configured ones; configured limits that fit the descriptors left after the reserve
  are kept, and otherwise the effective limits use those descriptors exactly.
\<close>

theorem server_capacity_exact:
  assumes "c0 < 2 ^ 64" "c1 < 2 ^ 64" "c2 < 2 ^ 64" "nofile < 2 ^ 64"
  shows "\<exists>s0 s1 s2. server_capacity [c0, c1, c2] nofile reserve = Some [s0, s1, s2] \<and>
           s0 \<le> c0 \<and> s1 \<le> c1 \<and> s2 \<le> c2 \<and>
           (if c0 + c1 + c2 \<le> nofile - reserve then [s0, s1, s2] = [c0, c1, c2]
            else s0 + s1 + s2 = nofile - reserve)"
proof (cases "c0 + c1 + c2 \<le> nofile - reserve")
  case True
  with assms have "in_u128 (c0 + (c1 + c2)) = Some (c0 + (c1 + c2))" by (simp add: in_u128_def)
  with True show ?thesis by (simp add: server_capacity_def Let_def)
next
  case False
  with server_capacity_clamped [OF assms, of reserve] show ?thesis by simp
qed

theorem server_capacity_exact_witness:
  "\<exists>s0 s1 s2. server_capacity [1000, 1000, 4000] 1024 512 = Some [s0, s1, s2] \<and>
     s0 \<le> 1000 \<and> s1 \<le> 1000 \<and> s2 \<le> 4000 \<and> s0 + s1 + s2 = 512"
  using server_capacity_exact [of 1000 1000 4000 1024 512] by simp

end
