(* ===== verification/Addresses.thy ===== *)
theory Addresses
  imports Hostname Sse
begin

text \<open>
  Server and Control addresses and opaque Control tokens (\<open>src/src/server_address.rs\<close>,
  \<open>src/src/control_address.rs\<close>, \<open>src/src/opaque_control_token.rs\<close>,
  \<open>src/src/tunnel_id.rs\<close>). A port is a number; \<open>u16::from_str\<close> keeps it below 65536.
\<close>

section \<open>Decimal text\<close>

fun show_nat :: "nat \<Rightarrow> string" where
  "show_nat n =
     (if n < 10 then [char_of (48 + n)] else show_nat (n div 10) @ [char_of (48 + n mod 10)])"

declare show_nat.simps [simp del]

lemma code_digit: "n < 10 \<Longrightarrow> code (char_of (48 + n)) = 48 + n"
  by simp

lemma to_digit_shown: "n < 10 \<Longrightarrow> to_digit 10 (char_of (48 + n)) = Some n"
  by (simp add: to_digit_def digit_value_def is_ascii_digit_def)

lemma radix_value_append:
  "radix_value r a (s @ t) = Option.bind (radix_value r a s) (\<lambda>b. radix_value r b t)"
  by (induction s arbitrary: a) (auto split: option.splits)

lemma radix_value_show_nat: "radix_value 10 0 (show_nat n) = Some n"
proof (induction n rule: show_nat.induct)
  case (1 n)
  then show ?case
    by (cases "n < 10")
      (simp_all add: show_nat.simps [of n] to_digit_shown radix_value_append del: of_char_of)
qed

lemma show_nat_digits: "c \<in> set (show_nat n) \<Longrightarrow> is_ascii_digit c"
proof (induction n rule: show_nat.induct)
  case (1 n)
  then show ?case by (auto simp: show_nat.simps [of n] is_ascii_digit_def split: if_splits)
qed

lemma show_nat_no_special: "CHR ''/'' \<notin> set (show_nat n)" "CHR '':'' \<notin> set (show_nat n)"
  using show_nat_digits [of "CHR ''/''" n] show_nat_digits [of "CHR '':''" n]
  by (auto simp: is_ascii_digit_def)

lemma show_nat_not_Nil: "show_nat n \<noteq> []"
  by (simp add: show_nat.simps [of n])

lemma from_str_radix_show_nat: "n \<le> largest \<Longrightarrow> from_str_radix 10 largest (show_nat n) = Some n"
proof -
  have "\<not> starts_with (CHR ''+'') (show_nat n)"
    using show_nat_digits [of "hd (show_nat n)" n] show_nat_not_Nil [of n]
    by (auto simp: starts_with_def is_ascii_digit_def)
  then show "n \<le> largest \<Longrightarrow> ?thesis"
    by (simp add: from_str_radix_def radix_value_show_nat show_nat_not_Nil)
qed

section \<open>Server addresses\<close>

definition DEFAULT_SERVER_PORT :: nat where
  "DEFAULT_SERVER_PORT = 443"

definition MAX_CLIENT_SERVER_ADDRESSES :: nat where
  "MAX_CLIENT_SERVER_ADDRESSES = 256"

record server_address =
  address_hostname :: server_hostname
  address_port :: nat

datatype ServerAddressError =
    MissingHostname | InvalidPort | InvalidHostname PublicHostnameError

definition server_address_parse :: "string \<Rightarrow> (ServerAddressError, server_address) result" where
  "server_address_parse value =
     and_then
       (case rsplit_once (CHR '':'') value of
          Some (hostname, raw_port) \<Rightarrow>
            and_then (ok_or InvalidPort (parse_u16 raw_port)) (\<lambda>port. Inr (hostname, port))
        | None \<Rightarrow> Inr (value, DEFAULT_SERVER_PORT))
       (\<lambda>(raw_hostname, port).
         if raw_hostname = [] then Inl MissingHostname
         else and_then (map_err InvalidHostname (validate_public_hostname raw_hostname)) (\<lambda>hostname.
                Inr \<lparr>address_hostname = hostname, address_port = port\<rparr>))"

section \<open>Control addresses\<close>

definition DEFAULT_CONTROL_PORT :: nat where
  "DEFAULT_CONTROL_PORT = 443"

record control_address =
  control_hostname :: server_hostname
  control_port :: nat

datatype ControlAddressError =
    ControlMissingHostname | ControlInvalidPort | Scheme | Path
  | ControlInvalidHostname PublicHostnameError

fun contains_text :: "string \<Rightarrow> string \<Rightarrow> bool" where
  "contains_text pat [] = (pat = [])"
| "contains_text pat (c # s) = (take (length pat) (c # s) = pat \<or> contains_text pat s)"

definition control_address_parse :: "string \<Rightarrow> (ControlAddressError, control_address) result" where
  "control_address_parse value =
     (if contains_text ''://'' value then Inl Scheme
      else if CHR ''/'' \<in> set value then Inl Path
      else
        and_then
          (case rsplit_once (CHR '':'') value of
             Some (hostname, raw_port) \<Rightarrow>
               and_then (ok_or ControlInvalidPort (parse_u16 raw_port)) (\<lambda>port. Inr (hostname, port))
           | None \<Rightarrow> Inr (value, DEFAULT_CONTROL_PORT))
          (\<lambda>(raw_hostname, port).
            if raw_hostname = [] then Inl ControlMissingHostname
            else and_then (map_err ControlInvalidHostname (validate_public_hostname raw_hostname))
                   (\<lambda>hostname.
                     if port = 0 then Inl ControlInvalidPort
                     else Inr \<lparr>control_hostname = hostname, control_port = port\<rparr>)))"

definition control_address_display :: "control_address \<Rightarrow> string" where
  "control_address_display a =
     (if control_port a = DEFAULT_CONTROL_PORT then control_hostname a
      else control_hostname a @ CHR '':'' # show_nat (control_port a))"

section \<open>Opaque tokens\<close>

definition OPAQUE_CONTROL_TOKEN_MAX_CHARS :: nat where
  "OPAQUE_CONTROL_TOKEN_MAX_CHARS = 128"

datatype OpaqueControlTokenError = TokenEmpty | TokenTooLong nat | ForbiddenCharacter

definition is_ascii_whitespace :: "char \<Rightarrow> bool" where
  "is_ascii_whitespace c = (code c \<in> {9, 10, 12, 13, 32})"

definition is_ascii_control :: "char \<Rightarrow> bool" where
  "is_ascii_control c = (code c < 32 \<or> code c = 127)"

text \<open>
  The argument is a \<open>str\<close>, so it is valid UTF-8; the scalar count of other bytes is never asked
  for. An ASCII character of a valid string is one byte, and no other byte is ASCII.
\<close>

definition validate_opaque_control_token :: "string \<Rightarrow> (OpaqueControlTokenError, unit) result" where
  "validate_opaque_control_token value =
     (if value = [] then Inl TokenEmpty
      else
        let len = (case utf8_count value of None \<Rightarrow> 0 | Some n \<Rightarrow> n)
        in if len > OPAQUE_CONTROL_TOKEN_MAX_CHARS then Inl (TokenTooLong len)
           else if list_ex (\<lambda>c. is_ascii_whitespace c \<or> is_ascii_control c) value
             then Inl ForbiddenCharacter
           else Inr ())"

definition tunnel_id_parse :: "string \<Rightarrow> (OpaqueControlTokenError, string) result" where
  "tunnel_id_parse value = and_then (validate_opaque_control_token value) (\<lambda>_. Inr value)"

lemma tunnel_id_parse_Inr [result_simps]:
  "tunnel_id_parse s = Inr t \<longleftrightarrow> t = s \<and> validate_opaque_control_token s = Inr ()"
  by (auto simp: tunnel_id_parse_def result_simps)

section \<open>Control addresses print and parse back\<close>

definition control_address_wf :: "control_address \<Rightarrow> bool" where
  "control_address_wf a =
     (valid_hostname (control_hostname a) \<and> 0 < control_port a \<and> control_port a \<le> 65535)"

lemma contains_text_head: "contains_text (c # pat) s \<Longrightarrow> c \<in> set s"
  by (induction s) auto

lemma contains_text_last: "contains_text (pat @ [c]) s \<Longrightarrow> c \<in> set s"
proof (induction s)
  case (Cons x s)
  then show ?case
    using set_take_subset [of "length (pat @ [c])" "x # s"]
    by (metis contains_text.simps(2) in_set_conv_decomp list.set_intros(2) subsetD)
qed simp

lemma control_address_display_chars:
  assumes "control_address_wf a"
  shows "CHR ''/'' \<notin> set (control_address_display a)"
  using assms valid_hostname_no_special(3) [of "control_hostname a"]
  by (simp add: control_address_display_def control_address_wf_def show_nat_no_special)

lemma control_address_parse_display:
  assumes "control_address_wf a"
  shows "control_address_parse (control_address_display a) = Inr a"
proof -
  have host: "valid_hostname (control_hostname a)" and port: "0 < control_port a" "control_port a \<le> 65535"
    using assms by (simp_all add: control_address_wf_def)
  note slash = control_address_display_chars [OF assms]
  with contains_text_last [of "'':/''" "CHR ''/''" "control_address_display a"]
  have scheme: "\<not> contains_text ''://'' (control_address_display a)" by auto
  have valid: "validate_public_hostname (control_hostname a) = Inr (control_hostname a)"
    using host by (simp add: result_simps normalize_valid)
  have nonempty: "control_hostname a \<noteq> []" by (rule valid_hostname_not_Nil [OF host])
  show ?thesis
  proof (cases "control_port a = DEFAULT_CONTROL_PORT")
    case True
    then have "rsplit_once (CHR '':'') (control_address_display a) = None"
      using valid_hostname_no_special(1) [OF host]
      by (simp add: rsplit_once_None control_address_display_def)
    with True scheme slash valid nonempty port show ?thesis
      by (simp add: control_address_parse_def control_address_display_def)
  next
    case False
    then have "rsplit_once (CHR '':'') (control_address_display a) =
        Some (control_hostname a, show_nat (control_port a))"
      by (simp add: rsplit_once_Some control_address_display_def show_nat_no_special)
    with scheme slash valid nonempty port show ?thesis
      by (simp add: control_address_parse_def from_str_radix_show_nat)
  qed
qed

lemma control_address_parse_wf:
  assumes "control_address_parse s = Inr a"
  shows "control_address_wf a"
  using assms
  by (auto simp: control_address_parse_def control_address_wf_def result_simps DEFAULT_CONTROL_PORT_def
      dest: from_str_radix_bound split: if_splits option.splits)

interpretation control_text: text_format control_address_wf control_address_display control_address_parse
  by unfold_locales (rule control_address_parse_display control_address_parse_wf; assumption)+

text \<open>
  Every accepted Control address has a valid hostname and a port from 1 to 65535, and its
  printed form, without the default port, is parsed back to the same address; distinct accepted
  addresses print differently.
\<close>

theorem control_address_roundtrip:
  assumes "control_address_parse s = Inr a"
  shows "control_address_wf a \<and> control_address_parse (control_address_display a) = Inr a \<and>
    (\<forall>b. control_address_wf b \<longrightarrow> control_address_display b = control_address_display a \<longrightarrow> b = a)"
  using control_text.reparse [OF assms] control_text.parse_wf [OF assms] control_text.display_inject
  by blast

theorem control_address_roundtrip_witness:
  "control_address_parse ''ctl.Example:8443'' =
     Inr \<lparr>control_hostname = ''ctl.example'', control_port = 8443\<rparr> \<and>
   control_address_wf \<lparr>control_hostname = ''ctl.example'', control_port = 8443\<rparr>"
proof -
  have parse: "control_address_parse ''ctl.Example:8443'' =
      Inr \<lparr>control_hostname = ''ctl.example'', control_port = 8443\<rparr>"
    by (simp add: control_address_parse_def rsplit_once_def from_str_radix_def hostname_eval)
  with control_address_roundtrip [OF parse] show ?thesis by simp
qed

section \<open>Exact acceptance\<close>

lemma forbidden_character:
  "is_ascii_whitespace c \<or> is_ascii_control c \<longleftrightarrow> \<not> (32 < code c \<and> code c \<noteq> 127)"
  by (auto simp: is_ascii_whitespace_def is_ascii_control_def)

lemma validate_opaque_control_token_Inr [result_simps]:
  assumes "utf8_count s = Some n"
  shows "validate_opaque_control_token s = Inr u \<longleftrightarrow>
    s \<noteq> [] \<and> n \<le> 128 \<and> (\<forall>c\<in>set s. code c > 32 \<and> code c \<noteq> 127)"
  using assms
  by (auto simp: validate_opaque_control_token_def OPAQUE_CONTROL_TOKEN_MAX_CHARS_def list_ex_iff
      forbidden_character Let_def)

end
