(* ===== verification/Tunnel_Events.thy ===== *)
theory Tunnel_Events
  imports Sse
begin

text \<open>
  Tunnel event-stream snapshots and their wire form (\<open>src/src/tunnel/events.rs\<close>). The
  \<open>uuid\<close> and \<open>serde_json\<close> packages are parameters; the laws name what their documentation
  promises for the values that reach them.
\<close>

datatype uuid_version = SortRand | OtherVersion
datatype uuid_variant = RFC4122 | OtherVariant

record 'u uuid_ops =
  try_parse :: "string \<Rightarrow> 'u option"
  hyphenated :: "'u \<Rightarrow> string"
  get_version :: "'u \<Rightarrow> uuid_version"
  get_variant :: "'u \<Rightarrow> uuid_variant"

definition uuid_text :: "string \<Rightarrow> bool" where
  "uuid_text s =
     (length s = 36 \<and>
      list_all (\<lambda>c. is_ascii_digit c \<or> (97 \<le> code c \<and> code c \<le> 102) \<or> c = CHR ''-'') s)"

text \<open>The hyphenated form has 36 lowercase hexadecimal digits and hyphens, and parses back.\<close>

definition uuid_laws :: "'u uuid_ops \<Rightarrow> bool" where
  "uuid_laws uuid =
     ((\<forall>u. try_parse uuid (hyphenated uuid u) = Some u) \<and> (\<forall>u. uuid_text (hyphenated uuid u)))"

lemma uuid_reparse: "uuid_laws uuid \<Longrightarrow> try_parse uuid (hyphenated uuid u) = Some u"
  by (simp add: uuid_laws_def)

lemma uuid_printed: "uuid_laws uuid \<Longrightarrow> uuid_text (hyphenated uuid u)"
  by (simp add: uuid_laws_def)

section \<open>Generations\<close>

definition is_generation :: "'u uuid_ops \<Rightarrow> 'u \<Rightarrow> bool" where
  "is_generation uuid u = (get_version uuid u = SortRand \<and> get_variant uuid u = RFC4122)"

definition generation_parse :: "'u uuid_ops \<Rightarrow> string \<Rightarrow> 'u option" where
  "generation_parse uuid value =
     (case try_parse uuid value of
        None \<Rightarrow> None
      | Some u \<Rightarrow>
          let canonical = (hyphenated uuid u = value)
          in if canonical \<and> get_version uuid u = SortRand \<and> get_variant uuid u = RFC4122
             then Some u else None)"

definition generation_display :: "'u uuid_ops \<Rightarrow> 'u \<Rightarrow> string" where
  "generation_display uuid u = hyphenated uuid u"

lemma generation_parse_Some:
  assumes "uuid_laws uuid"
  shows "generation_parse uuid s = Some u \<longleftrightarrow> is_generation uuid u \<and> s = generation_display uuid u"
  using assms
  by (auto simp: generation_parse_def generation_display_def is_generation_def uuid_reparse Let_def
      split: option.splits if_splits)

lemma generation_reparse:
  "uuid_laws uuid \<Longrightarrow> is_generation uuid u \<Longrightarrow>
   generation_parse uuid (generation_display uuid u) = Some u"
  by (simp add: generation_parse_Some)

section \<open>Snapshots\<close>

record 'u tunnel_event_state =
  server_generation :: 'u
  replacement_generation :: "'u option"

record wire_snapshot =
  wire_generation :: string
  wire_replacement :: "string option"

datatype TunnelEventError = UnexpectedEventType | MalformedState | InvalidGeneration

record json_ops =
  to_json :: "wire_snapshot \<Rightarrow> string"
  from_json :: "string \<Rightarrow> wire_snapshot option"

abbreviation quote :: char where "quote \<equiv> CHR 0x22"

text \<open>
  The compact JSON object of a snapshot: the fields in declaration order, the hint left out when
  there is none, and strings that need no escape written between quotes.
\<close>

definition compact_object :: "wire_snapshot \<Rightarrow> string" where
  "compact_object w =
     CHR ''{'' # quote # ''generation'' @ [quote, CHR '':'', quote] @ wire_generation w @ [quote] @
     (case wire_replacement w of
        None \<Rightarrow> []
      | Some r \<Rightarrow>
          [CHR '','', quote] @ ''replacement_generation'' @ [quote, CHR '':'', quote] @ r @ [quote])
     @ [CHR ''}'']"

definition wire_text :: "wire_snapshot \<Rightarrow> bool" where
  "wire_text w = (uuid_text (wire_generation w) \<and> pred_option uuid_text (wire_replacement w))"

definition json_laws :: "json_ops \<Rightarrow> bool" where
  "json_laws json =
     (\<forall>w. wire_text w \<longrightarrow> to_json json w = compact_object w \<and> from_json json (compact_object w) = Some w)"

lemma json_printed: "json_laws json \<Longrightarrow> wire_text w \<Longrightarrow> to_json json w = compact_object w"
  by (simp add: json_laws_def)

lemma json_reparse: "json_laws json \<Longrightarrow> wire_text w \<Longrightarrow> from_json json (compact_object w) = Some w"
  by (simp add: json_laws_def)

definition SNAPSHOT_EVENT_TYPE :: string where
  "SNAPSHOT_EVENT_TYPE = ''snapshot''"

definition TUNNEL_EVENT_SSE_LIMITS :: sse_limits where
  "TUNNEL_EVENT_SSE_LIMITS =
     \<lparr>max_line_bytes = 4 * 1024, max_event_type_bytes = 64, max_event_data_bytes = 4 * 1024\<rparr>"

definition KEEPALIVE_COMMENT :: string where
  "KEEPALIVE_COMMENT = '': keepalive'' @ [LF, LF]"

definition current_state :: "'u \<Rightarrow> 'u tunnel_event_state" where
  "current_state g = \<lparr>server_generation = g, replacement_generation = None\<rparr>"

definition hinted_replacement :: "'u tunnel_event_state \<Rightarrow> 'u option" where
  "hinted_replacement s =
     Option.bind (replacement_generation s) (\<lambda>r. if r \<noteq> server_generation s then Some r else None)"

definition wire_snapshot_out :: "'u uuid_ops \<Rightarrow> 'u tunnel_event_state \<Rightarrow> wire_snapshot" where
  "wire_snapshot_out uuid s =
     \<lparr>wire_generation = generation_display uuid (server_generation s),
      wire_replacement = map_option (generation_display uuid) (replacement_generation s)\<rparr>"

definition encode_sse :: "'u uuid_ops \<Rightarrow> json_ops \<Rightarrow> 'u tunnel_event_state \<Rightarrow> string" where
  "encode_sse uuid json s =
     ''event: '' @ SNAPSHOT_EVENT_TYPE @ [LF] @ ''data: '' @ to_json json (wire_snapshot_out uuid s)
       @ [LF, LF]"

definition decode_snapshot ::
  "'u uuid_ops \<Rightarrow> json_ops \<Rightarrow> string option \<Rightarrow> string
     \<Rightarrow> (TunnelEventError, 'u tunnel_event_state) result" where
  "decode_snapshot uuid json ty data =
     (if ty \<noteq> Some SNAPSHOT_EVENT_TYPE then Inl UnexpectedEventType
      else
        and_then (ok_or MalformedState (from_json json data)) (\<lambda>w.
        and_then (ok_or InvalidGeneration (generation_parse uuid (wire_generation w))) (\<lambda>g.
        and_then
          (case wire_replacement w of
             None \<Rightarrow> Inr None
           | Some v \<Rightarrow>
               and_then (ok_or MalformedState (generation_parse uuid v)) (\<lambda>r. Inr (Some r)))
          (\<lambda>r. Inr \<lparr>server_generation = g, replacement_generation = r\<rparr>))))"

text \<open>
  The shared source of the current snapshot: the value of the watch channel and the number of
  times its receivers were woken. \<open>send_if_modified\<close> wakes them when its closure returns true.
\<close>

record 'u server_tunnel_events =
  event_snapshot :: "'u tunnel_event_state"
  wakeups :: nat

definition server_tunnel_events_new :: "'u \<Rightarrow> 'u server_tunnel_events" where
  "server_tunnel_events_new g = \<lparr>event_snapshot = current_state g, wakeups = 0\<rparr>"

definition set_replacement_generation ::
  "'u option \<Rightarrow> 'u server_tunnel_events \<Rightarrow> 'u server_tunnel_events" where
  "set_replacement_generation replacement s =
     (let advertised =
            Option.bind replacement (\<lambda>v. if v \<noteq> server_generation (event_snapshot s) then Some v else None);
          changed = (replacement_generation (event_snapshot s) \<noteq> advertised)
      in \<lparr>event_snapshot = (event_snapshot s)\<lparr>replacement_generation := advertised\<rparr>,
          wakeups = (if changed then wakeups s + 1 else wakeups s)\<rparr>)"

section \<open>Round trip\<close>

definition plain :: "string \<Rightarrow> bool" where
  "plain s = list_all (\<lambda>c. code c < 128 \<and> c \<noteq> LF \<and> c \<noteq> CR) s"

lemma plain_append [simp]: "plain (a @ b) \<longleftrightarrow> plain a \<and> plain b"
  by (simp add: plain_def)

lemma plain_Cons [simp]: "plain (c # a) \<longleftrightarrow> code c < 128 \<and> c \<noteq> LF \<and> c \<noteq> CR \<and> plain a"
  by (auto simp: plain_def)

lemma plain_Nil [simp]: "plain []"
  by (simp add: plain_def)

lemma uuid_text_plain: "uuid_text s \<Longrightarrow> plain s"
  by (auto simp: uuid_text_def plain_def list_all_iff is_ascii_digit_def)

lemma plain_line: "plain s \<Longrightarrow> length s \<le> max_line_bytes limits \<Longrightarrow> line_fits limits s"
  by (auto simp: plain_def line_fits_def list_all_iff)

lemma plain_valid: "plain s \<Longrightarrow> valid_utf8 s"
  by (rule valid_utf8_ascii) (auto simp: plain_def is_ascii_def list_all_iff)

lemma compact_object_plain: "wire_text w \<Longrightarrow> plain (compact_object w)"
  by (cases "wire_replacement w")
    (simp_all add: compact_object_def wire_text_def uuid_text_plain)

lemma compact_object_length: "wire_text w \<Longrightarrow> length (compact_object w) \<le> 120"
  by (cases "wire_replacement w")
    (simp_all add: compact_object_def wire_text_def uuid_text_def)

text \<open>One event of a single data line is dispatched whole and leaves the parser fresh.\<close>

lemma take_event_lines:
  assumes "plain ty" "plain data" "length ty \<le> max_event_type_bytes limits"
    and "length data \<le> max_event_data_bytes limits" "length data < usize_max"
  shows "take_lines (sse_parser_new limits) [''event: '' @ ty, ''data: '' @ data, []] =
     Inr (sse_parser_new limits, [Event \<lparr>event_type = Some ty, event_data = data\<rparr>])"
proof -
  have "valid_utf8 (''event: '' @ ty)" "valid_utf8 (''data: '' @ data)"
    using assms by (simp_all add: plain_valid)
  with assms show ?thesis
    by (simp add: take_line_def finish_line_def starts_with_def split_field_def strip_space_def
        apply_field_def dispatch_event_def sse_parser_new_def saturating_add_def then_push_def
        Let_def)
qed

lemma push_event:
  assumes "plain ty" "plain data" "length ty \<le> max_event_type_bytes limits"
    and "length data \<le> max_event_data_bytes limits" "length data < usize_max"
    and "7 + length ty \<le> max_line_bytes limits" "6 + length data \<le> max_line_bytes limits"
  shows "push (sse_parser_new limits) (''event: '' @ ty @ [LF] @ ''data: '' @ data @ [LF, LF]) =
     Inr (sse_parser_new limits, [Event \<lparr>event_type = Some ty, event_data = data\<rparr>])"
proof -
  let ?ls = "[(''event: '' @ ty, [LF]), (''data: '' @ data, [LF]), ([], [LF])]"
  have "line_fits limits (''event: '' @ ty)" "line_fits limits (''data: '' @ data)"
    "line_fits limits []"
    by (rule plain_line; use assms in simp)+
  then have "push (sse_parser_new limits) (concat (map (\<lambda>(l, e). l @ e) ?ls)) =
      take_lines (sse_parser_new limits) (map fst ?ls)"
    by (intro stream_is_lines) (simp_all add: line_start_def line_end_def sse_parser_new_def)
  with take_event_lines [OF assms(1-5)] show ?thesis by simp
qed

lemma decode_wire:
  assumes "uuid_laws uuid" "json_laws json" "wire_text (wire_snapshot_out uuid s)"
    and "is_generation uuid (server_generation s)"
    and "pred_option (is_generation uuid) (replacement_generation s)"
  shows "decode_snapshot uuid json (Some SNAPSHOT_EVENT_TYPE)
           (compact_object (wire_snapshot_out uuid s)) = Inr s"
  using assms
  by (cases "replacement_generation s"; cases s)
    (simp_all add: decode_snapshot_def json_reparse wire_snapshot_out_def generation_reparse)

lemma wire_text_out: "uuid_laws uuid \<Longrightarrow> wire_text (wire_snapshot_out uuid s)"
  by (simp add: wire_text_def wire_snapshot_out_def generation_display_def uuid_printed
      option.pred_map option.pred_True comp_def)

text \<open>
  Every snapshot the Server writes on the event stream comes out of the Client's parser, under
  the Tunnel event limits, as exactly one event that decodes to the same snapshot, with the
  parser fresh for the next event.
\<close>

theorem tunnel_event_roundtrip:
  assumes "uuid_laws uuid" "json_laws json"
    and "is_generation uuid (server_generation s)"
    and "pred_option (is_generation uuid) (replacement_generation s)"
  shows "\<exists>e. push (sse_parser_new TUNNEL_EVENT_SSE_LIMITS) (encode_sse uuid json s) =
               Inr (sse_parser_new TUNNEL_EVENT_SSE_LIMITS, [Event e]) \<and>
             decode_snapshot uuid json (event_type e) (event_data e) = Inr s"
proof -
  let ?data = "compact_object (wire_snapshot_out uuid s)"
  have wire: "wire_text (wire_snapshot_out uuid s)" by (rule wire_text_out [OF assms(1)])
  have "push (sse_parser_new TUNNEL_EVENT_SSE_LIMITS) (encode_sse uuid json s) =
      Inr (sse_parser_new TUNNEL_EVENT_SSE_LIMITS,
           [Event \<lparr>event_type = Some SNAPSHOT_EVENT_TYPE, event_data = ?data\<rparr>])"
    unfolding encode_sse_def json_printed [OF assms(2) wire]
    using compact_object_plain [OF wire] compact_object_length [OF wire]
    by (intro push_event) (simp_all add: SNAPSHOT_EVENT_TYPE_def TUNNEL_EVENT_SSE_LIMITS_def)
  with decode_wire [OF assms(1,2) wire assms(3,4)] show ?thesis by force
qed

text \<open>Two generations and a JSON reader for the layout above.\<close>

definition example_text :: "bool \<Rightarrow> string" where
  "example_text b = replicate 8 (if b then CHR ''a'' else CHR ''0'') @
     ''-0000-7000-8000-000000000000''"

definition example_uuid :: "bool uuid_ops" where
  "example_uuid =
     \<lparr>try_parse = (\<lambda>s. if s = example_text True then Some True
                       else if s = example_text False then Some False else None),
      hyphenated = example_text, get_version = (\<lambda>_. SortRand), get_variant = (\<lambda>_. RFC4122)\<rparr>"

definition example_from_json :: "string \<Rightarrow> wire_snapshot option" where
  "example_from_json s =
     (let rest = drop 15 s; g = take 36 rest; more = drop 36 rest
      in Some \<lparr>wire_generation = g,
               wire_replacement = (if length more = 2 then None else Some (take 36 (drop 28 more)))\<rparr>)"

definition example_json :: json_ops where
  "example_json = \<lparr>to_json = compact_object, from_json = example_from_json\<rparr>"

lemma example_uuid_laws: "uuid_laws example_uuid"
  by (simp add: uuid_laws_def example_uuid_def example_text_def uuid_text_def is_ascii_digit_def
      numeral_eq_Suc)

lemma example_json_laws: "json_laws example_json"
proof -
  have "example_from_json (compact_object w) = Some w" if "wire_text w" for w
    using that
    by (cases "wire_replacement w"; cases w)
      (simp_all add: wire_text_def uuid_text_def compact_object_def example_from_json_def Let_def)
  then show ?thesis by (simp add: json_laws_def example_json_def)
qed

theorem tunnel_event_roundtrip_witness:
  "\<exists>e. push (sse_parser_new TUNNEL_EVENT_SSE_LIMITS)
         (encode_sse example_uuid example_json
            \<lparr>server_generation = True, replacement_generation = Some False\<rparr>) =
         Inr (sse_parser_new TUNNEL_EVENT_SSE_LIMITS, [Event e]) \<and>
       decode_snapshot example_uuid example_json (event_type e) (event_data e) =
         Inr \<lparr>server_generation = True, replacement_generation = Some False\<rparr>"
  by (rule tunnel_event_roundtrip [OF example_uuid_laws example_json_laws])
    (simp_all add: is_generation_def example_uuid_def)

section \<open>Replacement hints\<close>

lemma set_replacement_generation_keeps [simp]:
  "server_generation (event_snapshot (set_replacement_generation r s)) = server_generation (event_snapshot s)"
  by (simp add: set_replacement_generation_def Let_def)

lemma fold_keeps_generation:
  "server_generation (event_snapshot (fold set_replacement_generation rs s)) =
     server_generation (event_snapshot s)"
  by (induction rs arbitrary: s) simp_all

text \<open>
  After any sequence of publications the Server advertises exactly the last published
  replacement, with a hint that names its own generation suppressed; the hint a Client acts on is
  the advertised one; and publishing the same value again wakes no subscription.
\<close>

theorem replacement_hint_latest:
  "let s = fold set_replacement_generation (rs @ [r]) (server_tunnel_events_new g)
   in event_snapshot s = \<lparr>server_generation = g, replacement_generation = (if r = Some g then None else r)\<rparr> \<and>
      hinted_replacement (event_snapshot s) = replacement_generation (event_snapshot s) \<and>
      set_replacement_generation r s = s"
proof -
  let ?t = "fold set_replacement_generation rs (server_tunnel_events_new g)"
  have "server_generation (event_snapshot ?t) = g"
    by (simp add: fold_keeps_generation server_tunnel_events_new_def current_state_def)
  then show ?thesis
    by (cases "event_snapshot ?t"; cases r)
      (simp_all add: set_replacement_generation_def hinted_replacement_def Let_def)
qed

end
