(* ===== verification/Managed_Input.thy ===== *)
theory Managed_Input
  imports Authorization Addresses Tunnel_Events
begin

text \<open>
  Managed-session limits, the snapshot envelope and the role inputs
  (\<open>src/src/managed_session/limits.rs\<close>, \<open>snapshot.rs\<close>, \<open>input.rs\<close>). A JSON value is a
  tree; the typed decoders that \<open>serde\<close> generates are parameters, and
  \<open>input_decoder_laws\<close> names the one fact the bounds rest on. Messages of \<open>InvalidShape\<close> are
  constructors that carry what the message prints.
\<close>

section \<open>JSON values\<close>

text \<open>A number is its printed form; an object lists its entries.\<close>

datatype json =
    Null | Bool bool | Number string | String string | Array "json list"
  | Object "(string \<times> json) list"

fun json_get :: "string \<Rightarrow> json \<Rightarrow> json option" where
  "json_get key (Object entries) = map_of entries key"
| "json_get key _ = None"

fun json_as_str :: "json \<Rightarrow> string option" where
  "json_as_str (String s) = Some s"
| "json_as_str _ = None"

fun json_is_object :: "json \<Rightarrow> bool" where
  "json_is_object (Object _) = True"
| "json_is_object _ = False"

fun estimate_json_allocation :: "json \<Rightarrow> nat" where
  "estimate_json_allocation Null = 1"
| "estimate_json_allocation (Bool b) = 1"
| "estimate_json_allocation (Number n) = length n"
| "estimate_json_allocation (String s) = length s"
| "estimate_json_allocation (Array items) =
     foldl saturating_add (length items) (map estimate_json_allocation items)"
| "estimate_json_allocation (Object entries) =
     foldl (\<lambda>acc (key, size). saturating_add (saturating_add acc (length key)) size)
       (length entries) (map (\<lambda>(key, item). (key, estimate_json_allocation item)) entries)"

section \<open>Limits\<close>

record managed_session_limits =
  max_sse_line_bytes :: nat
  max_sse_event_type_bytes :: nat
  max_sse_event_data_bytes :: nat
  max_snapshot_bytes :: nat
  max_decoded_allocation_bytes :: nat
  max_revision_chars :: nat
  max_tunnels :: nat
  max_public_hostnames_total :: nat
  max_public_hostnames_per_tunnel :: nat
  max_client_identities_total :: nat
  max_client_identities_per_tunnel :: nat
  max_server_addresses :: nat
  state_request_deadline :: nat
  state_response_deadline :: nat

text \<open>Durations are milliseconds.\<close>

definition default_managed_session_limits :: managed_session_limits where
  "default_managed_session_limits =
     \<lparr>max_sse_line_bytes = 4 * 1024, max_sse_event_type_bytes = 64,
      max_sse_event_data_bytes = 1024 * 1024, max_snapshot_bytes = 1024 * 1024,
      max_decoded_allocation_bytes = 2 * 1024 * 1024,
      max_revision_chars = OPAQUE_CONTROL_TOKEN_MAX_CHARS, max_tunnels = 4096,
      max_public_hostnames_total = 4096, max_public_hostnames_per_tunnel = 256,
      max_client_identities_total = 4096, max_client_identities_per_tunnel = 64,
      max_server_addresses = MAX_CLIENT_SERVER_ADDRESSES, state_request_deadline = 5000,
      state_response_deadline = 5000\<rparr>"

definition sse_limits_of :: "managed_session_limits \<Rightarrow> sse_limits" where
  "sse_limits_of limits =
     \<lparr>max_line_bytes = max_sse_line_bytes limits,
      max_event_type_bytes = max_sse_event_type_bytes limits,
      max_event_data_bytes = max_sse_event_data_bytes limits\<rparr>"

datatype ManagedSessionLimitKind =
    SseLineBytes | SseEventTypeBytes | SseEventDataBytes | SnapshotBytes | DecodedAllocationBytes
  | RevisionChars | Tunnels | PublicHostnamesTotal | PublicHostnamesPerTunnel
  | ClientIdentitiesTotal | ClientIdentitiesPerTunnel | ServerAddresses

fun from_sse_limit_kind :: "SseLimitKind \<Rightarrow> ManagedSessionLimitKind" where
  "from_sse_limit_kind Line = SseLineBytes"
| "from_sse_limit_kind EventType = SseEventTypeBytes"
| "from_sse_limit_kind EventData = SseEventDataBytes"

section \<open>The snapshot envelope\<close>

record snapshot_envelope =
  envelope_revision :: string
  envelope_input :: json

record raw_snapshot =
  raw_revision :: "string option"
  raw_input :: "json option"

datatype SnapshotError =
    InvalidJson | MissingRevision | EmptyRevision | InvalidRevision OpaqueControlTokenError
  | MissingInput | UnknownEventType string | MissingEventType
  | SnapshotLimitExceeded ManagedSessionLimitKind nat nat

fun revision_error :: "OpaqueControlTokenError \<Rightarrow> SnapshotError" where
  "revision_error TokenEmpty = EmptyRevision"
| "revision_error other = InvalidRevision other"

definition check_event_type :: "string option \<Rightarrow> (SnapshotError, unit) result" where
  "check_event_type ty =
     (case ty of
        Some t \<Rightarrow> if t = ''snapshot'' then Inr () else Inl (UnknownEventType t)
      | None \<Rightarrow> Inl MissingEventType)"

text \<open>The count of scalar values of a \<open>String\<close>, which is valid UTF-8.\<close>

definition chars_count :: "string \<Rightarrow> nat" where
  "chars_count s = (case utf8_count s of None \<Rightarrow> 0 | Some n \<Rightarrow> n)"

definition parse_snapshot_event ::
  "(string \<Rightarrow> raw_snapshot option) \<Rightarrow> string option \<Rightarrow> string \<Rightarrow> managed_session_limits
     \<Rightarrow> (SnapshotError, snapshot_envelope) result" where
  "parse_snapshot_event from_str ty data limits =
     and_then (check_event_type ty) (\<lambda>_.
     if length data > max_snapshot_bytes limits
     then Inl (SnapshotLimitExceeded SnapshotBytes (length data) (max_snapshot_bytes limits))
     else
       and_then (ok_or InvalidJson (from_str data)) (\<lambda>raw.
       and_then (ok_or MissingRevision (raw_revision raw)) (\<lambda>revision.
       if chars_count revision > max_revision_chars limits
       then Inl (SnapshotLimitExceeded RevisionChars (chars_count revision) (max_revision_chars limits))
       else
         and_then (map_err revision_error (validate_opaque_control_token revision)) (\<lambda>_.
         and_then (ok_or MissingInput (raw_input raw)) (\<lambda>input.
         if \<not> json_is_object input then Inl MissingInput
         else
           let decoded = saturating_add (length data) (estimate_json_allocation input)
           in if decoded > max_decoded_allocation_bytes limits
              then Inl (SnapshotLimitExceeded DecodedAllocationBytes decoded
                     (max_decoded_allocation_bytes limits))
              else Inr \<lparr>envelope_revision = revision, envelope_input = input\<rparr>)))))"

section \<open>Role inputs\<close>

record 'u server_managed_input =
  input_tunnels :: "server_tunnel_config list"
  input_replacement_generation :: "'u option"
  input_drain :: bool

record client_managed_input =
  input_server_addresses :: "server_address list"

datatype InvalidShape =
    NotTunnelEntries | NotCanonicalGeneration | DrainNotBoolean | OmittedId nat
  | InvalidId nat string OpaqueControlTokenError | OmittedHostnames nat | EmptyHostnames nat
  | OmittedIdentities nat | EmptyIdentities nat
  | InputInvalidHostname nat string PublicHostnameError
  | InputInvalidIdentity nat string ParseClientIdentityError
  | IdRequired | IdNotUnique string | HostnameNotUnique string | IdentityNotUnique string
  | NotServerAddresses | InvalidAddress nat string ServerAddressError | AddressNotUnique string

datatype InputError =
    MissingTunnels | MissingServerAddresses | InvalidShape InvalidShape
  | InputLimitExceeded ManagedSessionLimitKind nat nat

record raw_server_tunnel =
  raw_id :: "string option"
  raw_public_hostnames :: "string list option"
  raw_client_identities :: "string list option"

record input_decoder =
  raw_server_tunnels :: "json \<Rightarrow> raw_server_tunnel list option option"
  raw_server_addresses :: "json \<Rightarrow> string list option option"

text \<open>
  Decoding a present array yields one element per entry. The outer \<open>None\<close> is a decoding error,
  the inner one a field that is absent or null.
\<close>

definition input_decoder_laws :: "input_decoder \<Rightarrow> bool" where
  "input_decoder_laws decoder =
     ((\<forall>input entries raw. json_get ''tunnels'' input = Some (Array entries) \<longrightarrow>
         raw_server_tunnels decoder input = Some (Some raw) \<longrightarrow> length raw = length entries) \<and>
      (\<forall>input entries raw. json_get ''server_addresses'' input = Some (Array entries) \<longrightarrow>
         raw_server_addresses decoder input = Some (Some raw) \<longrightarrow> length raw = length entries))"

lemma decoded_tunnels_length:
  assumes "input_decoder_laws decoder" "json_get ''tunnels'' input = Some (Array entries)"
    and "raw_server_tunnels decoder input = Some (Some raw)"
  shows "length raw = length entries"
  using assms by (simp add: input_decoder_laws_def)

lemma decoded_addresses_length:
  assumes "input_decoder_laws decoder" "json_get ''server_addresses'' input = Some (Array entries)"
    and "raw_server_addresses decoder input = Some (Some raw)"
  shows "length raw = length entries"
  using assms by (simp add: input_decoder_laws_def)

definition check_array ::
  "json option \<Rightarrow> ManagedSessionLimitKind \<Rightarrow> nat \<Rightarrow> InputError \<Rightarrow> InvalidShape \<Rightarrow> (InputError, unit) result" where
  "check_array value limit most missing shape =
     (case value of
        None \<Rightarrow> Inl missing
      | Some (Array entries) \<Rightarrow>
          if length entries > most then Inl (InputLimitExceeded limit (length entries) most)
          else Inr ()
      | Some _ \<Rightarrow> Inl (InvalidShape shape))"

definition check_limit :: "ManagedSessionLimitKind \<Rightarrow> nat \<Rightarrow> nat \<Rightarrow> (InputError, unit) result" where
  "check_limit limit n most = (if n > most then Inl (InputLimitExceeded limit n most) else Inr ())"

definition require_list ::
  "'a list option \<Rightarrow> InvalidShape \<Rightarrow> InvalidShape \<Rightarrow> (InputError, 'a list) result" where
  "require_list value omitted when_empty =
     and_then (ok_or (InvalidShape omitted) value) (\<lambda>xs.
       if xs = [] then Inl (InvalidShape when_empty) else Inr xs)"

text \<open>One Tunnel; the running totals are threaded through and returned updated.\<close>

definition parse_server_tunnel ::
  "nat \<Rightarrow> raw_server_tunnel \<Rightarrow> managed_session_limits \<Rightarrow> nat \<times> nat
     \<Rightarrow> (InputError, server_tunnel_config \<times> nat \<times> nat) result" where
  "parse_server_tunnel index tunnel limits totals =
     and_then (ok_or (InvalidShape (OmittedId index)) (raw_id tunnel)) (\<lambda>raw.
     and_then (map_err (\<lambda>e. InvalidShape (InvalidId index raw e)) (tunnel_id_parse raw)) (\<lambda>tid.
     and_then (require_list (raw_public_hostnames tunnel) (OmittedHostnames index)
                (EmptyHostnames index)) (\<lambda>raw_hostnames.
     and_then (require_list (raw_client_identities tunnel) (OmittedIdentities index)
                (EmptyIdentities index)) (\<lambda>raw_identities.
     and_then (check_limit PublicHostnamesPerTunnel (length raw_hostnames)
                (max_public_hostnames_per_tunnel limits)) (\<lambda>_.
     and_then (check_limit ClientIdentitiesPerTunnel (length raw_identities)
                (max_client_identities_per_tunnel limits)) (\<lambda>_.
     let new_hostnames = saturating_add (fst totals) (length raw_hostnames);
         new_identities = saturating_add (snd totals) (length raw_identities)
     in
     and_then (check_limit PublicHostnamesTotal new_hostnames (max_public_hostnames_total limits)) (\<lambda>_.
     and_then (check_limit ClientIdentitiesTotal new_identities
                (max_client_identities_total limits)) (\<lambda>_.
     and_then (traverse (\<lambda>h. map_err (\<lambda>e. InvalidShape (InputInvalidHostname index h e))
                (validate_public_hostname h)) raw_hostnames) (\<lambda>hostnames.
     and_then (traverse (\<lambda>i. map_err (\<lambda>e. InvalidShape (InputInvalidIdentity index i e))
                (client_identity_from_str i)) raw_identities) (\<lambda>identities.
     Inr (\<lparr>tunnel_config_id = Some tid, tunnel_public_hostnames = hostnames,
           authorized_client_identities = identities\<rparr>,
          new_hostnames, new_identities)))))))))))"

fun parse_server_tunnels ::
  "nat \<Rightarrow> raw_server_tunnel list \<Rightarrow> managed_session_limits \<Rightarrow> nat \<times> nat
     \<Rightarrow> (InputError, server_tunnel_config list) result" where
  "parse_server_tunnels index [] limits totals = Inr []"
| "parse_server_tunnels index (tunnel # rest) limits totals =
     and_then (parse_server_tunnel index tunnel limits totals) (\<lambda>(config, totals).
     and_then (parse_server_tunnels (Suc index) rest limits totals) (\<lambda>configs.
     Inr (config # configs)))"

fun validate_unique_tunnel_ids ::
  "string set \<Rightarrow> server_tunnel_config list \<Rightarrow> (InputError, unit) result" where
  "validate_unique_tunnel_ids seen [] = Inr ()"
| "validate_unique_tunnel_ids seen (tunnel # rest) =
     and_then (ok_or (InvalidShape IdRequired) (tunnel_config_id tunnel)) (\<lambda>i.
       if i \<in> seen then Inl (InvalidShape (IdNotUnique i))
       else validate_unique_tunnel_ids (insert i seen) rest)"

definition validate_unique_public_hostnames ::
  "server_tunnel_config list \<Rightarrow> (InputError, unit) result" where
  "validate_unique_public_hostnames tunnels =
     check_unique (\<lambda>h. InvalidShape (HostnameNotUnique h)) {} (all_keys tunnel_public_hostnames tunnels)"

definition validate_unique_client_identities ::
  "server_tunnel_config list \<Rightarrow> (InputError, unit) result" where
  "validate_unique_client_identities tunnels =
     check_unique (\<lambda>i. InvalidShape (IdentityNotUnique i)) {}
       (map client_identity_display (all_keys authorized_client_identities tunnels))"

definition rendered_address :: "server_address \<Rightarrow> string" where
  "rendered_address a = address_hostname a @ CHR '':'' # show_nat (address_port a)"

definition validate_unique_server_addresses :: "server_address list \<Rightarrow> (InputError, unit) result" where
  "validate_unique_server_addresses addresses =
     check_unique (\<lambda>a. InvalidShape (AddressNotUnique a)) {} (map rendered_address addresses)"

definition parse_server_input ::
  "'u uuid_ops \<Rightarrow> input_decoder \<Rightarrow> json \<Rightarrow> managed_session_limits
     \<Rightarrow> (InputError, 'u server_managed_input) result" where
  "parse_server_input uuid decoder input limits =
     and_then (check_array (json_get ''tunnels'' input) Tunnels (max_tunnels limits) MissingTunnels
       NotTunnelEntries) (\<lambda>_.
     and_then
       (case json_get ''replacement_generation'' input of
          None \<Rightarrow> Inr None
        | Some value \<Rightarrow>
            and_then (ok_or (InvalidShape NotCanonicalGeneration)
                (Option.bind (json_as_str value) (generation_parse uuid))) (\<lambda>g. Inr (Some g)))
       (\<lambda>replacement.
     and_then
       (case json_get ''drain'' input of
          None \<Rightarrow> Inr False
        | Some (Bool drain) \<Rightarrow> Inr drain
        | Some _ \<Rightarrow> Inl (InvalidShape DrainNotBoolean))
       (\<lambda>drain.
     and_then (ok_or (InvalidShape NotTunnelEntries) (raw_server_tunnels decoder input)) (\<lambda>raw.
     and_then (ok_or MissingTunnels raw) (\<lambda>raw_tunnels.
     and_then (parse_server_tunnels 0 raw_tunnels limits (0, 0)) (\<lambda>tunnels.
     and_then (validate_unique_tunnel_ids {} tunnels) (\<lambda>_.
     and_then (validate_unique_public_hostnames tunnels) (\<lambda>_.
     and_then (validate_unique_client_identities tunnels) (\<lambda>_.
     Inr \<lparr>input_tunnels = tunnels, input_replacement_generation = replacement,
          input_drain = drain\<rparr>)))))))))"

fun parse_server_addresses ::
  "nat \<Rightarrow> string list \<Rightarrow> (InputError, server_address list) result" where
  "parse_server_addresses index [] = Inr []"
| "parse_server_addresses index (address # rest) =
     and_then (map_err (\<lambda>e. InvalidShape (InvalidAddress index address e))
       (server_address_parse address)) (\<lambda>parsed.
     and_then (parse_server_addresses (Suc index) rest) (\<lambda>more. Inr (parsed # more)))"

definition parse_client_input ::
  "input_decoder \<Rightarrow> json \<Rightarrow> managed_session_limits \<Rightarrow> (InputError, client_managed_input) result" where
  "parse_client_input decoder input limits =
     and_then (check_array (json_get ''server_addresses'' input) ServerAddresses
       (max_server_addresses limits) MissingServerAddresses NotServerAddresses) (\<lambda>_.
     and_then (ok_or (InvalidShape NotServerAddresses) (raw_server_addresses decoder input)) (\<lambda>raw.
     and_then (ok_or MissingServerAddresses raw) (\<lambda>raw_addresses.
     and_then (parse_server_addresses 0 raw_addresses) (\<lambda>addresses.
     and_then (validate_unique_server_addresses addresses) (\<lambda>_.
     Inr \<lparr>input_server_addresses = addresses\<rparr>)))))"

section \<open>What an accepted input satisfies\<close>

lemma check_array_Inr [result_simps]:
  "check_array value limit most missing shape = Inr u \<longleftrightarrow>
     (\<exists>entries. value = Some (Array entries) \<and> length entries \<le> most)"
  by (auto simp: check_array_def split: option.splits json.splits)

lemma check_limit_Inr [result_simps]: "check_limit limit n most = Inr u \<longleftrightarrow> n \<le> most"
  by (auto simp: check_limit_def)

lemma require_list_Inr [result_simps]:
  "require_list value a b = Inr xs \<longleftrightarrow> value = Some xs \<and> xs \<noteq> []"
  by (auto simp: require_list_def result_simps)

definition tunnel_within :: "managed_session_limits \<Rightarrow> server_tunnel_config \<Rightarrow> bool" where
  "tunnel_within limits t =
     ((\<exists>tid. tunnel_config_id t = Some tid \<and> validate_opaque_control_token tid = Inr ()) \<and>
      tunnel_public_hostnames t \<noteq> [] \<and> authorized_client_identities t \<noteq> [] \<and>
      length (tunnel_public_hostnames t) \<le> max_public_hostnames_per_tunnel limits \<and>
      length (authorized_client_identities t) \<le> max_client_identities_per_tunnel limits \<and>
      list_all valid_hostname (tunnel_public_hostnames t) \<and>
      list_all client_identity_wf (authorized_client_identities t))"

lemma parsed_hostnames_valid:
  "list_all2 (\<lambda>x y. y = normalize_public_hostname x \<and> valid_hostname y) raw hs \<Longrightarrow>
     list_all valid_hostname hs \<and> length hs = length raw"
  by (induction rule: list_all2_induct) auto

lemma parsed_identities_wf:
  "list_all2 (\<lambda>x y. client_identity_from_str x = Inr y) raw ids \<Longrightarrow>
     list_all client_identity_wf ids \<and> length ids = length raw"
  by (induction rule: list_all2_induct) (auto simp: client_identity.parse_wf)

lemma parse_server_tunnel_within:
  assumes "parse_server_tunnel index raw limits totals = Inr (t, hosts, idents)"
  shows "tunnel_within limits t \<and>
    hosts = saturating_add (fst totals) (length (tunnel_public_hostnames t)) \<and>
    idents = saturating_add (snd totals) (length (authorized_client_identities t)) \<and>
    hosts \<le> max_public_hostnames_total limits \<and> idents \<le> max_client_identities_total limits"
  using assms
  by (auto simp: parse_server_tunnel_def Let_def result_simps tunnel_within_def
      dest!: parsed_hostnames_valid parsed_identities_wf)

lemma validate_unique_tunnel_ids_Inr [result_simps]:
  "validate_unique_tunnel_ids seen ts = Inr () \<longleftrightarrow>
     (\<exists>ids. map tunnel_config_id ts = map Some ids \<and> distinct ids \<and> set ids \<inter> seen = {})"
proof (induction ts arbitrary: seen)
  case (Cons t ts)
  show ?case
  proof (cases "tunnel_config_id t")
    case (Some i)
    have "(\<exists>ids. map tunnel_config_id (t # ts) = map Some ids \<and> distinct ids \<and> set ids \<inter> seen = {}) \<longleftrightarrow>
      i \<notin> seen \<and> (\<exists>ids. map tunnel_config_id ts = map Some ids \<and> distinct ids \<and> set ids \<inter> insert i seen = {})"
      (is "?l \<longleftrightarrow> ?r")
    proof
      assume ?l
      then obtain ids where "map tunnel_config_id (t # ts) = map Some ids" "distinct ids" "set ids \<inter> seen = {}"
        by blast
      with Some show ?r by (cases ids) auto
    next
      assume ?r
      then obtain ids where "i \<notin> seen" "map tunnel_config_id ts = map Some ids" "distinct ids"
          "set ids \<inter> insert i seen = {}" by blast
      with Some show ?l by (intro exI [of _ "i # ids"]) auto
    qed
    with Some show ?thesis by (simp add: Cons.IH)
  qed auto
qed auto

lemma parse_server_tunnels_within:
  assumes "parse_server_tunnels index raws limits totals = Inr ts"
    and "max_public_hostnames_total limits < usize_max" "max_client_identities_total limits < usize_max"
    and "fst totals \<le> max_public_hostnames_total limits" "snd totals \<le> max_client_identities_total limits"
  shows "length ts = length raws \<and> list_all (tunnel_within limits) ts \<and>
    fst totals + length (all_keys tunnel_public_hostnames ts) \<le> max_public_hostnames_total limits \<and>
    snd totals + length (all_keys authorized_client_identities ts) \<le> max_client_identities_total limits"
  using assms
proof (induction raws arbitrary: index totals ts)
  case (Cons raw raws)
  from Cons.prems(1) obtain t hosts idents us where
    t: "parse_server_tunnel index raw limits totals = Inr (t, hosts, idents)" and
    us: "parse_server_tunnels (Suc index) raws limits (hosts, idents) = Inr us" and ts: "ts = t # us"
    by (auto simp: result_simps)
  note one = parse_server_tunnel_within [OF t]
  then have exact: "hosts = fst totals + length (tunnel_public_hostnames t)"
    "idents = snd totals + length (authorized_client_identities t)"
    using Cons.prems(2,3) by (auto simp: saturating_add_def min_def split: if_splits)
  from Cons.IH [OF us Cons.prems(2,3)] one exact ts show ?case by simp
qed simp

definition accepted_tunnels :: "managed_session_limits \<Rightarrow> server_tunnel_config list \<Rightarrow> bool" where
  "accepted_tunnels limits ts =
     (length ts \<le> max_tunnels limits \<and> list_all (tunnel_within limits) ts \<and>
      length (all_keys tunnel_public_hostnames ts) \<le> max_public_hostnames_total limits \<and>
      length (all_keys authorized_client_identities ts) \<le> max_client_identities_total limits \<and>
      (\<exists>ids. map tunnel_config_id ts = map Some ids \<and> distinct ids) \<and>
      distinct (all_keys tunnel_public_hostnames ts) \<and>
      distinct (all_keys authorized_client_identities ts))"

definition exact_totals :: "managed_session_limits \<Rightarrow> bool" where
  "exact_totals limits =
     (max_public_hostnames_total limits < usize_max \<and> max_client_identities_total limits < usize_max)"

lemma parse_server_input_accepted:
  assumes "input_decoder_laws decoder" "exact_totals limits"
    and "parse_server_input uuid decoder input limits = Inr accepted"
  shows "accepted_tunnels limits (input_tunnels accepted)"
proof -
  from assms(3) obtain entries raws where
    entries: "json_get ''tunnels'' input = Some (Array entries)" "length entries \<le> max_tunnels limits" and
    raws: "raw_server_tunnels decoder input = Some (Some raws)"
      "parse_server_tunnels 0 raws limits (0, 0) = Inr (input_tunnels accepted)" and
    unique: "validate_unique_tunnel_ids {} (input_tunnels accepted) = Inr ()"
      "validate_unique_public_hostnames (input_tunnels accepted) = Inr ()"
      "validate_unique_client_identities (input_tunnels accepted) = Inr ()"
    by (auto simp: parse_server_input_def result_simps simp del: check_unique_Inr)
  have "length raws = length entries" by (rule decoded_tunnels_length [OF assms(1) entries(1) raws(1)])
  moreover note parse_server_tunnels_within [OF raws(2)]
  moreover have "distinct (all_keys authorized_client_identities (input_tunnels accepted))"
    using unique(3) by (simp add: validate_unique_client_identities_def distinct_map)
  ultimately show ?thesis
    using assms(2) entries(2) unique(1,2)
    by (simp add: accepted_tunnels_def exact_totals_def result_simps validate_unique_public_hostnames_def)
qed

section \<open>A decoder\<close>

text \<open>A decoder for the documented object form, used to evaluate inputs.\<close>

fun decode_field :: "(json \<Rightarrow> 'a option) \<Rightarrow> string \<Rightarrow> json \<Rightarrow> 'a option option" where
  "decode_field f key v =
     (case json_get key v of
        None \<Rightarrow> Some None
      | Some Null \<Rightarrow> Some None
      | Some x \<Rightarrow> map_option Some (f x))"

fun decode_list :: "(json \<Rightarrow> 'a option) \<Rightarrow> json \<Rightarrow> 'a list option" where
  "decode_list f (Array items) = those (map f items)"
| "decode_list f _ = None"

definition decode_tunnel :: "json \<Rightarrow> raw_server_tunnel option" where
  "decode_tunnel v =
     (if \<not> json_is_object v then None
      else
        Option.bind (decode_field json_as_str ''id'' v) (\<lambda>i.
        Option.bind (decode_field (decode_list json_as_str) ''public_hostnames'' v) (\<lambda>h.
        Option.bind (decode_field (decode_list json_as_str) ''client_identities'' v) (\<lambda>c.
        Some \<lparr>raw_id = i, raw_public_hostnames = h, raw_client_identities = c\<rparr>))))"

definition object_decoder :: input_decoder where
  "object_decoder =
     \<lparr>raw_server_tunnels = decode_field (decode_list decode_tunnel) ''tunnels'',
      raw_server_addresses = decode_field (decode_list json_as_str) ''server_addresses''\<rparr>"

lemma those_length: "those xs = Some ys \<Longrightarrow> length ys = length xs"
  by (induction xs arbitrary: ys) (auto split: option.splits)

lemma object_decoder_laws: "input_decoder_laws object_decoder"
  by (auto simp: input_decoder_laws_def object_decoder_def dest: those_length)

text \<open>
  C34: Role input that the Server accepts from Control is within every configured limit, has valid
  and unique Tunnel IDs, hostnames and identities, and so always authorizes: replacing a managed
  authorization snapshot with it succeeds exactly when no Tunnel claims the Server's own hostname.
\<close>

theorem server_input_authorizes:
  assumes "input_decoder_laws decoder" "exact_totals limits"
    and "parse_server_input uuid decoder input limits = Inr accepted"
    and "continuity (snapshot current) = Managed ids"
  shows "accepted_tunnels limits (input_tunnels accepted) \<and>
    (is_ok (prepare_managed_replacement current server (input_tunnels accepted)) \<longleftrightarrow>
       server \<notin> set (all_keys tunnel_public_hostnames (input_tunnels accepted)))"
proof -
  note accepted = parse_server_input_accepted [OF assms(1-3)]
  let ?r = "try_from_managed_tunnels server (input_tunnels accepted)"
  have "is_ok ?r \<longleftrightarrow> (\<exists>snap. ?r = Inr snap)" by (cases ?r) auto
  also have "\<dots> \<longleftrightarrow> server \<notin> set (all_keys tunnel_public_hostnames (input_tunnels accepted))"
    using accepted
    by (auto simp: result_simps accepted_tunnels_def tunnels_compatible_def tunnel_within_def list_all_iff)
  finally show ?thesis using accepted assms(4) by (simp add: prepare_managed_replacement_def)
qed

definition example_identity_text :: string where
  "example_identity_text = client_identity_display (ClientIdentity (replicate 32 7))"

definition example_input :: json where
  "example_input =
     Object [(''tunnels'', Array [Object [(''id'', String ''t1''),
        (''public_hostnames'', Array [String ''App.example'']),
        (''client_identities'', Array [String example_identity_text])]]),
       (''drain'', Bool True)]"

definition example_accepted :: "bool server_managed_input" where
  "example_accepted =
     \<lparr>input_tunnels =
        [\<lparr>tunnel_config_id = Some ''t1'', tunnel_public_hostnames = [''app.example''],
          authorized_client_identities = [ClientIdentity (replicate 32 7)]\<rparr>],
      input_replacement_generation = None, input_drain = True\<rparr>"

lemma example_identity_parses:
  "client_identity_from_str example_identity_text = Inr (ClientIdentity (replicate 32 7))"
  unfolding example_identity_text_def
  by (rule client_identity.parse_display) (simp add: client_identity_wf_def)

lemma example_input_accepted:
  "parse_server_input example_uuid object_decoder example_input default_managed_session_limits =
     Inr example_accepted"
proof -
  have "validate_opaque_control_token ''t1'' = Inr ()"
    by (simp add: validate_opaque_control_token_def utf8_count_ascii is_ascii_def
        OPAQUE_CONTROL_TOKEN_MAX_CHARS_def is_ascii_whitespace_def is_ascii_control_def)
  moreover have "validate_public_hostname ''App.example'' = Inr ''app.example''"
    by (simp add: hostname_eval)
  ultimately show ?thesis
    by (simp add: parse_server_input_def example_input_def object_decoder_def decode_tunnel_def
        check_array_def check_limit_def require_list_def parse_server_tunnel_def tunnel_id_parse_def
        saturating_add_def default_managed_session_limits_def example_identity_parses
        validate_unique_public_hostnames_def validate_unique_client_identities_def
        example_accepted_def)
qed

theorem server_input_authorizes_witness:
  "is_ok (prepare_managed_replacement \<lparr>allocation = 0, snapshot = empty_managed\<rparr> ''edge.example''
     (input_tunnels example_accepted))"
  using server_input_authorizes [OF object_decoder_laws _ example_input_accepted,
      of "\<lparr>allocation = 0, snapshot = empty_managed\<rparr>" "[]" "''edge.example''"]
  by (simp add: exact_totals_def default_managed_session_limits_def empty_managed_def
      example_accepted_def)

end
