(* ===== verification/Reconnect_Policy.thy ===== *)
theory Reconnect_Policy
  imports Prelude
begin

text \<open>
  Reconnect delays (\<open>src/src/reconnect_policy.rs\<close>). Durations are nanoseconds. The random
  generator is a parameter: a function that returns the next 64-bit value and the next generator
  state. Nothing is assumed of it. \<open>None\<close> is an index out of range or a failed conversion.
\<close>

definition RETRY_WINDOWS_SECS :: "nat list" where
  "RETRY_WINDOWS_SECS = [1, 2, 3, 5, 8, 12, 18, 27, 41, 60]"

record retry_decision =
  window :: nat
  delay :: nat
  display_delay :: nat

record 'r reconnect_policy =
  retry_count :: nat
  rng :: 'r

definition new_with_rng :: "'r \<Rightarrow> 'r reconnect_policy" where
  "new_with_rng g = \<lparr>retry_count = 0, rng = g\<rparr>"

definition is_fresh :: "'r reconnect_policy \<Rightarrow> bool" where
  "is_fresh p = (retry_count p = 0)"

definition reset_policy :: "'r reconnect_policy \<Rightarrow> 'r reconnect_policy" where
  "reset_policy p = p\<lparr>retry_count := 0\<rparr>"

definition to_u64 :: "nat \<Rightarrow> nat option" where
  "to_u64 n = (if n < 2 ^ 64 then Some n else None)"

definition jitter_delay :: "('r \<Rightarrow> u64 \<times> 'r) \<Rightarrow> nat \<Rightarrow> 'r \<Rightarrow> (nat \<times> 'r) option" where
  "jitter_delay next_u64 w g =
     Option.bind (to_u64 w) (\<lambda>upper_bound_nanos.
       if upper_bound_nanos = 0 then Some (0, g)
       else let (x, g) = next_u64 g in Some (unat x mod upper_bound_nanos, g))"

definition display_delay_secs :: "nat \<Rightarrow> nat option" where
  "display_delay_secs d =
     (let rounded = (d + 999999999) div 1000000000 in to_u64 (max rounded 1))"

definition next_retry ::
  "('r \<Rightarrow> u64 \<times> 'r) \<Rightarrow> 'r reconnect_policy \<Rightarrow> (retry_decision \<times> 'r reconnect_policy) option" where
  "next_retry next_u64 p =
     (if retry_count p < length RETRY_WINDOWS_SECS then
        let w = RETRY_WINDOWS_SECS ! retry_count p * 1000000000
        in Option.bind (jitter_delay next_u64 w (rng p)) (\<lambda>(d, g).
           Option.bind (display_delay_secs d) (\<lambda>shown.
             Some (\<lparr>window = w, delay = d, display_delay = shown\<rparr>,
                   \<lparr>retry_count = min (retry_count p + 1) (length RETRY_WINDOWS_SECS - 1),
                    rng = g\<rparr>)))
      else None)"

text \<open>A run of consecutive failures.\<close>

fun retries ::
  "('r \<Rightarrow> u64 \<times> 'r) \<Rightarrow> nat \<Rightarrow> 'r reconnect_policy \<Rightarrow> retry_decision list option" where
  "retries next_u64 0 p = Some []"
| "retries next_u64 (Suc n) p =
     Option.bind (next_retry next_u64 p) (\<lambda>(d, q). map_option ((#) d) (retries next_u64 n q))"

definition decision_ok :: "nat \<Rightarrow> retry_decision \<Rightarrow> bool" where
  "decision_ok secs d =
     (window d = secs * 1000000000 \<and> delay d < window d \<and>
      1 \<le> display_delay d \<and> display_delay d \<le> secs \<and> delay d \<le> display_delay d * 1000000000 \<and>
      (display_delay d = 1 \<or> (display_delay d - 1) * 1000000000 < delay d))"

lemma retry_window_bounds:
  assumes "i < 10"
  shows "1 \<le> RETRY_WINDOWS_SECS ! i \<and> RETRY_WINDOWS_SECS ! i \<le> 60"
proof -
  have "list_all (\<lambda>s. 1 \<le> s \<and> s \<le> 60) RETRY_WINDOWS_SECS" by (simp add: RETRY_WINDOWS_SECS_def)
  then show ?thesis using assms by (simp add: list_all_length RETRY_WINDOWS_SECS_def)
qed

lemma jitter_delay_bounded:
  assumes "0 < w" "w < 2 ^ 64"
  shows "\<exists>d g'. jitter_delay next_u64 w g = Some (d, g') \<and> d < w"
  using assms by (auto simp: jitter_delay_def to_u64_def split: prod.splits)

lemma display_delay_bounded:
  assumes "d < secs * 1000000000" "1 \<le> secs" "secs \<le> 60"
  shows "\<exists>s. display_delay_secs d = Some s \<and> 1 \<le> s \<and> s \<le> secs \<and> d \<le> s * 1000000000 \<and>
    (s = 1 \<or> (s - 1) * 1000000000 < d)"
proof -
  let ?s = "max ((d + 999999999) div 1000000000) 1"
  have "(d + 999999999) div 1000000000 \<le> secs" using assms(1) by (simp add: less_mult_imp_div_less div_le_mono)
  then have "?s \<le> secs" using assms(2) by simp
  moreover have "d \<le> ?s * 1000000000" by (simp add: max_def) linarith
  moreover have "?s = 1 \<or> (?s - 1) * 1000000000 < d" by (simp add: max_def) linarith
  ultimately show ?thesis
    using assms by (intro exI [of _ ?s]) (simp add: display_delay_secs_def to_u64_def Let_def)
qed

lemma next_retry_ok:
  assumes "retry_count p < 10"
  shows "\<exists>d q. next_retry next_u64 p = Some (d, q) \<and>
    decision_ok (RETRY_WINDOWS_SECS ! retry_count p) d \<and> retry_count q = min (retry_count p + 1) 9"
proof -
  let ?s = "RETRY_WINDOWS_SECS ! retry_count p"
  have s: "1 \<le> ?s" "?s \<le> 60" using retry_window_bounds [OF assms] by auto
  then obtain d g where d: "jitter_delay next_u64 (?s * 1000000000) (rng p) = Some (d, g)"
      "d < ?s * 1000000000"
    using jitter_delay_bounded [of "?s * 1000000000"] by fastforce
  with display_delay_bounded [OF d(2) s] assms show ?thesis
    by (auto simp: next_retry_def decision_ok_def Let_def RETRY_WINDOWS_SECS_def)
qed

lemma retries_ok:
  assumes "retry_count p = min k 9"
  shows "\<exists>ds. retries next_u64 n p = Some ds \<and> length ds = n \<and>
    (\<forall>i<n. decision_ok (RETRY_WINDOWS_SECS ! min (k + i) 9) (ds ! i))"
  using assms
proof (induction n arbitrary: p k)
  case (Suc n)
  have "retry_count p < 10" using Suc.prems by simp
  then obtain d q where d: "next_retry next_u64 p = Some (d, q)"
      "decision_ok (RETRY_WINDOWS_SECS ! retry_count p) d" "retry_count q = min (retry_count p + 1) 9"
    using next_retry_ok by blast
  from d(3) Suc.prems have "retry_count q = min (Suc k) 9" by simp
  from Suc.IH [OF this] obtain ds where ds: "retries next_u64 n q = Some ds" "length ds = n"
      "\<forall>i<n. decision_ok (RETRY_WINDOWS_SECS ! min (Suc k + i) 9) (ds ! i)" by blast
  have "decision_ok (RETRY_WINDOWS_SECS ! min (k + i) 9) ((d # ds) ! i)" if "i < Suc n" for i
    using that d(2) ds(3) Suc.prems by (cases i) simp_all
  with d(1) ds show ?case by simp
qed simp

text \<open>
  Reconnect attempts after a fresh start or a reset never panic. The delay of the i-th
  consecutive retry is drawn below the i-th window, the windows grow from one second to one
  minute and stay there, and the displayed delay is the actual one rounded up to whole seconds,
  at least one.
\<close>

theorem retry_windows_escalate:
  "\<exists>ds. retries next_u64 n (reset_policy p) = Some ds \<and> length ds = n \<and>
     (\<forall>i<n. decision_ok (RETRY_WINDOWS_SECS ! min i 9) (ds ! i))"
  using retries_ok [of "reset_policy p" 0] by (simp add: reset_policy_def)

theorem retry_windows_escalate_witness:
  "\<exists>ds. retries (\<lambda>g. (g, g + 1)) 12 (reset_policy (new_with_rng (7 :: u64))) = Some ds \<and>
     length ds = 12 \<and> decision_ok 1 (ds ! 0) \<and> decision_ok 60 (ds ! 11)"
proof -
  obtain ds where ds: "retries (\<lambda>g. (g, g + 1)) 12 (reset_policy (new_with_rng (7 :: u64))) = Some ds"
      "length ds = 12" "\<forall>i<12. decision_ok (RETRY_WINDOWS_SECS ! min i 9) (ds ! i)"
    using retry_windows_escalate by blast
  from ds(3) [rule_format, of 0] ds(3) [rule_format, of 11] ds(1,2) show ?thesis
    by (simp add: RETRY_WINDOWS_SECS_def)
qed

end
