(* ===== verification/Reconcile.thy ===== *)
theory Reconcile
  imports Managed_Input Reconnect_Policy
begin

text \<open>
  The parts of one Managed-session connection (\<open>src/src/managed_session/\<close>): the collapse queue
  (\<open>reconcile.rs\<close>), the deadlines (\<open>timing.rs\<close>), the response classes (\<open>status.rs\<close>), the
  state requests (\<open>connection.rs\<close>, \<open>state.rs\<close>) and their pacing (\<open>lifecycle.rs\<close>).
  An instant and a duration are natural numbers of milliseconds.
\<close>

section \<open>The queue\<close>

record 'i queued_snapshot =
  queued_revision :: string
  queued_input :: 'i

record 'i snapshot_queue =
  queue_pending :: "'i queued_snapshot option"
  applying :: bool

definition snapshot_queue_new :: "'i snapshot_queue" where
  "snapshot_queue_new = \<lparr>queue_pending = None, applying = False\<rparr>"

text \<open>
  The debug assertion that the caller knows the phase is part of the result: \<open>None\<close> is a failed
  assertion.
\<close>

definition note_while_applying ::
  "'i queued_snapshot \<Rightarrow> 'i snapshot_queue \<Rightarrow> (string option \<times> 'i snapshot_queue) option" where
  "note_while_applying q queue =
     (if applying queue
      then Some (map_option queued_revision (queue_pending queue), queue\<lparr>queue_pending := Some q\<rparr>)
      else None)"

definition note_when_idle ::
  "'i queued_snapshot \<Rightarrow> 'i snapshot_queue \<Rightarrow> (string option \<times> 'i snapshot_queue) option" where
  "note_when_idle q queue =
     (if \<not> applying queue
      then Some (map_option queued_revision (queue_pending queue), queue\<lparr>queue_pending := Some q\<rparr>)
      else None)"

definition take_next :: "'i snapshot_queue \<Rightarrow> 'i queued_snapshot option \<times> 'i snapshot_queue" where
  "take_next queue =
     (if applying queue then (None, queue)
      else case queue_pending queue of
             None \<Rightarrow> (None, queue)
           | Some q \<Rightarrow> (Some q, \<lparr>queue_pending = None, applying = True\<rparr>))"

definition finish_apply :: "'i snapshot_queue \<Rightarrow> 'i snapshot_queue" where
  "finish_apply queue = queue\<lparr>applying := False\<rparr>"

type_synonym applied_revision = "string option"

definition revision_matches :: "applied_revision \<Rightarrow> string \<Rightarrow> bool" where
  "revision_matches current revision = (current = Some revision)"

section \<open>Deadlines\<close>

definition FIRST_SNAPSHOT_DEADLINE :: nat where
  "FIRST_SNAPSHOT_DEADLINE = 60000"

definition SILENCE_TIMEOUT :: nat where
  "SILENCE_TIMEOUT = 60000"

record session_deadlines =
  first_snapshot_deadline :: nat
  silence_deadline :: nat
  received_first_snapshot :: bool

definition session_deadlines_new :: "nat \<Rightarrow> session_deadlines" where
  "session_deadlines_new now =
     \<lparr>first_snapshot_deadline = now + FIRST_SNAPSHOT_DEADLINE,
      silence_deadline = now + SILENCE_TIMEOUT, received_first_snapshot = False\<rparr>"

definition note_bytes :: "nat \<Rightarrow> session_deadlines \<Rightarrow> session_deadlines" where
  "note_bytes now d = d\<lparr>silence_deadline := now + SILENCE_TIMEOUT\<rparr>"

definition try_note_valid_snapshot :: "nat \<Rightarrow> session_deadlines \<Rightarrow> bool \<times> session_deadlines" where
  "try_note_valid_snapshot now d =
     (if \<not> received_first_snapshot d \<and> now \<ge> first_snapshot_deadline d then (False, d)
      else (True, note_bytes now (d\<lparr>received_first_snapshot := True\<rparr>)))"

definition deadline_expired :: "nat \<Rightarrow> session_deadlines \<Rightarrow> bool" where
  "deadline_expired now d =
     (if \<not> received_first_snapshot d \<and> now \<ge> first_snapshot_deadline d then True
      else now \<ge> silence_deadline d)"

definition next_deadline :: "session_deadlines \<Rightarrow> nat" where
  "next_deadline d =
     (if received_first_snapshot d then silence_deadline d
      else min (first_snapshot_deadline d) (silence_deadline d))"

definition next_wait :: "session_deadlines \<Rightarrow> nat \<Rightarrow> nat" where
  "next_wait d now = (let wait = next_deadline d - now in if wait = 0 then 1 else wait)"

section \<open>Responses\<close>

datatype SseResponseClass = SseSuccess | RetryableFailure
datatype StateResponseClass = StateSuccess | StateFailure

text \<open>
  Header names are lower case. A header value is text when it is visible ASCII; otherwise
  \<open>to_str\<close> fails and the value is \<open>None\<close> here.
\<close>

type_synonym headers = "(string \<times> string option) list"

definition is_trimmed :: "char \<Rightarrow> bool" where
  "is_trimmed c = (code c = 32 \<or> (9 \<le> code c \<and> code c \<le> 13))"

definition trim_text :: "string \<Rightarrow> string" where
  "trim_text s = rev (dropWhile is_trimmed (rev (dropWhile is_trimmed s)))"

definition content_type_is_event_stream :: "headers \<Rightarrow> bool" where
  "content_type_is_event_stream hs =
     (case map_of hs ''content-type'' of
        None \<Rightarrow> False
      | Some None \<Rightarrow> False
      | Some (Some value) \<Rightarrow>
          map to_ascii_lowercase (trim_text (hd (split_on (CHR '';'') value))) = ''text/event-stream'')"

definition classify_sse_response :: "nat \<Rightarrow> headers \<Rightarrow> SseResponseClass" where
  "classify_sse_response status hs =
     (if 300 \<le> status \<and> status < 400 then RetryableFailure
      else if status \<noteq> 200 then RetryableFailure
      else if \<not> content_type_is_event_stream hs then RetryableFailure
      else SseSuccess)"

definition classify_state_status :: "nat \<Rightarrow> StateResponseClass" where
  "classify_state_status status = (if status = 204 then StateSuccess else StateFailure)"

text \<open>The first frame of a response body: none, one, or a transport error.\<close>

datatype body_start = BodyEnded | BodyFrame | BodyError

definition classify_state_incoming :: "nat \<Rightarrow> body_start \<Rightarrow> (unit, StateResponseClass) result" where
  "classify_state_incoming status body =
     (if classify_state_status status \<noteq> StateSuccess then Inr StateFailure
      else case body of
             BodyEnded \<Rightarrow> Inr StateSuccess
           | BodyFrame \<Rightarrow> Inr StateFailure
           | BodyError \<Rightarrow> Inl ())"

definition session_id :: "'u uuid_ops \<Rightarrow> headers \<Rightarrow> string option" where
  "session_id uuid hs =
     (case filter (\<lambda>(name, _). name = ''runewarp-session-id'') hs of
        [(_, value)] \<Rightarrow>
          Option.bind value (\<lambda>text.
          Option.bind (try_parse uuid text) (\<lambda>u.
            if get_version uuid u \<noteq> SortRand \<or> get_variant uuid u \<noteq> RFC4122 \<or> hyphenated uuid u \<noteq> text
            then None else Some text))
      | _ \<Rightarrow> None)"

datatype ManagedSessionRole = ServerRole | ClientRole

fun events_path :: "ManagedSessionRole \<Rightarrow> string" where
  "events_path ServerRole = ''/v1/server/events''"
| "events_path ClientRole = ''/v1/client/events''"

fun state_path :: "ManagedSessionRole \<Rightarrow> string" where
  "state_path ServerRole = ''/v1/server/state''"
| "state_path ClientRole = ''/v1/client/state''"

definition control_authority :: "string \<Rightarrow> nat \<Rightarrow> string" where
  "control_authority host p = (if p = 443 then host else host @ CHR '':'' # show_nat p)"

datatype ConnectionError =
    Dns | Connect | Tls | Alpn | ServerName | Http | SseRejected | SessionIdRejected
  | StateRejected | StateRequestTimeout | StateResponseTimeout | Body

text \<open>
  What the transport reports of a state request: the response headers within the request deadline,
  then the start of the body within the response deadline. \<open>None\<close> is an elapsed deadline.
\<close>

definition put_applied_revision ::
  "(unit, nat) result option \<Rightarrow> body_start option \<Rightarrow> (ConnectionError, unit) result" where
  "put_applied_revision response body =
     and_then (ok_or StateRequestTimeout response) (\<lambda>response.
     and_then (map_err (\<lambda>_. Http) response) (\<lambda>status.
     and_then
       (if classify_state_status status \<noteq> StateSuccess then Inr StateFailure
        else and_then (ok_or StateResponseTimeout body) (\<lambda>start.
               map_err (\<lambda>_. Http) (classify_state_incoming status start)))
       (\<lambda>class. if class \<noteq> StateSuccess then Inl StateRejected else Inr ())))"

definition open_sse ::
  "'u uuid_ops \<Rightarrow> nat \<Rightarrow> headers \<Rightarrow> (ConnectionError, string) result" where
  "open_sse uuid status hs =
     (if classify_sse_response status hs \<noteq> SseSuccess then Inl SseRejected
      else ok_or SessionIdRejected (session_id uuid hs))"

text \<open>The state document: the session's revision first, then the role's facts but for that name.\<close>

definition state_document :: "string \<Rightarrow> (string \<times> json) list \<Rightarrow> (string \<times> json) list" where
  "state_document revision facts =
     (''revision'', String revision) # filter (\<lambda>(name, _). name \<noteq> ''revision'') facts"

section \<open>Pacing of state requests\<close>

definition STATE_REQUEST_SPACING :: nat where
  "STATE_REQUEST_SPACING = 1000"

text \<open>
  A request in flight is the revision it reports. The field \<open>started\<close> records every request
  begun on the connection, newest first, with its start.
\<close>

record report_state =
  in_flight :: "string option"
  report_pending :: bool
  report_revision :: "string option"
  last_started :: "nat option"
  started :: "(string \<times> nat) list"

definition report_state_default :: report_state where
  "report_state_default =
     \<lparr>in_flight = None, report_pending = False, report_revision = None, last_started = None,
      started = []\<rparr>"

definition next_start_at :: "report_state \<Rightarrow> nat option" where
  "next_start_at r = map_option (\<lambda>t. t + STATE_REQUEST_SPACING) (last_started r)"

definition spacing_wait :: "report_state \<Rightarrow> nat option" where
  "spacing_wait r =
     (if report_pending r \<and> in_flight r = None \<and> report_revision r \<noteq> None then next_start_at r
      else None)"

definition drive_report :: "nat \<Rightarrow> report_state \<Rightarrow> report_state" where
  "drive_report now r =
     (if in_flight r \<noteq> None \<or> \<not> report_pending r then r
      else
        case report_revision r of
          None \<Rightarrow> r
        | Some revision \<Rightarrow>
            if (case next_start_at r of None \<Rightarrow> False | Some start_at \<Rightarrow> now < start_at) then r
            else r\<lparr>report_pending := False, last_started := Some now, in_flight := Some revision,
                   started := (revision, now) # started r\<rparr>)"

definition schedule_report :: "nat \<Rightarrow> string \<Rightarrow> report_state \<Rightarrow> report_state" where
  "schedule_report now revision r =
     drive_report now (r\<lparr>report_revision := Some revision, report_pending := True\<rparr>)"

definition note_role_state_changed :: "nat \<Rightarrow> report_state \<Rightarrow> report_state" where
  "note_role_state_changed now r =
     (if report_revision r \<noteq> None then drive_report now (r\<lparr>report_pending := True\<rparr>) else r)"

end
