(* ===== verification/Managed_Session.thy ===== *)
theory Managed_Session
  imports Reconcile
begin

text \<open>
  The state machine of one Managed-session connection (\<open>src/src/managed_session/lifecycle.rs\<close>)
  and the reconnect loop around it (\<open>session.rs\<close>). The role adapter is a parameter: the parser
  of its input and, per step, the outcome of an apply. One step is one pass through the loop head
  or one branch of its \<open>select!\<close>; every reading of the clock is an argument.
\<close>

datatype ManagedSessionEvent =
    Snapshot string | Applying string | Applied string | Rejected string | Superseded string
  | Reconnecting nat

datatype ManagedSessionError =
    ConnectionFailed ConnectionError | SseFailed SseParseError | SnapshotFailed SnapshotError
  | SilenceTimeout | FirstSnapshotTimeout | StateAcknowledgmentTimeout | InputLimit InputError
  | StreamEnded | Unreachable

text \<open>
  \<open>Unreachable\<close> is not an error of the source: it stands for a failed debug assertion or an
  \<open>unreachable!\<close>, and is proved never to occur.
\<close>

datatype phase = Idle | ApplyingPhase string

datatype location = Head | Select

record 'i lifecycle =
  parser :: sse_parser
  deadlines :: session_deadlines
  received_valid_snapshot :: bool
  queue :: "'i snapshot_queue"
  report :: report_state
  has_role_state :: bool
  limits :: managed_session_limits
  phase :: phase
  location :: location
  applied :: applied_revision
  events :: "ManagedSessionEvent list"

text \<open>The events are kept newest first.\<close>

definition emit :: "ManagedSessionEvent \<Rightarrow> 'i lifecycle \<Rightarrow> 'i lifecycle" where
  "emit e s = s\<lparr>events := e # events s\<rparr>"

definition lifecycle_new ::
  "nat \<Rightarrow> managed_session_limits \<Rightarrow> bool \<Rightarrow> applied_revision \<Rightarrow> 'i lifecycle" where
  "lifecycle_new now lims role current =
     \<lparr>parser = sse_parser_new (sse_limits_of lims), deadlines = session_deadlines_new now,
      received_valid_snapshot = False, queue = snapshot_queue_new, report = report_state_default,
      has_role_state = role, limits = lims, phase = Idle, location = Head, applied = current,
      events = []\<rparr>"

definition handle_timer :: "nat \<Rightarrow> 'i lifecycle \<Rightarrow> (ManagedSessionError, unit) result" where
  "handle_timer now s =
     (if deadline_expired now (deadlines s) then
        if \<not> received_valid_snapshot s \<and> now \<ge> first_snapshot_deadline (deadlines s)
        then Inl FirstSnapshotTimeout
        else Inl SilenceTimeout
      else Inr ())"

section \<open>Snapshots arriving\<close>

type_synonym 'i input_parser = "json \<Rightarrow> managed_session_limits \<Rightarrow> (InputError, 'i) result"

definition accept_envelope ::
  "'i input_parser \<Rightarrow> nat \<Rightarrow> snapshot_envelope \<Rightarrow> bool \<Rightarrow> 'i lifecycle
     \<Rightarrow> (ManagedSessionError, 'i lifecycle) result" where
  "accept_envelope parse_input now envelope applying_now s =
     (if \<not> applying_now \<and> revision_matches (applied s) (envelope_revision envelope)
      then Inr (s\<lparr>report := schedule_report now (envelope_revision envelope) (report s)\<rparr>)
      else
        case parse_input (envelope_input envelope) (limits s) of
          Inl (InputLimitExceeded limit v most) \<Rightarrow> Inl (InputLimit (InputLimitExceeded limit v most))
        | Inl _ \<Rightarrow> Inr (emit (Rejected (envelope_revision envelope)) s)
        | Inr input \<Rightarrow>
            let queued = \<lparr>queued_revision = envelope_revision envelope, queued_input = input\<rparr>
            in case (if applying_now then note_while_applying queued (queue s)
                     else note_when_idle queued (queue s)) of
                 None \<Rightarrow> Inl Unreachable
               | Some (superseded, q) \<Rightarrow>
                   Inr (case superseded of
                          None \<Rightarrow> s\<lparr>queue := q\<rparr>
                        | Some revision \<Rightarrow> emit (Superseded revision) (s\<lparr>queue := q\<rparr>)))"

text \<open>The two readings of the clock for one item: when its snapshot is noted and when it is
  accepted.\<close>

definition ingest_item ::
  "(string \<Rightarrow> raw_snapshot option) \<Rightarrow> 'i input_parser \<Rightarrow> nat \<Rightarrow> nat \<Rightarrow> bool \<Rightarrow> SseParseItem
     \<Rightarrow> 'i lifecycle \<Rightarrow> (ManagedSessionError, 'i lifecycle) result" where
  "ingest_item from_str parse_input t u applying_now item s =
     (case item of
        Comment \<Rightarrow> Inr s
      | Event event \<Rightarrow>
          if event_type event = None \<and> event_data event = [] then Inr s
          else
            and_then (map_err SnapshotFailed
              (parse_snapshot_event from_str (event_type event) (event_data event) (limits s)))
              (\<lambda>envelope.
            let (ok, d) = try_note_valid_snapshot t (deadlines s)
            in if \<not> ok then Inl FirstSnapshotTimeout
               else accept_envelope parse_input u envelope applying_now
                      (emit (Snapshot (envelope_revision envelope))
                        (s\<lparr>deadlines := d, received_valid_snapshot := True\<rparr>))))"

fun ingest_items ::
  "(string \<Rightarrow> raw_snapshot option) \<Rightarrow> 'i input_parser \<Rightarrow> (nat \<Rightarrow> nat) \<Rightarrow> bool \<Rightarrow> SseParseItem list
     \<Rightarrow> 'i lifecycle \<Rightarrow> (ManagedSessionError, 'i lifecycle) result" where
  "ingest_items from_str parse_input clock applying_now [] s = Inr s"
| "ingest_items from_str parse_input clock applying_now (item # items) s =
     and_then (ingest_item from_str parse_input (clock 0) (clock 1) applying_now item s)
       (ingest_items from_str parse_input (\<lambda>i. clock (i + 2)) applying_now items)"

definition ingest_chunk ::
  "(string \<Rightarrow> raw_snapshot option) \<Rightarrow> 'i input_parser \<Rightarrow> (nat \<Rightarrow> nat)
     \<Rightarrow> (ConnectionError, string option) result \<Rightarrow> bool \<Rightarrow> 'i lifecycle
     \<Rightarrow> (ManagedSessionError, 'i lifecycle) result" where
  "ingest_chunk from_str parse_input clock chunk applying_now s =
     and_then (map_err ConnectionFailed chunk) (\<lambda>chunk.
     and_then (ok_or StreamEnded chunk) (\<lambda>bytes.
     if bytes = [] then Inr s
     else
       let s = s\<lparr>deadlines := note_bytes (clock 0) (deadlines s)\<rparr>
       in and_then (map_err SseFailed (push (parser s) bytes)) (\<lambda>(p, items).
            ingest_items from_str parse_input (\<lambda>i. clock (Suc i)) applying_now items
              (s\<lparr>parser := p\<rparr>))))"

section \<open>The loop\<close>

definition on_report_finished ::
  "nat \<Rightarrow> (ConnectionError, unit) result \<Rightarrow> 'i lifecycle \<Rightarrow> (ManagedSessionError, 'i lifecycle) result" where
  "on_report_finished now res s =
     (case res of
        Inr () \<Rightarrow> Inr (s\<lparr>report := drive_report now (report s)\<rparr>)
      | Inl StateRequestTimeout \<Rightarrow> Inl StateAcknowledgmentTimeout
      | Inl StateResponseTimeout \<Rightarrow> Inl StateAcknowledgmentTimeout
      | Inl error \<Rightarrow> Inl (ConnectionFailed error))"

text \<open>The loop head up to the \<open>select!\<close>: three clock readings.\<close>

definition loop_head ::
  "nat \<Rightarrow> nat \<Rightarrow> nat \<Rightarrow> 'i lifecycle \<Rightarrow> (ManagedSessionError, 'i lifecycle) result" where
  "loop_head t u v s =
     (let s = s\<lparr>report := drive_report t (report s)\<rparr>
      in and_then (handle_timer u s) (\<lambda>_.
         if phase s \<noteq> Idle then Inr (s\<lparr>location := Select\<rparr>)
         else
           case take_next (queue s) of
             (None, q) \<Rightarrow> Inr (s\<lparr>queue := q, location := Select\<rparr>)
           | (Some candidate, q) \<Rightarrow>
               if revision_matches (applied s) (queued_revision candidate)
               then Inr (s\<lparr>queue := finish_apply q,
                           report := schedule_report v (queued_revision candidate) (report s)\<rparr>)
               else Inr (emit (Applying (queued_revision candidate))
                      (s\<lparr>queue := q, phase := ApplyingPhase (queued_revision candidate)\<rparr>))))"

definition apply_finished ::
  "nat \<Rightarrow> bool \<Rightarrow> 'i lifecycle \<Rightarrow> (ManagedSessionError, 'i lifecycle) result" where
  "apply_finished now ok s =
     (case phase s of
        Idle \<Rightarrow> Inl Unreachable
      | ApplyingPhase revision \<Rightarrow>
          let s = (if ok
                   then let s = emit (Applied revision) (s\<lparr>applied := Some revision\<rparr>)
                        in s\<lparr>report := schedule_report now revision (report s)\<rparr>
                   else emit (Rejected revision) s)
          in Inr (s\<lparr>queue := finish_apply (queue s), phase := Idle, location := Head\<rparr>))"

datatype label =
    LoopHead nat nat nat
  | ApplyFinished nat bool
  | Timer nat
  | Chunk "nat \<Rightarrow> nat" "(ConnectionError, string option) result"
  | ReportFinished nat "(ConnectionError, unit) result"
  | SpacingElapsed nat
  | RoleChanged nat

text \<open>Which branch can be taken.\<close>

fun enabled :: "label \<Rightarrow> 'i lifecycle \<Rightarrow> bool" where
  "enabled (LoopHead t u v) s = (location s = Head)"
| "enabled (ApplyFinished t ok) s = (location s = Select \<and> phase s \<noteq> Idle)"
| "enabled (Timer t) s = (location s = Select)"
| "enabled (Chunk clock chunk) s = (location s = Select)"
| "enabled (ReportFinished t res) s = (location s = Select \<and> in_flight (report s) \<noteq> None)"
| "enabled (SpacingElapsed t) s =
     (location s = Select \<and> (\<exists>start_at \<le> t. spacing_wait (report s) = Some start_at))"
| "enabled (RoleChanged t) s = (location s = Select \<and> has_role_state s)"

definition to_head :: "'i lifecycle \<Rightarrow> 'i lifecycle" where
  "to_head s = s\<lparr>location := Head\<rparr>"

fun perform ::
  "(string \<Rightarrow> raw_snapshot option) \<Rightarrow> 'i input_parser \<Rightarrow> label \<Rightarrow> 'i lifecycle
     \<Rightarrow> (ManagedSessionError, 'i lifecycle) result" where
  "perform from_str parse_input (LoopHead t u v) s = loop_head t u v s"
| "perform from_str parse_input (ApplyFinished t ok) s = apply_finished t ok s"
| "perform from_str parse_input (Timer t) s =
     and_then (handle_timer t s) (\<lambda>_. Inr (to_head s))"
| "perform from_str parse_input (Chunk clock chunk) s =
     and_then (ingest_chunk from_str parse_input clock chunk (phase s \<noteq> Idle) s)
       (\<lambda>s. Inr (to_head s))"
| "perform from_str parse_input (ReportFinished t res) s =
     and_then (on_report_finished t res (s\<lparr>report := (report s)\<lparr>in_flight := None\<rparr>\<rparr>))
       (\<lambda>s. Inr (to_head s))"
| "perform from_str parse_input (SpacingElapsed t) s = Inr (to_head s)"
| "perform from_str parse_input (RoleChanged t) s =
     Inr (to_head (s\<lparr>report := note_role_state_changed t (report s)\<rparr>))"

text \<open>
  Reachable states, under a guard that restricts which labels may happen in which state. The guard
  that is always true gives every run.
\<close>

inductive lifecycle_reachable ::
  "(string \<Rightarrow> raw_snapshot option) \<Rightarrow> 'i input_parser \<Rightarrow> (label \<Rightarrow> 'i lifecycle \<Rightarrow> bool)
     \<Rightarrow> 'i lifecycle \<Rightarrow> 'i lifecycle \<Rightarrow> bool"
  for from_str parse_input guard s0 where
  start: "lifecycle_reachable from_str parse_input guard s0 s0"
| step: "lifecycle_reachable from_str parse_input guard s0 s \<Longrightarrow> enabled l s \<Longrightarrow> guard l s \<Longrightarrow>
     perform from_str parse_input l s = Inr s' \<Longrightarrow>
     lifecycle_reachable from_str parse_input guard s0 s'"

section \<open>Pacing\<close>

definition paced :: "report_state \<Rightarrow> bool" where
  "paced r =
     (successively (\<lambda>later earlier. snd earlier + STATE_REQUEST_SPACING \<le> snd later) (started r) \<and>
      last_started r = (case started r of [] \<Rightarrow> None | (_, t) # _ \<Rightarrow> Some t))"

text \<open>Every request begun, and the one scheduled, is for a revision of a given set.\<close>

definition reports_only :: "string set \<Rightarrow> report_state \<Rightarrow> bool" where
  "reports_only revisions r =
     (fst ` set (started r) \<subseteq> revisions \<and> set_option (report_revision r) \<subseteq> revisions)"

definition report_ok :: "string set \<Rightarrow> report_state \<Rightarrow> bool" where
  "report_ok revisions r = (paced r \<and> reports_only revisions r)"

lemma drive_report_revision [simp]: "report_revision (drive_report now r) = report_revision r"
  by (simp add: drive_report_def split: option.split)

lemma schedule_report_revision [simp]:
  "report_revision (schedule_report now revision r) = Some revision"
  by (simp add: schedule_report_def)

lemma note_role_state_changed_revision [simp]:
  "report_revision (note_role_state_changed now r) = report_revision r"
  by (simp add: note_role_state_changed_def)

lemma drive_report_cases:
  obtains "drive_report now r = r"
  | revision where "report_revision r = Some revision" "in_flight r = None" "report_pending r"
      "\<And>start_at. next_start_at r = Some start_at \<Longrightarrow> start_at \<le> now"
      "drive_report now r = r\<lparr>report_pending := False, last_started := Some now,
         in_flight := Some revision, started := (revision, now) # started r\<rparr>"
  by (cases "in_flight r \<noteq> None \<or> \<not> report_pending r"; cases "report_revision r"; cases "next_start_at r";
      cases "now < the (next_start_at r)")
    (auto simp: drive_report_def not_less)

lemma drive_report_ok: "report_ok revisions r \<Longrightarrow> report_ok revisions (drive_report now r)"
proof (cases rule: drive_report_cases [of now r])
  case (2 revision)
  assume ok: "report_ok revisions r"
  have "snd (hd (started r)) + STATE_REQUEST_SPACING \<le> now" if "started r \<noteq> []"
    using ok 2(4) that
    by (cases "started r") (auto simp: report_ok_def paced_def next_start_at_def)
  with ok 2 show ?thesis
    by (cases "started r") (auto simp: report_ok_def paced_def reports_only_def)
qed simp

lemma schedule_report_ok:
  "report_ok revisions r \<Longrightarrow> revision \<in> revisions \<Longrightarrow> report_ok revisions (schedule_report now revision r)"
  unfolding schedule_report_def
  by (rule drive_report_ok) (simp add: report_ok_def paced_def reports_only_def)

lemma note_role_state_changed_ok:
  assumes "report_ok revisions r"
  shows "report_ok revisions (note_role_state_changed now r)"
proof -
  have "report_ok revisions (r\<lparr>report_pending := True\<rparr>)"
    using assms by (simp add: report_ok_def paced_def reports_only_def)
  then show ?thesis using assms by (simp add: note_role_state_changed_def drive_report_ok)
qed

lemma report_ok_mono: "report_ok A r \<Longrightarrow> A \<subseteq> B \<Longrightarrow> report_ok B r"
  by (auto simp: report_ok_def reports_only_def)

lemma report_ok_in_flight: "report_ok A (r\<lparr>in_flight := f\<rparr>) = report_ok A r"
  by (simp add: report_ok_def paced_def reports_only_def)

lemmas report_ok_intros =
  drive_report_ok schedule_report_ok note_role_state_changed_ok

section \<open>The invariant\<close>

definition ever_applied :: "applied_revision \<Rightarrow> 'i lifecycle \<Rightarrow> string set" where
  "ever_applied before s = set_option before \<union> {r. Applied r \<in> set (events s)}"

definition applied_ok :: "applied_revision \<Rightarrow> 'i lifecycle \<Rightarrow> bool" where
  "applied_ok before s =
     (report_ok (ever_applied before s) (report s) \<and>
      set_option (applied s) \<subseteq> ever_applied before s \<and>
      set_option (report_revision (report s)) \<subseteq> set_option (applied s))"

definition flags_ok :: "'i lifecycle \<Rightarrow> bool" where
  "flags_ok s =
     ((applying (queue s) \<longleftrightarrow> phase s \<noteq> Idle) \<and>
      (received_valid_snapshot s \<longleftrightarrow> received_first_snapshot (deadlines s)))"

definition select_ok :: "'i lifecycle \<Rightarrow> bool" where
  "select_ok s = (location s = Select \<longrightarrow> phase s = Idle \<longrightarrow> queue_pending (queue s) = None)"

lemma ever_applied_emit:
  "ever_applied before (emit e s) =
     (case e of Applied r \<Rightarrow> insert r (ever_applied before s) | _ \<Rightarrow> ever_applied before s)"
  by (auto simp: ever_applied_def emit_def split: ManagedSessionEvent.split)

lemma ever_applied_update [simp]:
  "ever_applied before (s\<lparr>report := r\<rparr>) = ever_applied before s"
  "ever_applied before (s\<lparr>queue := q\<rparr>) = ever_applied before s"
  "ever_applied before (s\<lparr>deadlines := d\<rparr>) = ever_applied before s"
  "ever_applied before (s\<lparr>parser := p\<rparr>) = ever_applied before s"
  "ever_applied before (s\<lparr>received_valid_snapshot := b\<rparr>) = ever_applied before s"
  "ever_applied before (s\<lparr>phase := f\<rparr>) = ever_applied before s"
  "ever_applied before (s\<lparr>location := l\<rparr>) = ever_applied before s"
  "ever_applied before (s\<lparr>applied := a\<rparr>) = ever_applied before s"
  by (simp_all add: ever_applied_def)

lemma emit_simps [simp]:
  "parser (emit e s) = parser s" "deadlines (emit e s) = deadlines s"
  "received_valid_snapshot (emit e s) = received_valid_snapshot s" "queue (emit e s) = queue s"
  "report (emit e s) = report s" "has_role_state (emit e s) = has_role_state s"
  "limits (emit e s) = limits s" "phase (emit e s) = phase s" "location (emit e s) = location s"
  "applied (emit e s) = applied s" "events (emit e s) = e # events s"
  by (simp_all add: emit_def)

lemma applied_ok_emit:
  assumes "applied_ok before s" "\<And>r. e \<noteq> Applied r"
  shows "applied_ok before (emit e s)"
proof -
  have "ever_applied before (emit e s) = ever_applied before s"
    using assms(2) by (cases e) (auto simp: ever_applied_emit)
  with assms(1) show ?thesis by (simp add: applied_ok_def)
qed

lemma applied_ok_cong:
  assumes "applied_ok before s" "report t = report s" "applied t = applied s" "events t = events s"
  shows "applied_ok before t"
  using assms by (simp add: applied_ok_def ever_applied_def)

lemma applied_ok_schedule:
  assumes "applied_ok before s" "applied s = Some revision"
  shows "applied_ok before (s\<lparr>report := schedule_report now revision (report s)\<rparr>)"
  using assms by (simp add: applied_ok_def schedule_report_ok)

lemma applied_ok_drive:
  assumes "applied_ok before s"
  shows "applied_ok before (s\<lparr>report := drive_report now (report s)\<rparr>)"
  using assms by (simp add: applied_ok_def drive_report_ok)

section \<open>Preservation\<close>

text \<open>What handling one item of a chunk keeps.\<close>

definition arrival_ok :: "applied_revision \<Rightarrow> 'i lifecycle \<Rightarrow> 'i lifecycle \<Rightarrow> bool" where
  "arrival_ok before s t =
     (applied_ok before t \<and> flags_ok t \<and> phase t = phase s \<and> location t = location s \<and>
      applied t = applied s)"

lemma note_queue:
  "applying q \<Longrightarrow> note_while_applying c q =
     Some (map_option queued_revision (queue_pending q), q\<lparr>queue_pending := Some c\<rparr>)"
  "\<not> applying q \<Longrightarrow> note_when_idle c q =
     Some (map_option queued_revision (queue_pending q), q\<lparr>queue_pending := Some c\<rparr>)"
  by (simp_all add: note_while_applying_def note_when_idle_def)

lemma accept_envelope_cases:
  assumes "flags_ok s"
  obtains (same) "phase s = Idle" "applied s = Some (envelope_revision env)"
      "accept_envelope parse now env (phase s \<noteq> Idle) s =
         Inr (s\<lparr>report := schedule_report now (envelope_revision env) (report s)\<rparr>)"
  | (limit) e where "accept_envelope parse now env (phase s \<noteq> Idle) s = Inl (InputLimit e)"
  | (invalid) "accept_envelope parse now env (phase s \<noteq> Idle) s =
         Inr (emit (Rejected (envelope_revision env)) s)"
  | (queued) c t where "queued_revision c = envelope_revision env"
      "t = s\<lparr>queue := (queue s)\<lparr>queue_pending := Some c\<rparr>\<rparr>"
      "accept_envelope parse now env (phase s \<noteq> Idle) s =
         Inr (case queue_pending (queue s) of None \<Rightarrow> t | Some p \<Rightarrow> emit (Superseded (queued_revision p)) t)"
proof (cases "phase s = Idle \<and> applied s = Some (envelope_revision env)")
  case True
  then show ?thesis by (intro same) (simp_all add: accept_envelope_def revision_matches_def)
next
  case False
  show ?thesis
  proof (cases "parse (envelope_input env) (limits s)")
    case (Inl e)
    with False show ?thesis
      by (cases e) (auto simp: accept_envelope_def revision_matches_def intro: limit invalid)
  next
    case (Inr input)
    let ?c = "\<lparr>queued_revision = envelope_revision env, queued_input = input\<rparr>"
    show ?thesis
      by (rule queued [of ?c])
        (use False Inr assms in \<open>auto simp: accept_envelope_def revision_matches_def flags_ok_def
          note_queue Let_def split: option.splits\<close>)
  qed
qed

lemma accept_envelope_keeps:
  assumes "applied_ok before s" "flags_ok s"
  shows "accept_envelope parse now env (phase s \<noteq> Idle) s \<noteq> Inl Unreachable"
    and "accept_envelope parse now env (phase s \<noteq> Idle) s = Inr t \<Longrightarrow> arrival_ok before s t"
proof -
  show "accept_envelope parse now env (phase s \<noteq> Idle) s \<noteq> Inl Unreachable"
    by (cases rule: accept_envelope_cases [OF assms(2), of env parse now]) auto
  show "arrival_ok before s t" if "accept_envelope parse now env (phase s \<noteq> Idle) s = Inr t"
  proof (cases rule: accept_envelope_cases [OF assms(2), of env parse now])
    case 1
    with that assms show ?thesis
      by (auto simp: arrival_ok_def flags_ok_def applied_ok_schedule)
  next
    case 3
    with that assms show ?thesis
      by (auto simp: arrival_ok_def flags_ok_def intro: applied_ok_emit)
  next
    case (4 c u)
    have "applied_ok before u" using 4(2) by (intro applied_ok_cong [OF assms(1)]) simp_all
    with 4 that assms show ?thesis
      by (auto simp: arrival_ok_def flags_ok_def intro: applied_ok_emit split: option.splits)
  qed (use that in simp)
qed

text \<open>A valid snapshot noted in time.\<close>

definition note_snapshot :: "nat \<Rightarrow> string \<Rightarrow> 'i lifecycle \<Rightarrow> 'i lifecycle" where
  "note_snapshot t r s =
     emit (Snapshot r) (s\<lparr>deadlines := snd (try_note_valid_snapshot t (deadlines s)),
       received_valid_snapshot := True\<rparr>)"

lemma note_snapshot_simps [simp]:
  "phase (note_snapshot t r s) = phase s" "location (note_snapshot t r s) = location s"
  "applied (note_snapshot t r s) = applied s" "queue (note_snapshot t r s) = queue s"
  "report (note_snapshot t r s) = report s" "events (note_snapshot t r s) = Snapshot r # events s"
  by (simp_all add: note_snapshot_def)

lemma note_snapshot_keeps:
  assumes "applied_ok before s" "flags_ok s" "fst (try_note_valid_snapshot t (deadlines s))"
  shows "applied_ok before (note_snapshot t r s) \<and> flags_ok (note_snapshot t r s)"
proof
  have "applied_ok before (s\<lparr>deadlines := snd (try_note_valid_snapshot t (deadlines s)),
      received_valid_snapshot := True\<rparr>)"
    by (rule applied_ok_cong [OF assms(1)]) simp_all
  then show "applied_ok before (note_snapshot t r s)"
    unfolding note_snapshot_def by (rule applied_ok_emit) simp
  show "flags_ok (note_snapshot t r s)"
    using assms(2,3)
    by (auto simp: note_snapshot_def flags_ok_def try_note_valid_snapshot_def note_bytes_def
        split: if_splits)
qed

text \<open>The items that are interpreted as a snapshot.\<close>

fun is_snapshot_item :: "SseParseItem \<Rightarrow> bool" where
  "is_snapshot_item Comment = False"
| "is_snapshot_item (Event event) = (\<not> (event_type event = None \<and> event_data event = []))"

lemma ingest_item_cases:
  obtains "\<not> is_snapshot_item item" "ingest_item from_str parse t u b item s = Inr s"
  | e where "ingest_item from_str parse t u b item s = Inl e" "e \<noteq> Unreachable"
  | env where "is_snapshot_item item" "fst (try_note_valid_snapshot t (deadlines s))"
      "ingest_item from_str parse t u b item s =
         accept_envelope parse u env b (note_snapshot t (envelope_revision env) s)"
proof (cases item)
  case Comment
  then show ?thesis by (intro that(1)) (simp_all add: ingest_item_def)
next
  case (Event event)
  show ?thesis
  proof (cases "event_type event = None \<and> event_data event = []")
    case True
    with Event show ?thesis by (intro that(1)) (simp_all add: ingest_item_def)
  next
    case False
    show ?thesis
    proof (cases "parse_snapshot_event from_str (event_type event) (event_data event) (limits s)")
      case (Inl e)
      with Event False show ?thesis by (intro that(2) [of "SnapshotFailed e"]) (auto simp: ingest_item_def)
    next
      case (Inr env)
      obtain ok d where ok: "try_note_valid_snapshot t (deadlines s) = (ok, d)" by force
      with Event False Inr that(2) [of FirstSnapshotTimeout] that(3) [of env] show ?thesis
        by (cases ok) (auto simp: ingest_item_def note_snapshot_def)
    qed
  qed
qed

lemma ingest_item_keeps:
  assumes "applied_ok before s" "flags_ok s"
  shows "ingest_item from_str parse t u (phase s \<noteq> Idle) item s \<noteq> Inl Unreachable"
    and "ingest_item from_str parse t u (phase s \<noteq> Idle) item s = Inr s' \<Longrightarrow> arrival_ok before s s'"
proof -
  have noted: "applied_ok before (note_snapshot t r s)" "flags_ok (note_snapshot t r s)"
    if "fst (try_note_valid_snapshot t (deadlines s))" for r
    using note_snapshot_keeps [OF assms that] by simp_all
  show "ingest_item from_str parse t u (phase s \<noteq> Idle) item s \<noteq> Inl Unreachable"
    by (cases rule: ingest_item_cases [of item from_str parse t u "phase s \<noteq> Idle" s])
      (use accept_envelope_keeps(1) [OF noted] in auto)
  show "arrival_ok before s s'" if "ingest_item from_str parse t u (phase s \<noteq> Idle) item s = Inr s'"
  proof (cases rule: ingest_item_cases [of item from_str parse t u "phase s \<noteq> Idle" s])
    case 1
    with that assms show ?thesis by (simp add: arrival_ok_def)
  next
    case (3 env)
    with that accept_envelope_keeps(2) [OF noted [OF 3(2)], of parse u env] show ?thesis
      by (simp add: arrival_ok_def)
  qed (use that in simp)
qed

lemma ingest_items_keeps:
  assumes "applied_ok before s" "flags_ok s"
  shows "ingest_items from_str parse clock (phase s \<noteq> Idle) items s \<noteq> Inl Unreachable"
    and "ingest_items from_str parse clock (phase s \<noteq> Idle) items s = Inr s' \<Longrightarrow> arrival_ok before s s'"
proof -
  have "ingest_items from_str parse clock (phase s \<noteq> Idle) items s \<noteq> Inl Unreachable \<and>
    (\<forall>s'. ingest_items from_str parse clock (phase s \<noteq> Idle) items s = Inr s' \<longrightarrow> arrival_ok before s s')"
    using assms
  proof (induction items arbitrary: clock s)
    case Nil
    then show ?case by (simp add: arrival_ok_def)
  next
    case (Cons item items)
    show ?case
    proof (cases "ingest_item from_str parse (clock 0) (clock 1) (phase s \<noteq> Idle) item s")
      case (Inl e)
      with ingest_item_keeps(1) [OF Cons.prems, of from_str parse "clock 0" "clock 1" item] show ?thesis
        by simp
    next
      case (Inr s1)
      from ingest_item_keeps(2) [OF Cons.prems this] have s1: "arrival_ok before s s1" .
      then have "applied_ok before s1" "flags_ok s1" "phase s1 = phase s"
        by (simp_all add: arrival_ok_def)
      from Cons.IH [OF this(1,2), of "\<lambda>i. clock (i + 2)"] this(3) s1 Inr show ?thesis
        by (simp add: arrival_ok_def)
    qed
  qed
  then show "ingest_items from_str parse clock (phase s \<noteq> Idle) items s \<noteq> Inl Unreachable"
    and "ingest_items from_str parse clock (phase s \<noteq> Idle) items s = Inr s' \<Longrightarrow> arrival_ok before s s'"
    by blast+
qed

lemma ingest_chunk_keeps:
  assumes "applied_ok before s" "flags_ok s"
  shows "ingest_chunk from_str parse clock chunk (phase s \<noteq> Idle) s \<noteq> Inl Unreachable"
    and "ingest_chunk from_str parse clock chunk (phase s \<noteq> Idle) s = Inr s' \<Longrightarrow> arrival_ok before s s'"
proof -
  define s1 where "s1 p = s\<lparr>deadlines := note_bytes (clock 0) (deadlines s), parser := p\<rparr>" for p
  have s1: "applied_ok before (s1 p)" "flags_ok (s1 p)" "phase (s1 p) = phase s"
      "location (s1 p) = location s" "applied (s1 p) = applied s" for p
    using assms by (auto simp: s1_def flags_ok_def note_bytes_def intro: applied_ok_cong)
  note keeps = ingest_items_keeps [OF s1(1,2)]
  show "ingest_chunk from_str parse clock chunk (phase s \<noteq> Idle) s \<noteq> Inl Unreachable"
    using keeps(1) s1(3)
    by (auto simp: ingest_chunk_def result_simps Let_def s1_def split: if_splits prod.splits)
  assume "ingest_chunk from_str parse clock chunk (phase s \<noteq> Idle) s = Inr s'"
  then consider "s' = s" | p items where
      "ingest_items from_str parse (\<lambda>i. clock (Suc i)) (phase s \<noteq> Idle) items (s1 p) = Inr s'"
    by (auto simp: ingest_chunk_def result_simps Let_def s1_def split: if_splits prod.splits)
  then show "arrival_ok before s s'"
  proof cases
    case 1
    with assms show ?thesis by (simp add: arrival_ok_def)
  next
    case (2 p items)
    with keeps(2) [of from_str parse "\<lambda>i. clock (Suc i)" p items s'] s1(3-5) show ?thesis
      by (simp add: arrival_ok_def)
  qed
qed

definition lifecycle_inv :: "applied_revision \<Rightarrow> 'i lifecycle \<Rightarrow> bool" where
  "lifecycle_inv before s = (applied_ok before s \<and> flags_ok s \<and> select_ok s)"

lemma lifecycle_new_inv: "lifecycle_inv before (lifecycle_new now lims role before)"
  by (simp add: lifecycle_inv_def lifecycle_new_def applied_ok_def flags_ok_def select_ok_def
      report_ok_def paced_def reports_only_def report_state_default_def snapshot_queue_new_def
      session_deadlines_new_def ever_applied_def)

lemma loop_head_cases:
  assumes "flags_ok s" "loop_head t u v s = Inr s'"
  defines "d \<equiv> s\<lparr>report := drive_report t (report s)\<rparr>"
  obtains (busy) "phase s \<noteq> Idle" "s' = d\<lparr>location := Select\<rparr>"
  | (empty) "phase s = Idle" "queue_pending (queue s) = None" "s' = d\<lparr>location := Select\<rparr>"
  | (skip) c where "phase s = Idle" "queue_pending (queue s) = Some c" "applied s = Some (queued_revision c)"
      "s' = d\<lparr>queue := \<lparr>queue_pending = None, applying = False\<rparr>,
               report := schedule_report v (queued_revision c) (report d)\<rparr>"
  | (start) c where "phase s = Idle" "queue_pending (queue s) = Some c" "applied s \<noteq> Some (queued_revision c)"
      "s' = emit (Applying (queued_revision c))
             (d\<lparr>queue := \<lparr>queue_pending = None, applying = True\<rparr>,
                phase := ApplyingPhase (queued_revision c)\<rparr>)"
  using assms
  by (cases "phase s = Idle"; cases "queue_pending (queue s)")
    (auto simp: loop_head_def Let_def result_simps take_next_def finish_apply_def revision_matches_def
      flags_ok_def split: if_splits)

lemma loop_head_inv:
  assumes "lifecycle_inv before s" "loop_head t u v s = Inr s'"
  shows "lifecycle_inv before s'"
proof -
  let ?d = "s\<lparr>report := drive_report t (report s)\<rparr>"
  have s: "applied_ok before s" "flags_ok s" using assms(1) by (simp_all add: lifecycle_inv_def)
  have d: "applied_ok before ?d" by (rule applied_ok_drive [OF s(1)])
  from s(2) assms(2) show ?thesis
  proof (cases rule: loop_head_cases)
    case busy
    with d s show ?thesis
      by (auto simp: lifecycle_inv_def flags_ok_def select_ok_def intro: applied_ok_cong)
  next
    case empty
    with d s show ?thesis
      by (auto simp: lifecycle_inv_def flags_ok_def select_ok_def intro: applied_ok_cong)
  next
    case (skip c)
    have "applied_ok before (?d\<lparr>report := schedule_report v (queued_revision c) (report ?d)\<rparr>)"
      by (rule applied_ok_schedule [OF d]) (simp add: skip)
    then have "applied_ok before s'" by (rule applied_ok_cong) (simp_all add: skip)
    moreover have "location s' = location s" using skip by simp
    ultimately show ?thesis
      using skip s by (simp add: lifecycle_inv_def flags_ok_def select_ok_def)
  next
    case (start c)
    have "applied_ok before s'" unfolding start
      by (rule applied_ok_emit, rule applied_ok_cong [OF d]) simp_all
    with start s show ?thesis by (simp add: lifecycle_inv_def flags_ok_def select_ok_def)
  qed
qed

lemma apply_finished_inv:
  assumes "lifecycle_inv before s" "apply_finished now ok s = Inr s'"
  shows "lifecycle_inv before s'"
proof -
  from assms obtain revision where rev: "phase s = ApplyingPhase revision"
    by (auto simp: apply_finished_def split: phase.splits)
  define a where "a = emit (Applied revision) (s\<lparr>applied := Some revision\<rparr>)"
  have s: "applied_ok before s" "flags_ok s" using assms(1) by (simp_all add: lifecycle_inv_def)
  have ever: "ever_applied before a = insert revision (ever_applied before s)"
    by (simp add: a_def ever_applied_emit)
  have ok: "report_ok (insert revision (ever_applied before s)) (report s)"
    by (rule report_ok_mono [of "ever_applied before s"]) (use s(1) in \<open>auto simp: applied_ok_def\<close>)
  have "applied_ok before (a\<lparr>report := schedule_report now revision (report s)\<rparr>)"
    using schedule_report_ok [OF ok, of revision now] ever by (simp add: applied_ok_def a_def)
  moreover have "applied_ok before (emit (Rejected revision) s)" by (rule applied_ok_emit [OF s(1)]) simp
  ultimately have "applied_ok before s'"
    using assms(2) rev
    by (auto simp: apply_finished_def a_def Let_def intro: applied_ok_cong split: if_splits)
  with assms(2) rev s(2) show ?thesis
    by (auto simp: apply_finished_def lifecycle_inv_def flags_ok_def select_ok_def finish_apply_def
        Let_def split: if_splits)
qed

lemma arrival_head_inv:
  "arrival_ok before s t \<Longrightarrow> lifecycle_inv before (to_head t)"
  by (auto simp: arrival_ok_def lifecycle_inv_def flags_ok_def select_ok_def to_head_def
      intro: applied_ok_cong)

lemma quiet_head_inv:
  "applied_ok before s \<Longrightarrow> flags_ok s \<Longrightarrow> lifecycle_inv before (to_head s)"
  by (auto simp: lifecycle_inv_def flags_ok_def select_ok_def to_head_def intro: applied_ok_cong)

lemma perform_inv:
  assumes "lifecycle_inv before s" "perform from_str parse l s = Inr s'"
  shows "lifecycle_inv before s'"
proof (cases l)
  case (LoopHead t u v)
  with assms show ?thesis by (simp add: loop_head_inv)
next
  case (ApplyFinished t ok)
  with assms show ?thesis by (simp add: apply_finished_inv)
next
  case (Chunk clock chunk)
  with assms(2) obtain t where
    t: "ingest_chunk from_str parse clock chunk (phase s \<noteq> Idle) s = Inr t" "s' = to_head t"
    by (auto simp: result_simps)
  from assms(1) have "applied_ok before s" "flags_ok s" by (simp_all add: lifecycle_inv_def)
  from ingest_chunk_keeps(2) [OF this t(1)] t(2) show ?thesis by (simp add: arrival_head_inv)
next
  case (ReportFinished t res)
  have "applied_ok before (s\<lparr>report := drive_report t ((report s)\<lparr>in_flight := None\<rparr>)\<rparr>)"
    using assms(1) by (simp add: lifecycle_inv_def applied_ok_def drive_report_ok report_ok_in_flight)
  moreover have "flags_ok (s\<lparr>report := drive_report t ((report s)\<lparr>in_flight := None\<rparr>)\<rparr>)"
    using assms(1) by (simp add: lifecycle_inv_def flags_ok_def)
  ultimately show ?thesis using assms(2) ReportFinished
    by (auto simp: on_report_finished_def result_simps intro: quiet_head_inv
        split: sum.splits unit.splits ConnectionError.splits)
next
  case (RoleChanged t)
  have "applied_ok before (s\<lparr>report := note_role_state_changed t (report s)\<rparr>)"
    using assms(1) by (simp add: lifecycle_inv_def applied_ok_def note_role_state_changed_ok)
  moreover have "flags_ok (s\<lparr>report := note_role_state_changed t (report s)\<rparr>)"
    using assms(1) by (simp add: lifecycle_inv_def flags_ok_def)
  ultimately show ?thesis using assms(2) RoleChanged by (auto intro: quiet_head_inv)
qed (use assms in \<open>auto simp: lifecycle_inv_def [of before s] result_simps intro: quiet_head_inv\<close>)

lemma reachable_inv:
  assumes "lifecycle_reachable from_str parse guard s0 s" "lifecycle_inv before s0"
  shows "lifecycle_inv before s"
  using assms by (induction rule: lifecycle_reachable.induct) (auto intro: perform_inv)

lemma never_unreachable [simp]:
  "handle_timer now s \<noteq> Inl Unreachable" "loop_head t u v s \<noteq> Inl Unreachable"
  "on_report_finished now res s \<noteq> Inl Unreachable"
proof -
  show timer: "handle_timer now s \<noteq> Inl Unreachable" for s :: "'a lifecycle" and now
    by (simp add: handle_timer_def)
  show "loop_head t u v s \<noteq> Inl Unreachable"
    by (cases "handle_timer u (s\<lparr>report := drive_report t (report s)\<rparr>)")
      (use timer in \<open>auto simp: loop_head_def Let_def split: prod.splits option.splits\<close>)
  show "on_report_finished now res s \<noteq> Inl Unreachable"
    by (auto simp: on_report_finished_def split: sum.splits unit.splits ConnectionError.splits)
qed

lemma perform_reachable_code:
  assumes "lifecycle_inv before s" "enabled l s"
  shows "perform from_str parse l s \<noteq> Inl Unreachable"
proof (cases l)
  case (Chunk clock chunk)
  with assms ingest_chunk_keeps(1) [of before s from_str parse clock chunk] show ?thesis
    by (auto simp: lifecycle_inv_def result_simps)
next
  case (ApplyFinished t ok)
  with assms show ?thesis by (auto simp: apply_finished_def Let_def split: phase.splits)
qed (auto simp: result_simps)

end
