(* ===== verification/Managed_Session_Properties.thy ===== *)
theory Managed_Session_Properties
  imports Managed_Session
begin

text \<open>
  What one Managed-session connection promises: state documents report only applied revisions and
  are spaced, the newest snapshot settles, and no assertion fails; and the run in which an older
  snapshot overtakes the newest one.
\<close>

text \<open>
  C11: On every run of a connection each state document names a revision that was successfully
  applied, before the connection or on it, the document scheduled next names the revision applied
  now, two requests start at least one second apart, and no debug assertion or unreachable branch
  of the state machine is ever hit.
\<close>

theorem state_reports_sound:
  assumes "lifecycle_reachable from_str parse guard (lifecycle_new now lims role before) s"
  shows "fst ` set (started (report s)) \<subseteq> ever_applied before s \<and>
    set_option (report_revision (report s)) \<subseteq> set_option (applied s) \<and>
    successively (\<lambda>later earlier. snd earlier + 1000 \<le> snd later) (started (report s)) \<and>
    (\<forall>l. enabled l s \<longrightarrow> perform from_str parse l s \<noteq> Inl Unreachable)"
proof -
  have inv: "lifecycle_inv before s" using reachable_inv [OF assms lifecycle_new_inv] .
  then show ?thesis
    using perform_reachable_code [OF inv]
    by (auto simp: lifecycle_inv_def applied_ok_def report_ok_def paced_def reports_only_def
        STATE_REQUEST_SPACING_def)
qed

section \<open>The newest snapshot settles\<close>

fun is_snapshot_event :: "ManagedSessionEvent \<Rightarrow> bool" where
  "is_snapshot_event (Snapshot r) = True"
| "is_snapshot_event _ = False"

fun latest_snapshot :: "ManagedSessionEvent list \<Rightarrow> string option" where
  "latest_snapshot [] = None"
| "latest_snapshot (Snapshot r # es) = Some r"
| "latest_snapshot (e # es) = latest_snapshot es"

definition since_latest :: "ManagedSessionEvent list \<Rightarrow> ManagedSessionEvent set" where
  "since_latest es = set (takeWhile (\<lambda>e. \<not> is_snapshot_event e) es)"

text \<open>The newest snapshot is refused, waiting, being applied, or applied.\<close>

definition settling :: "'i lifecycle \<Rightarrow> bool" where
  "settling s =
     (case latest_snapshot (events s) of
        None \<Rightarrow> True
      | Some r \<Rightarrow>
          Rejected r \<in> since_latest (events s) \<or>
          (\<exists>c. queue_pending (queue s) = Some c \<and> queued_revision c = r) \<or>
          queue_pending (queue s) = None \<and> phase s = ApplyingPhase r \<or>
          queue_pending (queue s) = None \<and> phase s = Idle \<and> applied s = Some r)"

lemma latest_snapshot_Cons [simp]:
  "latest_snapshot (e # es) = (case e of Snapshot r \<Rightarrow> Some r | _ \<Rightarrow> latest_snapshot es)"
  by (cases e) simp_all

lemma since_latest_Cons [simp]:
  "since_latest (e # es) = (if is_snapshot_event e then {} else insert e (since_latest es))"
  by (auto simp: since_latest_def)

lemma settling_cong:
  assumes "settling s" "events t = events s" "queue_pending (queue t) = queue_pending (queue s)"
    and "phase t = phase s" "applied t = applied s"
  shows "settling t"
  using assms by (cases "latest_snapshot (events s)") (simp_all add: settling_def)

lemma accept_envelope_settles:
  assumes "flags_ok s" "phase s \<noteq> Idle \<or> queue_pending (queue s) = None"
    and "latest_snapshot (events s) = Some (envelope_revision env)"
    and "accept_envelope parse now env (phase s \<noteq> Idle) s = Inr t"
  shows "settling t"
proof (cases rule: accept_envelope_cases [OF assms(1), of env parse now])
  case 4
  then show ?thesis using assms by (auto simp: settling_def split: option.splits)
qed (use assms in \<open>auto simp: settling_def\<close>)

lemma ingest_item_settles:
  assumes "applied_ok before s" "flags_ok s" "phase s \<noteq> Idle \<or> queue_pending (queue s) = None"
    and "ingest_item from_str parse t u (phase s \<noteq> Idle) item s = Inr s'"
  shows "if is_snapshot_item item then settling s' else s' = s"
proof (cases rule: ingest_item_cases [of item from_str parse t u "phase s \<noteq> Idle" s])
  case (3 env)
  let ?n = "note_snapshot t (envelope_revision env) s"
  have "flags_ok ?n" using note_snapshot_keeps [OF assms(1,2) 3(2)] by simp
  then have "settling s'"
    by (rule accept_envelope_settles [of _ env parse u]) (use assms 3 in simp_all)
  with 3 show ?thesis by simp
qed (use assms in simp_all)

definition snapshot_items :: "SseParseItem list \<Rightarrow> SseParseItem list" where
  "snapshot_items items = filter is_snapshot_item items"

lemma ingest_items_settle:
  assumes "applied_ok before s" "flags_ok s" "settling s"
    and "phase s \<noteq> Idle \<or> queue_pending (queue s) = None \<and> length (snapshot_items items) \<le> 1 \<or>
         snapshot_items items = []"
    and "ingest_items from_str parse clock (phase s \<noteq> Idle) items s = Inr s'"
  shows "settling s'"
  using assms
proof (induction items arbitrary: clock s)
  case (Cons item items)
  from Cons.prems(5) obtain s1 where
    s1: "ingest_item from_str parse (clock 0) (clock 1) (phase s \<noteq> Idle) item s = Inr s1" and
    rest: "ingest_items from_str parse (\<lambda>i. clock (i + 2)) (phase s \<noteq> Idle) items s1 = Inr s'"
    by (auto simp: result_simps)
  from ingest_item_keeps(2) [OF Cons.prems(1,2) s1] have k: "arrival_ok before s s1" .
  then have "applied_ok before s1" "flags_ok s1" and ph: "phase s1 = phase s"
    by (simp_all add: arrival_ok_def)
  moreover have "settling s1 \<and> (\<not> is_snapshot_item item \<longrightarrow> s1 = s)"
  proof (cases "is_snapshot_item item")
    case True
    then have "phase s \<noteq> Idle \<or> queue_pending (queue s) = None"
      using Cons.prems(4) by (auto simp: snapshot_items_def)
    from ingest_item_settles [OF Cons.prems(1,2) this s1] True show ?thesis by simp
  next
    case False
    with s1 have "s1 = s"
      by (cases rule: ingest_item_cases [of item from_str parse "clock 0" "clock 1" "phase s \<noteq> Idle" s]) auto
    with Cons.prems(3) show ?thesis by simp
  qed
  moreover have "phase s1 \<noteq> Idle \<or> queue_pending (queue s1) = None \<and> length (snapshot_items items) \<le> 1 \<or>
      snapshot_items items = []"
    using Cons.prems(4) ph calculation
    by (cases "is_snapshot_item item") (auto simp: snapshot_items_def)
  ultimately show ?case using Cons.IH [of s1 "\<lambda>i. clock (i + 2)"] rest by simp
qed simp

text \<open>Runs in which a chunk read while idle carries at most one snapshot.\<close>

fun one_snapshot :: "label \<Rightarrow> 'i lifecycle \<Rightarrow> bool" where
  "one_snapshot (Chunk clock chunk) s =
     (case chunk of
        Inr (Some bytes) \<Rightarrow>
          (case push (parser s) bytes of
             Inr (p, items) \<Rightarrow> phase s = Idle \<longrightarrow> length (snapshot_items items) \<le> 1
           | Inl e \<Rightarrow> True)
      | _ \<Rightarrow> True)"
| "one_snapshot _ s = True"

lemma ingest_chunk_settles:
  assumes "lifecycle_inv before s" "settling s" "location s = Select"
    and "one_snapshot (Chunk clock chunk) s"
    and "ingest_chunk from_str parse clock chunk (phase s \<noteq> Idle) s = Inr s'"
  shows "settling s'"
proof -
  from assms(5) obtain bytes where bytes: "chunk = Inr (Some bytes)"
    by (auto simp: ingest_chunk_def result_simps)
  show ?thesis
  proof (cases "bytes = []")
    case True
    with assms(2,5) bytes show ?thesis by (simp add: ingest_chunk_def)
  next
    case False
    with assms(5) bytes obtain p items where push: "push (parser s) bytes = Inr (p, items)" and
      items: "ingest_items from_str parse (\<lambda>i. clock (Suc i)) (phase s \<noteq> Idle) items
        (s\<lparr>deadlines := note_bytes (clock 0) (deadlines s), parser := p\<rparr>) = Inr s'"
      by (auto simp: ingest_chunk_def result_simps Let_def)
    let ?s = "s\<lparr>deadlines := note_bytes (clock 0) (deadlines s), parser := p\<rparr>"
    have "applied_ok before ?s" "flags_ok ?s" "settling ?s"
      using assms(1,2)
      by (auto simp: lifecycle_inv_def flags_ok_def note_bytes_def intro: applied_ok_cong settling_cong)
    moreover have "phase ?s \<noteq> Idle \<or> queue_pending (queue ?s) = None \<and> length (snapshot_items items) \<le> 1"
      using assms(1,3,4) push bytes by (auto simp: lifecycle_inv_def select_ok_def)
    ultimately show ?thesis using ingest_items_settle [of before ?s items] items by auto
  qed
qed

lemma loop_head_settles:
  assumes "lifecycle_inv before s" "settling s" "loop_head t u v s = Inr s'"
  shows "settling s'"
proof -
  have "flags_ok s" using assms(1) by (simp add: lifecycle_inv_def)
  from this assms(3) show ?thesis
    by (cases rule: loop_head_cases) (use assms(2) in \<open>auto simp: settling_def split: option.splits\<close>)
qed

lemma apply_finished_settles:
  assumes "settling s" "apply_finished now ok s = Inr s'"
  shows "settling s'"
  using assms
  by (cases "phase s"; cases ok)
    (auto simp: apply_finished_def settling_def finish_apply_def Let_def split: option.splits)

lemma perform_settles:
  assumes "lifecycle_inv before s" "settling s" "enabled l s" "one_snapshot l s"
    and "perform from_str parse l s = Inr s'"
  shows "settling s'"
proof (cases l)
  case (LoopHead t u v)
  with assms show ?thesis by (simp add: loop_head_settles)
next
  case (ApplyFinished t ok)
  with assms show ?thesis by (simp add: apply_finished_settles)
next
  case (Chunk clock chunk)
  with assms(5) obtain t where
    t: "ingest_chunk from_str parse clock chunk (phase s \<noteq> Idle) s = Inr t" "s' = to_head t"
    by (auto simp: result_simps)
  from ingest_chunk_settles [OF assms(1,2) _ _ t(1)] Chunk assms(3,4) have "settling t" by simp
  then show ?thesis by (rule settling_cong) (simp_all add: t(2) to_head_def)
next
  case (ReportFinished t res)
  with assms(2,5) show ?thesis
    by (auto simp: on_report_finished_def result_simps to_head_def intro: settling_cong
        split: sum.splits unit.splits ConnectionError.splits)
qed (use assms(2,5) in \<open>auto simp: result_simps to_head_def intro: settling_cong\<close>)

lemma reachable_settles:
  assumes "lifecycle_reachable from_str parse one_snapshot s0 s"
    and "lifecycle_inv before s0" "settling s0"
  shows "settling s"
  using assms
proof (induction rule: lifecycle_reachable.induct)
  case (step s l s')
  then show ?case using perform_settles [OF reachable_inv [OF step.hyps(1)]] by blast
qed

text \<open>
  C4: When chunks read while idle carry at most one snapshot each, a connection that waits for its
  next event with nothing being applied has settled the newest snapshot it received: that
  revision is the one applied, or it was refused after it arrived.
\<close>

theorem latest_snapshot_settles:
  assumes "lifecycle_reachable from_str parse one_snapshot (lifecycle_new now lims role before) s"
    and "location s = Select" "phase s = Idle" "latest_snapshot (events s) = Some r"
  shows "applied s = Some r \<or> Rejected r \<in> since_latest (events s)"
proof -
  have "lifecycle_inv before s" using reachable_inv [OF assms(1) lifecycle_new_inv] .
  then have "queue_pending (queue s) = None" using assms(2,3) by (simp add: lifecycle_inv_def select_ok_def)
  moreover have "settling s"
    by (rule reachable_settles [OF assms(1) lifecycle_new_inv])
      (simp add: settling_def lifecycle_new_def)
  ultimately show ?thesis using assms(3,4) by (auto simp: settling_def)
qed

section \<open>Example runs\<close>

fun run_labels ::
  "(string \<Rightarrow> raw_snapshot option) \<Rightarrow> 'i input_parser \<Rightarrow> (label \<Rightarrow> 'i lifecycle \<Rightarrow> bool) \<Rightarrow> label list
     \<Rightarrow> 'i lifecycle \<Rightarrow> 'i lifecycle option" where
  "run_labels from_str parse guard [] s = Some s"
| "run_labels from_str parse guard (l # ls) s =
     (if enabled l s \<and> guard l s
      then case perform from_str parse l s of
             Inr t \<Rightarrow> run_labels from_str parse guard ls t
           | Inl e \<Rightarrow> None
      else None)"

lemma run_labels_reachable:
  assumes "run_labels from_str parse guard ls s = Some t"
    and "lifecycle_reachable from_str parse guard s0 s"
  shows "lifecycle_reachable from_str parse guard s0 t"
  using assms
proof (induction ls arbitrary: s)
  case (Cons l ls)
  then show ?case
    by (auto split: if_splits sum.splits intro: lifecycle_reachable.step)
qed simp

text \<open>A snapshot whose data is its revision, and an input parser that accepts everything.\<close>

definition data_as_revision :: "string \<Rightarrow> raw_snapshot option" where
  "data_as_revision data = Some \<lparr>raw_revision = Some data, raw_input = Some (Object [])\<rparr>"

definition accept_all :: "unit input_parser" where
  "accept_all input lims = Inr ()"

definition snapshot_chunk :: "string \<Rightarrow> string" where
  "snapshot_chunk r = ''event: '' @ ''snapshot'' @ [LF] @ ''data: '' @ r @ [LF, LF]"

definition example_parser :: sse_parser where
  "example_parser = sse_parser_new (sse_limits_of default_managed_session_limits)"

definition snapshot_item :: "string \<Rightarrow> SseParseItem" where
  "snapshot_item r = Event \<lparr>event_type = Some ''snapshot'', event_data = r\<rparr>"

lemma push_snapshot_chunk:
  assumes "r \<in> {''r1'', ''r2''}"
  shows "push example_parser (snapshot_chunk r) = Inr (example_parser, [snapshot_item r])"
  unfolding snapshot_chunk_def example_parser_def snapshot_item_def
  by (rule push_event)
    (use assms in \<open>auto simp: plain_def sse_limits_of_def default_managed_session_limits_def\<close>)

lemma push_two_chunks:
  "push example_parser (snapshot_chunk ''r2'' @ snapshot_chunk ''r1'') =
     Inr (example_parser, [snapshot_item ''r2'', snapshot_item ''r1''])"
  by (simp add: push_append push_snapshot_chunk then_push_def)

lemma parse_snapshot_item:
  assumes "r \<in> {''r1'', ''r2''}"
  shows "parse_snapshot_event data_as_revision (Some ''snapshot'') r default_managed_session_limits =
    Inr \<lparr>envelope_revision = r, envelope_input = Object []\<rparr>"
proof -
  have "validate_opaque_control_token r = Inr ()" "chars_count r = 2"
    using assms
    by (auto simp: validate_opaque_control_token_def chars_count_def utf8_count_ascii is_ascii_def
        OPAQUE_CONTROL_TOKEN_MAX_CHARS_def is_ascii_whitespace_def is_ascii_control_def)
  with assms show ?thesis
    by (auto simp: parse_snapshot_event_def check_event_type_def data_as_revision_def saturating_add_def
        default_managed_session_limits_def OPAQUE_CONTROL_TOKEN_MAX_CHARS_def)
qed

lemma snapshot_chunk_not_Nil: "snapshot_chunk r \<noteq> []"
  by (simp add: snapshot_chunk_def)

definition example_lifecycle :: "applied_revision \<Rightarrow> unit lifecycle" where
  "example_lifecycle before = lifecycle_new 0 default_managed_session_limits False before"

definition settle_labels :: "string \<Rightarrow> label list" where
  "settle_labels bytes =
     [LoopHead 0 0 0, Chunk (\<lambda>_. 1) (Inr (Some bytes)), LoopHead 2 2 2, LoopHead 2 2 2,
      ApplyFinished 3 True, LoopHead 4 4 4]"

lemmas lifecycle_eval =
  settle_labels_def example_lifecycle_def lifecycle_new_def loop_head_def handle_timer_def
  deadline_expired_def session_deadlines_new_def FIRST_SNAPSHOT_DEADLINE_def SILENCE_TIMEOUT_def
  drive_report_def schedule_report_def report_state_default_def next_start_at_def
  STATE_REQUEST_SPACING_def snapshot_queue_new_def take_next_def finish_apply_def
  revision_matches_def ingest_chunk_def ingest_item_def note_bytes_def try_note_valid_snapshot_def
  accept_envelope_def accept_all_def note_when_idle_def apply_finished_def to_head_def emit_def
  snapshot_item_def snapshot_items_def Let_def

lemma example_settles:
  "\<exists>s. run_labels data_as_revision accept_all one_snapshot (settle_labels (snapshot_chunk ''r1''))
         (example_lifecycle None) = Some s \<and>
       location s = Select \<and> phase s = Idle \<and> latest_snapshot (events s) = Some ''r1'' \<and>
       started (report s) = [(''r1'', 3)]"
  by (simp add: lifecycle_eval push_snapshot_chunk [unfolded example_parser_def]
      parse_snapshot_item snapshot_chunk_not_Nil)

lemma example_reachable:
  "\<exists>s. lifecycle_reachable data_as_revision accept_all one_snapshot (example_lifecycle None) s \<and>
       location s = Select \<and> phase s = Idle \<and> latest_snapshot (events s) = Some ''r1'' \<and>
       started (report s) = [(''r1'', 3)]"
  using example_settles run_labels_reachable lifecycle_reachable.start by metis

theorem state_reports_sound_witness:
  "\<exists>s. lifecycle_reachable data_as_revision accept_all one_snapshot (example_lifecycle None) s \<and>
       started (report s) = [(''r1'', 3)] \<and> ''r1'' \<in> ever_applied None s"
proof -
  obtain s where s: "lifecycle_reachable data_as_revision accept_all one_snapshot (example_lifecycle None) s"
      "started (report s) = [(''r1'', 3)]" using example_reachable by blast
  from state_reports_sound [OF s(1) [unfolded example_lifecycle_def]] s show ?thesis by auto
qed

theorem latest_snapshot_settles_witness:
  "\<exists>s. lifecycle_reachable data_as_revision accept_all one_snapshot (example_lifecycle None) s \<and>
       latest_snapshot (events s) = Some ''r1'' \<and>
       (applied s = Some ''r1'' \<or> Rejected ''r1'' \<in> since_latest (events s))"
proof -
  obtain s where s: "lifecycle_reachable data_as_revision accept_all one_snapshot (example_lifecycle None) s"
      "location s = Select" "phase s = Idle" "latest_snapshot (events s) = Some ''r1''"
    using example_reachable by blast
  from latest_snapshot_settles [OF s(1) [unfolded example_lifecycle_def] s(2-4)] s show ?thesis by blast
qed

section \<open>An older snapshot applied over the newest\<close>

text \<open>
  Without that restriction the newest snapshot can lose. While idle with \<open>r1\<close> applied, one chunk
  carries a snapshot \<open>r2\<close> and then \<open>r1\<close> again: \<open>r2\<close> is queued, \<open>r1\<close> is recognised as applied and
  reported, but \<open>r2\<close> stays queued and is applied afterwards. The connection then waits with \<open>r2\<close>
  applied although Control last asked for \<open>r1\<close>, which was never refused.
\<close>

theorem superseded_snapshot_applied:
  "\<exists>s. lifecycle_reachable data_as_revision accept_all (\<lambda>_ _. True) (example_lifecycle (Some ''r1'')) s \<and>
       location s = Select \<and> phase s = Idle \<and> latest_snapshot (events s) = Some ''r1'' \<and>
       applied s = Some ''r2'' \<and> Rejected ''r1'' \<notin> since_latest (events s)"
proof -
  have "\<exists>s. run_labels data_as_revision accept_all (\<lambda>_ _. True)
         (settle_labels (snapshot_chunk ''r2'' @ snapshot_chunk ''r1'')) (example_lifecycle (Some ''r1'')) = Some s \<and>
       location s = Select \<and> phase s = Idle \<and> latest_snapshot (events s) = Some ''r1'' \<and>
       applied s = Some ''r2'' \<and> Rejected ''r1'' \<notin> since_latest (events s)"
    by (simp add: lifecycle_eval push_two_chunks [unfolded example_parser_def]
        parse_snapshot_item snapshot_chunk_not_Nil)
  then show ?thesis using run_labels_reachable lifecycle_reachable.start by metis
qed

end
