(* ===== verification/Assignment_Convergence.thy ===== *)
theory Assignment_Convergence
  imports Managed_Input "HOL-Library.Char_ord" "HOL-Library.List_Lexorder"
begin

text \<open>
  Progress of a managed Client's assignment (\<open>src/src/client/assignment_convergence.rs\<close>) and the
  facts a managed Client reports (\<open>src/src/client/managed_adapter.rs\<close>). Every operation runs under
  the tracker's lock, so each is one step. A generation is a \<open>uuid\<close> value; connection tokens are
  64-bit and wrap.
\<close>

datatype AssignmentConvergence = Unconverged | PartiallyConverged | Converged

definition from_counts :: "nat \<Rightarrow> nat \<Rightarrow> AssignmentConvergence" where
  "from_counts assigned_count connected_count =
     (if assigned_count = 0 then Converged
      else if connected_count = 0 then Unconverged
      else if connected_count \<ge> assigned_count then Converged
      else PartiallyConverged)"

record 'u convergence_state =
  assigned :: "server_address set"
  connected :: "server_address set"
  carrying :: "server_address \<rightharpoonup> (u64 \<times> 'u) list"
  next_connection :: u64

definition convergence_new :: "'u convergence_state" where
  "convergence_new =
     \<lparr>assigned = {}, connected = {}, carrying = Map.empty, next_connection = 0\<rparr>"

definition assigned_connected_count :: "'u convergence_state \<Rightarrow> nat" where
  "assigned_connected_count s = card {a \<in> connected s. a \<in> assigned s}"

definition current_convergence :: "'u convergence_state \<Rightarrow> AssignmentConvergence" where
  "current_convergence s = from_counts (card (assigned s)) (assigned_connected_count s)"

definition when_changed ::
  "'u convergence_state \<Rightarrow> 'u convergence_state \<Rightarrow> AssignmentConvergence option" where
  "when_changed previous s =
     (if current_convergence s \<noteq> current_convergence previous then Some (current_convergence s) else None)"

definition set_assigned ::
  "server_address list \<Rightarrow> 'u convergence_state \<Rightarrow> AssignmentConvergence option \<times> 'u convergence_state" where
  "set_assigned addresses s =
     (let t = s\<lparr>assigned := set addresses\<rparr> in (when_changed s t, t))"

definition mark_connected ::
  "server_address \<Rightarrow> 'u convergence_state \<Rightarrow> AssignmentConvergence option \<times> 'u convergence_state" where
  "mark_connected address s =
     (let t = s\<lparr>connected := insert address (connected s)\<rparr> in (when_changed s t, t))"

definition mark_disconnected ::
  "server_address \<Rightarrow> 'u convergence_state \<Rightarrow> AssignmentConvergence option \<times> 'u convergence_state" where
  "mark_disconnected address s =
     (if address \<notin> connected s then (None, s)
      else let t = s\<lparr>connected := connected s - {address}\<rparr> in (when_changed s t, t))"

definition carrying_credit ::
  "server_address \<Rightarrow> 'u \<Rightarrow> 'u convergence_state \<Rightarrow> u64 \<times> 'u convergence_state" where
  "carrying_credit address generation s =
     (let token = next_connection s;
          connections = (case carrying s address of None \<Rightarrow> [] | Some cs \<Rightarrow> cs)
      in (token, s\<lparr>next_connection := token + 1,
                   carrying := (carrying s)(address \<mapsto> connections @ [(token, generation)])\<rparr>))"

definition carrying_credit_drop ::
  "server_address \<Rightarrow> u64 \<Rightarrow> 'u convergence_state \<Rightarrow> 'u convergence_state" where
  "carrying_credit_drop address token s =
     (case carrying s address of
        None \<Rightarrow> s
      | Some connections \<Rightarrow>
          let kept = filter (\<lambda>(t, _). t \<noteq> token) connections
          in s\<lparr>carrying := (if kept = [] then (carrying s)(address := None)
                              else (carrying s)(address \<mapsto> kept))\<rparr>)"

text \<open>
  The report: one entry per assigned address, keyed by its text, with the printed generations in the
  byte order of strings.
\<close>

definition reported_generations ::
  "('u \<Rightarrow> string) \<Rightarrow> 'u convergence_state \<Rightarrow> server_address \<Rightarrow> string list" where
  "reported_generations show s address =
     sort (map (\<lambda>(_, g). show g) (case carrying s address of None \<Rightarrow> [] | Some cs \<Rightarrow> cs))"

definition reported_servers ::
  "('u \<Rightarrow> string) \<Rightarrow> 'u convergence_state \<Rightarrow> (string \<times> string list) set" where
  "reported_servers show s = (\<lambda>a. (rendered_address a, reported_generations show s a)) ` assigned s"

section \<open>Properties\<close>

lemma current_convergence_cases:
  assumes "finite (assigned s)" "finite (connected s)"
  shows "current_convergence s =
    (if assigned s \<subseteq> connected s then Converged
     else if assigned s \<inter> connected s = {} then Unconverged else PartiallyConverged)"
proof -
  have eq: "{a \<in> connected s. a \<in> assigned s} = assigned s \<inter> connected s" by blast
  have "card (assigned s) \<le> card (assigned s \<inter> connected s) \<longleftrightarrow> assigned s \<subseteq> connected s"
    using card_seteq [OF assms(1), of "assigned s \<inter> connected s"] by (auto simp: Int_absorb2)
  moreover have "card (assigned s \<inter> connected s) = 0 \<longleftrightarrow> assigned s \<inter> connected s = {}"
    using assms(1) by simp
  moreover have "card (assigned s) = 0 \<longleftrightarrow> assigned s = {}" using assms(1) by simp
  ultimately show ?thesis
    by (auto simp: current_convergence_def assigned_connected_count_def from_counts_def eq)
qed

text \<open>Runs of the tracker, with the guards its callers hold in the order they were taken.\<close>

datatype 'u tracker_op =
    Assign "server_address list" | Connect server_address | Disconnect server_address
  | Acquire server_address 'u | DropGuard nat

type_synonym 'u held = "(server_address \<times> u64 \<times> 'u) list"

fun tracker_step :: "'u tracker_op \<Rightarrow> 'u convergence_state \<times> 'u held \<Rightarrow> 'u convergence_state \<times> 'u held" where
  "tracker_step (Assign addresses) (s, held) = (snd (set_assigned addresses s), held)"
| "tracker_step (Connect a) (s, held) = (snd (mark_connected a s), held)"
| "tracker_step (Disconnect a) (s, held) = (snd (mark_disconnected a s), held)"
| "tracker_step (Acquire a g) (s, held) =
     (let (token, t) = carrying_credit a g s in (t, held @ [(a, token, g)]))"
| "tracker_step (DropGuard i) (s, held) =
     (if i < length held
      then (carrying_credit_drop (fst (held ! i)) (fst (snd (held ! i))) s,
            take i held @ drop (Suc i) held)
      else (s, held))"

fun acquires :: "'u tracker_op list \<Rightarrow> nat" where
  "acquires [] = 0"
| "acquires (Acquire a g # ops) = Suc (acquires ops)"
| "acquires (_ # ops) = acquires ops"

abbreviation run_tracker :: "'u tracker_op list \<Rightarrow> 'u convergence_state \<times> 'u held" where
  "run_tracker ops \<equiv> fold tracker_step ops (convergence_new, [])"

definition held_for :: "server_address \<Rightarrow> 'u held \<Rightarrow> (u64 \<times> 'u) list" where
  "held_for a held = map snd (filter (\<lambda>(b, _). b = a) held)"

definition tokens_of :: "'u held \<Rightarrow> u64 list" where
  "tokens_of held = map (\<lambda>(_, token, _). token) held"

definition carrying_exact :: "'u convergence_state \<Rightarrow> 'u held \<Rightarrow> bool" where
  "carrying_exact s held =
     (\<forall>a. carrying s a = (if held_for a held = [] then None else Some (held_for a held)))"

definition tracker_inv :: "nat \<Rightarrow> 'u convergence_state \<times> 'u held \<Rightarrow> bool" where
  "tracker_inv n w =
     (case w of (s, held) \<Rightarrow>
        finite (assigned s) \<and> finite (connected s) \<and> carrying_exact s held \<and>
        distinct (tokens_of held) \<and> (\<forall>token\<in>set (tokens_of held). unat token < n) \<and>
        next_connection s = of_nat n)"

lemma carrying_exact_cong: "carrying_exact s held \<Longrightarrow> carrying t = carrying s \<Longrightarrow> carrying_exact t held"
  by (simp add: carrying_exact_def)

lemma carrying_credit_exact:
  assumes "carrying_exact s held"
  shows "carrying_exact (snd (carrying_credit a g s)) (held @ [(a, fst (carrying_credit a g s), g)])"
proof -
  have "(case carrying s a of None \<Rightarrow> [] | Some cs \<Rightarrow> cs) = held_for a held"
    using assms by (simp add: carrying_exact_def)
  then show ?thesis
    using assms by (auto simp: carrying_exact_def carrying_credit_def held_for_def Let_def)
qed

lemma filter_drop_one:
  assumes "distinct (tokens_of held)" "i < length held"
  shows "take i held @ drop (Suc i) held = filter (\<lambda>(_, t, _). t \<noteq> fst (snd (held ! i))) held"
proof -
  let ?x = "held ! i"
  let ?P = "\<lambda>(_, t, _). t \<noteq> fst (snd ?x)"
  have split: "held = take i held @ ?x # drop (Suc i) held" using assms(2) by (simp add: id_take_nth_drop)
  then have "tokens_of held =
      tokens_of (take i held) @ fst (snd ?x) # tokens_of (drop (Suc i) held)"
    by (metis (no_types, lifting) list.simps(9) map_append split_beta tokens_of_def)
  with assms(1) have "\<forall>e\<in>set (take i held) \<union> set (drop (Suc i) held). ?P e"
    by (fastforce simp: tokens_of_def image_iff)
  then have "filter ?P (take i held) = take i held" "filter ?P (drop (Suc i) held) = drop (Suc i) held"
    by (simp_all add: filter_id_conv)
  moreover have "filter ?P held = filter ?P (take i held) @ filter ?P (drop (Suc i) held)"
    by (subst split) (simp add: split_beta)
  ultimately show ?thesis by simp
qed

lemma held_for_filter:
  "held_for a (filter (\<lambda>(_, t, _). t \<noteq> token) held) = filter (\<lambda>(t, _). t \<noteq> token) (held_for a held)"
  by (induction held) (auto simp: held_for_def)

lemma token_owner:
  assumes "distinct (tokens_of held)" "(a, t, g) \<in> set held" "(b, t, h) \<in> set held"
  shows "a = b"
  using assms by (induction held) (auto simp: tokens_of_def image_iff)

lemma held_for_other:
  assumes "distinct (tokens_of held)" "(b, token, h) \<in> set held" "a \<noteq> b"
  shows "filter (\<lambda>(t, _). t \<noteq> token) (held_for a held) = held_for a held"
  using token_owner [OF assms(1) _ assms(2)] assms(3) by (auto simp: filter_id_conv held_for_def)

lemma carrying_credit_drop_exact:
  assumes "carrying_exact s held" "distinct (tokens_of held)" "i < length held"
  shows "carrying_exact (carrying_credit_drop (fst (held ! i)) (fst (snd (held ! i))) s)
    (take i held @ drop (Suc i) held)"
proof -
  obtain b token h where x: "held ! i = (b, token, h)" by (cases "held ! i")
  with assms(3) have mem: "(b, token, h) \<in> set held" by (metis nth_mem)
  then have "held_for b held \<noteq> []" by (auto simp: held_for_def filter_empty_conv)
  with assms(1) have b: "carrying s b = Some (held_for b held)" by (simp add: carrying_exact_def)
  have "carrying (carrying_credit_drop b token s) a =
      (let kept = filter (\<lambda>(t, _). t \<noteq> token) (held_for a held) in if kept = [] then None else Some kept)" for a
    using assms(1) b held_for_other [OF assms(2) mem, of a]
    by (cases "a = b") (auto simp: carrying_credit_drop_def carrying_exact_def Let_def)
  then show ?thesis
    using filter_drop_one [OF assms(2,3)] x
    by (simp add: carrying_exact_def held_for_filter Let_def)
qed

lemma tokens_of_append: "tokens_of (xs @ ys) = tokens_of xs @ tokens_of ys"
  by (simp add: tokens_of_def)

lemma tokens_of_drop_one:
  assumes "distinct (tokens_of held)" "i < length held"
  shows "distinct (tokens_of (take i held @ drop (Suc i) held)) \<and>
    set (tokens_of (take i held @ drop (Suc i) held)) \<subseteq> set (tokens_of held)"
proof -
  have "held = take i held @ held ! i # drop (Suc i) held" using assms(2) by (simp add: id_take_nth_drop)
  then have "tokens_of held =
      tokens_of (take i held) @ tokens_of [held ! i] @ tokens_of (drop (Suc i) held)"
    by (metis append.left_neutral append_Cons tokens_of_append)
  with assms(1) show ?thesis by (auto simp: tokens_of_append)
qed

lemma tracker_inv_step:
  assumes "tracker_inv n w" "n + acquires [op] \<le> 2 ^ 64"
  shows "tracker_inv (n + acquires [op]) (tracker_step op w)"
proof (cases op)
  case (Assign addresses)
  with assms show ?thesis
    by (cases w) (auto simp: tracker_inv_def set_assigned_def Let_def intro: carrying_exact_cong)
next
  case (Connect a)
  with assms show ?thesis
    by (cases w) (auto simp: tracker_inv_def mark_connected_def Let_def intro: carrying_exact_cong)
next
  case (Disconnect a)
  with assms show ?thesis
    by (cases w) (auto simp: tracker_inv_def mark_disconnected_def Let_def intro: carrying_exact_cong)
next
  case (Acquire a g)
  obtain s held where w: "w = (s, held)" by (cases w)
  have n: "n < 2 ^ 64" using assms(2) Acquire by simp
  have token: "fst (carrying_credit a g s) = of_nat n"
    using assms(1) w by (simp add: tracker_inv_def carrying_credit_def Let_def)
  have unat: "unat (of_nat n :: u64) = n" using n by (simp add: unsigned_of_nat take_bit_nat_eq_self)
  have "of_nat n \<notin> set (tokens_of held)"
    using assms(1) w unat by (auto simp: tracker_inv_def)
  moreover have "\<forall>t\<in>set (tokens_of held). unat t < Suc n"
    using assms(1) w by (auto simp: tracker_inv_def intro: less_SucI)
  moreover have "carrying_exact (snd (carrying_credit a g s)) (held @ [(a, of_nat n, g)])"
    using carrying_credit_exact [of s held a g] assms(1) w token by (simp add: tracker_inv_def)
  moreover have "tracker_step op w = (snd (carrying_credit a g s), held @ [(a, of_nat n, g)])"
    using Acquire w token by (simp add: split_beta)
  ultimately show ?thesis
    using assms(1) w Acquire unat
    by (simp add: tracker_inv_def tokens_of_append tokens_of_def [of "[_]"] carrying_credit_def Let_def)
next
  case (DropGuard i)
  obtain s held where w: "w = (s, held)" by (cases w)
  show ?thesis
  proof (cases "i < length held")
    case True
    let ?s = "carrying_credit_drop (fst (held ! i)) (fst (snd (held ! i))) s"
    have "assigned ?s = assigned s" "connected ?s = connected s" "next_connection ?s = next_connection s"
      by (simp_all add: carrying_credit_drop_def Let_def split: option.split)
    with True assms(1) w DropGuard carrying_credit_drop_exact [of s held i] tokens_of_drop_one [of held i]
    show ?thesis by (auto simp: tracker_inv_def)
  qed (use assms w DropGuard in simp)
qed

lemma acquires_Cons: "acquires (op # ops) = acquires [op] + acquires ops"
  by (cases op) simp_all

lemma tracker_inv_run:
  assumes "tracker_inv n w" "n + acquires ops \<le> 2 ^ 64"
  shows "tracker_inv (n + acquires ops) (fold tracker_step ops w)"
  using assms
proof (induction ops arbitrary: n w)
  case (Cons op ops)
  have "tracker_inv (n + acquires [op]) (tracker_step op w)"
    using Cons.prems by (intro tracker_inv_step) (simp_all add: acquires_Cons [of op ops])
  from Cons.IH [OF this] Cons.prems(2) show ?case by (simp add: acquires_Cons [of op ops] add.assoc)
qed simp

lemma convergence_new_inv: "tracker_inv 0 (convergence_new, [])"
  by (simp add: tracker_inv_def convergence_new_def carrying_exact_def held_for_def tokens_of_def)


definition example_address :: server_address where
  "example_address = \<lparr>address_hostname = ''edge.example'', address_port = 443\<rparr>"


end
