(* ===== verification/Address_Controller.thy ===== *)
theory Address_Controller
  imports Assignment_Convergence Shutdown
begin

text \<open>
  The Client's Address controller (\<open>src/src/client/address_controller.rs\<close>): worker slots keyed by
  Server address, maintenance intent, managed applies, completions and draining. A slot is live
  while its worker holds the receiving end of the intent channel, that is until the worker's task
  is gone. Each handler of the controller runs to its end as one step; between two handlers workers
  move on their own.
\<close>

datatype MaintenanceIntent = Maintain | Retire

text \<open>A worker that has decided to return still holds its channel until it is gone.\<close>

datatype worker_task =
    Working | Leaving "(string, unit) result" | Gone "(string, unit) result"

record worker_slot =
  slot_intent :: MaintenanceIntent
  slot_generation :: nat

datatype controller_location =
    Serving | Draining "string option" | Returned "(string, unit) result"

record 'u address_controller =
  workers :: "server_address \<rightharpoonup> worker_slot"
  running_workers :: "(server_address \<times> nat) list"
  tasks :: "nat \<rightharpoonup> worker_task"
  next_generation :: nat
  shared_worker_count :: u64
  shutdown_sent :: bool
  controller_shutdown :: orderly_shutdown
  client_ready_enabled :: bool
  ready_logged :: bool
  convergence :: "'u convergence_state option"
  controller_location :: controller_location

definition QUIC_CLOSE_FLUSH_DURATION :: nat where
  "QUIC_CLOSE_FLUSH_DURATION = 100"

definition controller_new ::
  "bool \<Rightarrow> nat \<Rightarrow> 'u convergence_state option \<Rightarrow> controller_location \<Rightarrow> 'u address_controller" where
  "controller_new ready graceful tracker location =
     \<lparr>workers = Map.empty, running_workers = [], tasks = Map.empty, next_generation = 1,
      shared_worker_count = 0, shutdown_sent = False,
      controller_shutdown = orderly_shutdown_new graceful QUIC_CLOSE_FLUSH_DURATION,
      client_ready_enabled = ready, ready_logged = False, convergence = tracker,
      controller_location = location\<rparr>"

definition for_static :: "nat \<Rightarrow> 'u address_controller" where
  "for_static graceful = controller_new True graceful None (Draining None)"

definition for_managed :: "nat \<Rightarrow> 'u address_controller" where
  "for_managed graceful = controller_new False graceful (Some convergence_new) Serving"

fun holds_channel :: "worker_task option \<Rightarrow> bool" where
  "holds_channel (Some Working) = True"
| "holds_channel (Some (Leaving r)) = True"
| "holds_channel _ = False"

definition is_live :: "'u address_controller \<Rightarrow> worker_slot \<Rightarrow> bool" where
  "is_live c slot = holds_channel (tasks c (slot_generation slot))"

definition maintenance_intent :: "'u address_controller \<Rightarrow> server_address \<Rightarrow> MaintenanceIntent option" where
  "maintenance_intent c a = map_option slot_intent (workers c a)"

definition worker_is_live :: "'u address_controller \<Rightarrow> server_address \<Rightarrow> bool" where
  "worker_is_live c a = (case workers c a of None \<Rightarrow> False | Some slot \<Rightarrow> is_live c slot)"

definition worker_count :: "'u address_controller \<Rightarrow> nat" where
  "worker_count c = card (dom (workers c))"

text \<open>Sending an intent on the channel of a live slot, and dropping a slot.\<close>

definition send_intent :: "server_address \<Rightarrow> MaintenanceIntent \<Rightarrow> 'u address_controller \<Rightarrow> 'u address_controller" where
  "send_intent a intent c =
     (case workers c a of
        None \<Rightarrow> c
      | Some slot \<Rightarrow> c\<lparr>workers := (workers c)(a \<mapsto> slot\<lparr>slot_intent := intent\<rparr>)\<rparr>)"

definition drop_slot :: "server_address \<Rightarrow> 'u address_controller \<Rightarrow> 'u address_controller" where
  "drop_slot a c =
     c\<lparr>workers := (workers c)(a := None), shared_worker_count := shared_worker_count c - 1\<rparr>"

definition spawn_worker :: "server_address \<Rightarrow> 'u address_controller \<Rightarrow> 'u address_controller" where
  "spawn_worker a c =
     (let generation = next_generation c
      in c\<lparr>next_generation := saturating_add (next_generation c) 1,
           tasks := (tasks c)(generation \<mapsto> Working),
           running_workers := running_workers c @ [(a, generation)],
           workers := (workers c)(a \<mapsto> \<lparr>slot_intent = Maintain, slot_generation = generation\<rparr>),
           shared_worker_count := shared_worker_count c + 1\<rparr>)"

definition controller_add :: "server_address \<Rightarrow> 'u address_controller \<Rightarrow> bool \<times> 'u address_controller" where
  "controller_add a c =
     (case workers c a of
        None \<Rightarrow> (True, spawn_worker a c)
      | Some slot \<Rightarrow>
          if is_live c slot then
            if slot_intent slot = Maintain then (False, c) else (True, send_intent a Maintain c)
          else (True, spawn_worker a (drop_slot a c)))"

definition controller_remove :: "server_address \<Rightarrow> 'u address_controller \<Rightarrow> bool \<times> 'u address_controller" where
  "controller_remove a c =
     (case workers c a of
        None \<Rightarrow> (False, c)
      | Some slot \<Rightarrow> if \<not> is_live c slot then (False, c) else (True, send_intent a Retire c))"

definition re_adopt :: "server_address \<Rightarrow> 'u address_controller \<Rightarrow> bool \<times> 'u address_controller" where
  "re_adopt a c =
     (case workers c a of
        None \<Rightarrow> (False, c)
      | Some slot \<Rightarrow>
          if \<not> is_live c slot \<or> slot_intent slot \<noteq> Retire then (False, c)
          else (True, send_intent a Maintain c))"

definition realign_existing ::
  "server_address list \<Rightarrow> server_address \<Rightarrow> 'u address_controller \<Rightarrow> 'u address_controller" where
  "realign_existing desired a c =
     (if a \<in> set desired then
        if maintenance_intent c a = Some Retire then
          let (ok, c') = re_adopt a c in if ok then c' else drop_slot a c
        else c
      else if maintenance_intent c a = Some Maintain then snd (controller_remove a c)
      else c)"

definition ensure_desired :: "server_address \<Rightarrow> 'u address_controller \<Rightarrow> 'u address_controller" where
  "ensure_desired a c =
     (if workers c a = None \<or> \<not> worker_is_live c a then snd (controller_add a c) else c)"

text \<open>The order in which the map lists its keys is the argument \<open>existing\<close>.\<close>

definition replace_intent ::
  "server_address list \<Rightarrow> server_address list \<Rightarrow> 'u address_controller \<Rightarrow> 'u address_controller" where
  "replace_intent existing desired c =
     fold ensure_desired desired (fold (realign_existing desired) existing c)"

definition seed_configured :: "server_address list \<Rightarrow> 'u address_controller \<Rightarrow> 'u address_controller" where
  "seed_configured addresses c = fold (\<lambda>a c. snd (controller_add a c)) addresses c"

definition request_shutdown :: "nat \<Rightarrow> 'u address_controller \<Rightarrow> 'u address_controller" where
  "request_shutdown now c =
     c\<lparr>controller_shutdown :=
          (if shutdown_mode (controller_shutdown c) = None
           then snd (begin_fast_shutdown (controller_shutdown c) now) else controller_shutdown c),
       shutdown_sent := True\<rparr>"

definition begin_shutdown ::
  "nat \<Rightarrow> ShutdownMode \<Rightarrow> 'u address_controller \<Rightarrow> ShutdownTransition option \<times> 'u address_controller" where
  "begin_shutdown now mode c =
     (let (transition, orderly) =
            (case mode of
               Graceful \<Rightarrow> begin_graceful_shutdown (controller_shutdown c) now
             | Fast \<Rightarrow> begin_fast_shutdown (controller_shutdown c) now)
      in (transition, c\<lparr>controller_shutdown := orderly, shutdown_sent := True\<rparr>))"

definition claim_client_ready_log :: "'u address_controller \<Rightarrow> bool \<times> 'u address_controller" where
  "claim_client_ready_log c =
     (if client_ready_enabled c then (\<not> ready_logged c, c\<lparr>ready_logged := True\<rparr>) else (False, c))"

definition assignment_convergence :: "'u address_controller \<Rightarrow> AssignmentConvergence" where
  "assignment_convergence c =
     (case convergence c of None \<Rightarrow> Converged | Some s \<Rightarrow> current_convergence s)"

section \<open>The event loop\<close>

definition handle_apply ::
  "server_address list \<Rightarrow> server_address list \<Rightarrow> 'u address_controller \<Rightarrow> 'u address_controller" where
  "handle_apply existing addresses c =
     replace_intent existing addresses
       (c\<lparr>convergence := map_option (\<lambda>s. snd (set_assigned addresses s)) (convergence c)\<rparr>)"

text \<open>
  One completion taken from the running workers: the entry leaves the list; a stale one is
  otherwise ignored, a current one frees its slot.
\<close>

definition reap ::
  "server_address \<Rightarrow> nat \<Rightarrow> (string, unit) result \<Rightarrow> 'u address_controller
     \<Rightarrow> (string, unit) result option \<times> 'u address_controller" where
  "reap a generation res c =
     (let c = c\<lparr>running_workers := remove1 (a, generation) (running_workers c)\<rparr>
      in case workers c a of
           None \<Rightarrow> (None, c)
         | Some slot \<Rightarrow>
             if slot_generation slot = generation then (Some res, drop_slot a c) else (None, c))"

definition on_completion ::
  "nat \<Rightarrow> (string, unit) result option \<Rightarrow> 'u address_controller \<Rightarrow> 'u address_controller" where
  "on_completion now completion c =
     (case completion of
        Some (Inl error) \<Rightarrow>
          (case controller_location c of
             Serving \<Rightarrow> (request_shutdown now c)\<lparr>controller_location := Draining (Some error)\<rparr>
           | Draining None \<Rightarrow> (request_shutdown now c)\<lparr>controller_location := Draining (Some error)\<rparr>
           | _ \<Rightarrow> c)
      | _ \<Rightarrow> c)"

definition drain_result :: "string option \<Rightarrow> (string, unit) result" where
  "drain_result first_error = (case first_error of None \<Rightarrow> Inr () | Some e \<Rightarrow> Inl e)"

fun is_draining :: "controller_location \<Rightarrow> bool" where
  "is_draining (Draining e) = True"
| "is_draining _ = False"

definition active :: "'u address_controller \<Rightarrow> bool" where
  "active c = (case controller_location c of Returned r \<Rightarrow> False | _ \<Rightarrow> True)"

definition set_task :: "nat \<Rightarrow> worker_task \<Rightarrow> 'u address_controller \<Rightarrow> 'u address_controller" where
  "set_task g t c = c\<lparr>tasks := (tasks c)(g \<mapsto> t)\<rparr>"

inductive controller_step :: "'u address_controller \<Rightarrow> 'u address_controller \<Rightarrow> bool" where
  apply_assignment: "controller_location c = Serving \<Longrightarrow> set existing = dom (workers c) \<Longrightarrow>
     distinct existing \<Longrightarrow> controller_step c (handle_apply existing addresses c)"
| adapter_closed: "controller_location c = Serving \<Longrightarrow>
     controller_step c ((request_shutdown now c)\<lparr>controller_location := Draining None\<rparr>)"
| shutdown_seen: "controller_location c = Serving \<Longrightarrow> shutdown_sent c \<Longrightarrow>
     controller_step c (c\<lparr>controller_location := Draining None\<rparr>)"
| completion: "active c \<Longrightarrow> (a, g) \<in> set (running_workers c) \<Longrightarrow> tasks c g = Some (Gone res) \<Longrightarrow>
     reap a g res c = (outcome, d) \<Longrightarrow> controller_step c (on_completion now outcome d)"
| drained: "controller_location c = Draining first_error \<Longrightarrow>
     running_workers c = [] \<Longrightarrow>
     controller_step c (c\<lparr>controller_location := Returned (drain_result first_error)\<rparr>)"
| shutdown_begun: "begin_shutdown now mode c = (transition, d) \<Longrightarrow> controller_step c d"
| retire_seen: "tasks c g = Some Working \<Longrightarrow> workers c a = Some slot \<Longrightarrow> slot_generation slot = g \<Longrightarrow>
     slot_intent slot = Retire \<or> shutdown_sent c \<Longrightarrow>
     controller_step c (set_task g (Leaving (Inr ())) c)"
| worker_ends: "tasks c g = Some Working \<Longrightarrow> controller_step c (set_task g (Leaving res) c)"
| worker_gone: "tasks c g = Some (Leaving res) \<Longrightarrow> controller_step c (set_task g (Gone res) c)"
| worker_connected: "tasks c g = Some Working \<Longrightarrow>
     controller_step c (c\<lparr>convergence := map_option (\<lambda>s. snd (mark_connected a s)) (convergence c)\<rparr>)"
| worker_disconnected: "tasks c g = Some Working \<Longrightarrow>
     controller_step c (c\<lparr>convergence := map_option (\<lambda>s. snd (mark_disconnected a s)) (convergence c)\<rparr>)"

inductive controller_reachable :: "'u address_controller \<Rightarrow> 'u address_controller \<Rightarrow> bool" for c0 where
  start: "controller_reachable c0 c0"
| step: "controller_reachable c0 c \<Longrightarrow> controller_step c d \<Longrightarrow> controller_reachable c0 d"

section \<open>The slots\<close>

text \<open>
  Every slot has its entry among the running workers, entries carry distinct known generations, a
  worker that still holds its channel owns the slot of its entry, and the shared count is the number
  of slots.
\<close>

definition entries_ok :: "'u address_controller \<Rightarrow> bool" where
  "entries_ok c =
     (distinct (map snd (running_workers c)) \<and>
      snd ` set (running_workers c) \<subseteq> {..<next_generation c} \<and> dom (tasks c) \<subseteq> {..<next_generation c})"

definition slots_ok :: "'u address_controller \<Rightarrow> bool" where
  "slots_ok c =
     ((\<forall>a slot. workers c a = Some slot \<longrightarrow> (a, slot_generation slot) \<in> set (running_workers c)) \<and>
      (\<forall>g. holds_channel (tasks c g) \<longrightarrow>
         (\<exists>a slot. workers c a = Some slot \<and> slot_generation slot = g)))"

definition count_ok :: "'u address_controller \<Rightarrow> bool" where
  "count_ok c = (finite (dom (workers c)) \<and> shared_worker_count c = of_nat (card (dom (workers c))))"

definition controller_inv :: "'u address_controller \<Rightarrow> bool" where
  "controller_inv c = (entries_ok c \<and> slots_ok c \<and> count_ok c)"

lemma slots_okI [intro?]:
  assumes "\<And>a slot. workers c a = Some slot \<Longrightarrow> (a, slot_generation slot) \<in> set (running_workers c)"
    and "\<And>g. holds_channel (tasks c g) \<Longrightarrow> \<exists>a slot. workers c a = Some slot \<and> slot_generation slot = g"
  shows "slots_ok c"
  using assms by (simp add: slots_ok_def)

lemma slot_entry:
  "controller_inv c \<Longrightarrow> workers c a = Some slot \<Longrightarrow> (a, slot_generation slot) \<in> set (running_workers c)"
  by (simp add: controller_inv_def slots_ok_def)

lemma live_owner:
  assumes "controller_inv c" "holds_channel (tasks c g)"
  obtains a slot where "workers c a = Some slot" "slot_generation slot = g"
  using assms by (auto simp: controller_inv_def slots_ok_def)

lemma controller_new_inv: "controller_inv (controller_new ready graceful tracker location)"
  by (simp add: controller_inv_def entries_ok_def slots_ok_def count_ok_def controller_new_def)

lemma controller_inv_cong:
  assumes "controller_inv c" "workers d = workers c" "running_workers d = running_workers c"
    and "tasks d = tasks c" "next_generation d = next_generation c"
    and "shared_worker_count d = shared_worker_count c"
  shows "controller_inv d"
  using assms by (simp add: controller_inv_def entries_ok_def slots_ok_def count_ok_def)

lemma slot_live_known: "workers c a = Some slot \<Longrightarrow> is_live c slot = worker_is_live c a"
  by (simp add: worker_is_live_def)

lemma send_intent_inv: "controller_inv c \<Longrightarrow> controller_inv (send_intent a intent c)"
  by (cases "workers c a")
    (auto simp: send_intent_def controller_inv_def entries_ok_def slots_ok_def count_ok_def
      insert_absorb domI, (metis option.inject)+)

lemma of_nat_card_remove:
  assumes "finite (dom m)" "a \<in> dom m"
  shows "of_nat (card (dom m)) - 1 = (of_nat (card (dom m - {a})) :: u64)"
  using card_Suc_Diff1 [OF assms] by (metis add_diff_cancel_left' of_nat_Suc)

lemma drop_slot_inv:
  assumes "controller_inv c" "workers c a = Some slot" "\<not> is_live c slot"
  shows "controller_inv (drop_slot a c)"
proof -
  have "slots_ok (drop_slot a c)"
  proof
    fix b slot' assume "workers (drop_slot a c) b = Some slot'"
    then show "(b, slot_generation slot') \<in> set (running_workers (drop_slot a c))"
      using slot_entry [OF assms(1), of b slot'] by (simp add: drop_slot_def split: if_splits)
  next
    fix g assume "holds_channel (tasks (drop_slot a c) g)"
    then have g: "holds_channel (tasks c g)" by (simp add: drop_slot_def)
    from live_owner [OF assms(1) this] obtain b slot' where b: "workers c b = Some slot'" "slot_generation slot' = g" .
    with g assms(2,3) have "b \<noteq> a" by (auto simp: is_live_def)
    with b show "\<exists>b slot'. workers (drop_slot a c) b = Some slot' \<and> slot_generation slot' = g"
      by (auto simp: drop_slot_def)
  qed
  moreover have "a \<in> dom (workers c)" using assms(2) by blast
  then have "count_ok (drop_slot a c)"
    using assms(1) of_nat_card_remove [of "workers c" a]
    by (simp add: controller_inv_def count_ok_def drop_slot_def)
  ultimately show ?thesis using assms(1) by (simp add: controller_inv_def entries_ok_def drop_slot_def)
qed

lemma spawn_worker_inv:
  assumes "controller_inv c" "workers c a = None" "next_generation (spawn_worker a c) < usize_max"
  shows "controller_inv (spawn_worker a c)"
proof -
  let ?g = "next_generation c"
  have g: "saturating_add ?g 1 = Suc ?g"
    using assms(3) by (simp add: spawn_worker_def saturating_add_def Let_def min_def split: if_splits)
  have "?g \<notin> snd ` set (running_workers c)" "?g \<notin> dom (tasks c)"
    using assms(1) by (auto simp: controller_inv_def entries_ok_def)
  then have "entries_ok (spawn_worker a c)"
    using assms(1) g by (fastforce simp: controller_inv_def entries_ok_def spawn_worker_def Let_def)
  moreover have "slots_ok (spawn_worker a c)"
  proof
    fix b slot assume "workers (spawn_worker a c) b = Some slot"
    then show "(b, slot_generation slot) \<in> set (running_workers (spawn_worker a c))"
      using slot_entry [OF assms(1), of b slot] by (auto simp: spawn_worker_def Let_def split: if_splits)
  next
    fix g assume g: "holds_channel (tasks (spawn_worker a c) g)"
    show "\<exists>b slot. workers (spawn_worker a c) b = Some slot \<and> slot_generation slot = g"
    proof (cases "g = ?g")
      case True
      then show ?thesis by (auto simp: spawn_worker_def Let_def)
    next
      case False
      with g have "holds_channel (tasks c g)" by (simp add: spawn_worker_def Let_def)
      from live_owner [OF assms(1) this] obtain b slot where "workers c b = Some slot" "slot_generation slot = g" .
      with assms(2) show ?thesis by (intro exI [of _ b] exI [of _ slot]) (auto simp: spawn_worker_def Let_def)
    qed
  qed
  moreover have "count_ok (spawn_worker a c)"
    using assms(1,2) by (simp add: controller_inv_def count_ok_def spawn_worker_def Let_def domIff)
  ultimately show ?thesis by (simp add: controller_inv_def)
qed

section \<open>Operations on slots\<close>

text \<open>Generations have not run out.\<close>

definition room :: "'u address_controller \<Rightarrow> bool" where
  "room c = (next_generation c < usize_max)"

text \<open>No live worker loses its slot, and its slot keeps its generation.\<close>

definition keeps_live :: "'u address_controller \<Rightarrow> 'u address_controller \<Rightarrow> bool" where
  "keeps_live c d =
     ((\<forall>g. holds_channel (tasks c g) \<longrightarrow> holds_channel (tasks d g)) \<and>
      (\<forall>a slot. workers c a = Some slot \<longrightarrow> is_live c slot \<longrightarrow>
         (\<exists>slot'. workers d a = Some slot' \<and> slot_generation slot' = slot_generation slot)))"

lemma keeps_live_refl [simp]: "keeps_live c c"
  by (simp add: keeps_live_def)

lemma keeps_live_trans: "keeps_live c d \<Longrightarrow> keeps_live d e \<Longrightarrow> keeps_live c e"
  unfolding keeps_live_def is_live_def by metis

text \<open>
  The contract of an operation on one address, and what a loop of such operations then gives.
\<close>

locale slot_operation =
  fixes f :: "server_address \<Rightarrow> 'u address_controller \<Rightarrow> 'u address_controller"
  assumes room_before: "room (f a c) \<Longrightarrow> room c"
    and keeps_inv: "controller_inv c \<Longrightarrow> room (f a c) \<Longrightarrow> controller_inv (f a c)"
    and keeps_workers: "controller_inv c \<Longrightarrow> room (f a c) \<Longrightarrow> keeps_live c (f a c)"
    and other_slots: "b \<noteq> a \<Longrightarrow> workers (f a c) b = workers c b"
begin

lemma loop_room: "room (fold f as c) \<Longrightarrow> room c"
  by (induction as arbitrary: c) (auto dest: room_before)

lemma loop_inv: "controller_inv c \<Longrightarrow> room (fold f as c) \<Longrightarrow> controller_inv (fold f as c)"
proof (induction as arbitrary: c)
  case (Cons a as)
  then have "room (f a c)" using loop_room [of as "f a c"] by simp
  with Cons show ?case by (simp add: keeps_inv)
qed simp

lemma loop_keeps: "controller_inv c \<Longrightarrow> room (fold f as c) \<Longrightarrow> keeps_live c (fold f as c)"
proof (induction as arbitrary: c)
  case (Cons a as)
  then have "room (f a c)" using loop_room [of as "f a c"] by simp
  with Cons keeps_inv [of c a] have "keeps_live c (f a c)" "keeps_live (f a c) (fold f as (f a c))"
    by (simp_all add: keeps_workers)
  then show ?case using keeps_live_trans by fastforce
qed simp

lemma loop_others: "b \<notin> set as \<Longrightarrow> workers (fold f as c) b = workers c b"
  by (induction as arbitrary: c) (auto simp: other_slots)

end

lemma send_intent_simps [simp]:
  "tasks (send_intent a intent c) = tasks c" "next_generation (send_intent a intent c) = next_generation c"
  "running_workers (send_intent a intent c) = running_workers c"
  by (simp_all add: send_intent_def split: option.split)

lemma send_intent_workers:
  "workers (send_intent a intent c) b =
     (if b = a then map_option (\<lambda>s. s\<lparr>slot_intent := intent\<rparr>) (workers c a) else workers c b)"
  by (simp add: send_intent_def split: option.split)

lemma send_intent_keeps: "keeps_live c (send_intent a intent c)"
  by (auto simp: keeps_live_def send_intent_workers)

lemma drop_slot_keeps:
  "workers c a = Some slot \<Longrightarrow> \<not> is_live c slot \<Longrightarrow> keeps_live c (drop_slot a c)"
  by (auto simp: keeps_live_def drop_slot_def)

lemma spawn_worker_keeps:
  assumes "controller_inv c" "workers c a = None"
  shows "keeps_live c (spawn_worker a c)"
proof -
  have "tasks c (next_generation c) = None"
    using assms(1) by (auto simp: controller_inv_def entries_ok_def)
  then show ?thesis using assms(2) by (auto simp: keeps_live_def spawn_worker_def Let_def)
qed

lemma spawn_worker_room: "room (spawn_worker a c) \<Longrightarrow> room c"
  by (auto simp: room_def spawn_worker_def saturating_add_def Let_def min_def split: if_splits)

lemma drop_slot_room [simp]: "room (drop_slot a c) = room c"
  by (simp add: room_def drop_slot_def)

lemma send_intent_room [simp]: "room (send_intent a i c) = room c"
  by (simp add: room_def)

lemmas slot_cases = controller_add_def controller_remove_def re_adopt_def

interpretation adding: slot_operation "\<lambda>a c. snd (controller_add a c)"
proof
  fix a b :: server_address and c :: "'a address_controller"
  show "room c" if "room (snd (controller_add a c))"
    using that by (auto simp: controller_add_def dest: spawn_worker_room split: option.splits if_splits)
  have respawn: "workers (drop_slot a c) a = None" by (simp add: drop_slot_def)
  show "controller_inv (snd (controller_add a c))" if "controller_inv c" "room (snd (controller_add a c))"
    using that respawn spawn_worker_inv [of c a] spawn_worker_inv [of "drop_slot a c" a] drop_slot_inv [of c a]
    by (auto simp: controller_add_def room_def send_intent_inv split: option.splits if_splits)
  show "keeps_live c (snd (controller_add a c))" if "controller_inv c" "room (snd (controller_add a c))"
    using that respawn spawn_worker_keeps [of c a] spawn_worker_keeps [of "drop_slot a c" a]
      drop_slot_inv [of c a] drop_slot_keeps [of c a]
    by (auto simp: controller_add_def send_intent_keeps intro: keeps_live_trans split: option.splits if_splits)
  show "workers (snd (controller_add a c)) b = workers c b" if "b \<noteq> a"
    using that by (auto simp: controller_add_def send_intent_workers spawn_worker_def drop_slot_def Let_def
        split: option.splits)
qed

interpretation realigning: slot_operation "realign_existing desired"
proof
  fix a b :: server_address and c :: "'a address_controller"
  let ?f = "realign_existing desired a c"
  show "room c" if "room ?f"
    using that by (auto simp: realign_existing_def slot_cases split: option.splits if_splits)
  show "controller_inv ?f" if "controller_inv c" "room ?f"
    using that drop_slot_inv [of c a]
    by (auto simp: realign_existing_def slot_cases maintenance_intent_def send_intent_inv
        split: option.splits if_splits)
  show "keeps_live c ?f" if "controller_inv c" "room ?f"
    using that drop_slot_keeps [of c a]
    by (auto simp: realign_existing_def slot_cases maintenance_intent_def send_intent_keeps
        split: option.splits if_splits)
  show "workers ?f b = workers c b" if "b \<noteq> a"
    using that by (auto simp: realign_existing_def slot_cases send_intent_workers drop_slot_def
        split: option.splits)
qed

interpretation ensuring: slot_operation ensure_desired
proof
  fix a b :: server_address and c :: "'a address_controller"
  show "room c" if "room (ensure_desired a c)"
    using that adding.room_before by (auto simp: ensure_desired_def split: if_splits)
  show "controller_inv (ensure_desired a c)" if "controller_inv c" "room (ensure_desired a c)"
    using that adding.keeps_inv by (auto simp: ensure_desired_def split: if_splits)
  show "keeps_live c (ensure_desired a c)" if "controller_inv c" "room (ensure_desired a c)"
    using that adding.keeps_workers by (auto simp: ensure_desired_def split: if_splits)
  show "workers (ensure_desired a c) b = workers c b" if "b \<noteq> a"
    using that adding.other_slots by (auto simp: ensure_desired_def)
qed

section \<open>Replacing the intent\<close>

definition slot_aligned :: "server_address list \<Rightarrow> 'u address_controller \<Rightarrow> server_address \<Rightarrow> bool" where
  "slot_aligned desired c a =
     (case workers c a of
        None \<Rightarrow> True
      | Some slot \<Rightarrow>
          if a \<in> set desired then slot_intent slot = Maintain
          else is_live c slot \<longrightarrow> slot_intent slot = Retire)"

lemma slot_aligned_cong:
  assumes "workers d a = workers c a" "\<And>slot. workers c a = Some slot \<Longrightarrow> is_live d slot = is_live c slot"
  shows "slot_aligned desired d a = slot_aligned desired c a"
  using assms by (simp add: slot_aligned_def split: option.split)

lemma realign_tasks [simp]: "tasks (realign_existing desired a c) = tasks c"
  by (simp add: realign_existing_def slot_cases drop_slot_def split: option.split)

lemma realign_aligned: "slot_aligned desired (realign_existing desired a c) a"
  by (cases "workers c a"; cases "slot_intent (the (workers c a))")
    (auto simp: slot_aligned_def realign_existing_def slot_cases maintenance_intent_def
      send_intent_workers drop_slot_def is_live_def)

lemma realign_loop_aligned:
  "slot_aligned desired c b \<or> b \<in> set existing \<Longrightarrow>
     slot_aligned desired (fold (realign_existing desired) existing c) b"
proof (induction existing arbitrary: c)
  case (Cons a existing)
  have "slot_aligned desired (realign_existing desired a c) b \<or> b \<in> set existing"
  proof (cases "b = a")
    case True
    then show ?thesis by (simp add: realign_aligned)
  next
    case False
    then have "slot_aligned desired (realign_existing desired a c) b = slot_aligned desired c b"
      by (intro slot_aligned_cong) (simp_all add: realigning.other_slots is_live_def)
    with Cons.prems False show ?thesis by auto
  qed
  from Cons.IH [OF this] show ?case by simp
qed auto

lemma slot_generation_known:
  assumes "controller_inv c" "workers c a = Some slot"
  shows "slot_generation slot < next_generation c"
proof -
  have "slot_generation slot \<in> snd ` set (running_workers c)"
    using slot_entry [OF assms] by (metis imageI snd_conv)
  then show ?thesis using assms(1) by (auto simp: controller_inv_def entries_ok_def)
qed

lemma ensure_tasks:
  "g < next_generation c \<Longrightarrow> tasks (ensure_desired a c) g = tasks c g"
  by (auto simp: ensure_desired_def controller_add_def spawn_worker_def drop_slot_def Let_def split: option.split)

lemma ensure_live:
  assumes "worker_is_live c a \<longrightarrow> maintenance_intent c a = Some Maintain"
  shows "worker_is_live (ensure_desired a c) a \<and> maintenance_intent (ensure_desired a c) a = Some Maintain"
proof (cases "workers c a")
  case None
  then show ?thesis
    by (simp add: ensure_desired_def controller_add_def worker_is_live_def is_live_def
        maintenance_intent_def spawn_worker_def Let_def)
next
  case (Some slot)
  with assms show ?thesis
    by (cases "is_live c slot")
      (simp_all add: ensure_desired_def controller_add_def worker_is_live_def is_live_def
        maintenance_intent_def spawn_worker_def Let_def)
qed

lemma ensure_others:
  assumes "controller_inv c" "b \<noteq> a"
  shows "slot_aligned desired (ensure_desired a c) b = slot_aligned desired c b"
    and "worker_is_live (ensure_desired a c) b = worker_is_live c b"
    and "maintenance_intent (ensure_desired a c) b = maintenance_intent c b"
proof -
  have "workers (ensure_desired a c) b = workers c b" by (rule ensuring.other_slots [OF assms(2)])
  moreover have "is_live (ensure_desired a c) slot = is_live c slot" if "workers c b = Some slot" for slot
    using ensure_tasks [OF slot_generation_known [OF assms(1) that]] by (simp add: is_live_def)
  ultimately show "slot_aligned desired (ensure_desired a c) b = slot_aligned desired c b"
    and "worker_is_live (ensure_desired a c) b = worker_is_live c b"
    and "maintenance_intent (ensure_desired a c) b = maintenance_intent c b"
    by (auto simp: slot_aligned_def worker_is_live_def maintenance_intent_def split: option.split)
qed

lemma aligned_live:
  "slot_aligned desired c a \<Longrightarrow> a \<in> set desired \<Longrightarrow>
     worker_is_live c a \<longrightarrow> maintenance_intent c a = Some Maintain"
  by (auto simp: slot_aligned_def worker_is_live_def maintenance_intent_def split: option.splits)

lemma ensure_loop:
  assumes "controller_inv c" "room (fold ensure_desired as c)" "set as \<subseteq> set desired"
    and "\<And>b. slot_aligned desired c b"
  shows "(\<forall>b. slot_aligned desired (fold ensure_desired as c) b) \<and>
    (\<forall>b. b \<in> set as \<or> worker_is_live c b \<longrightarrow> worker_is_live (fold ensure_desired as c) b)"
  using assms
proof (induction as arbitrary: c)
  case (Cons a as)
  let ?d = "ensure_desired a c"
  have room: "room ?d" using Cons.prems(2) ensuring.loop_room [of as ?d] by simp
  have inv: "controller_inv ?d" by (rule ensuring.keeps_inv [OF Cons.prems(1) room])
  have live: "worker_is_live ?d a \<and> maintenance_intent ?d a = Some Maintain"
    using Cons.prems(3) by (intro ensure_live aligned_live [OF Cons.prems(4)]) simp
  have "slot_aligned desired ?d b" for b
    using live Cons.prems(3,4) ensure_others(1) [OF Cons.prems(1), of b a]
    by (cases "b = a") (auto simp: slot_aligned_def maintenance_intent_def split: option.splits)
  with Cons.IH [OF inv] Cons.prems(2,3) have
    "(\<forall>b. slot_aligned desired (fold ensure_desired as ?d) b) \<and>
     (\<forall>b. b \<in> set as \<or> worker_is_live ?d b \<longrightarrow> worker_is_live (fold ensure_desired as ?d) b)"
    by simp
  moreover have "worker_is_live ?d b" if "worker_is_live c b" for b
    using that live ensure_others(2) [OF Cons.prems(1), of b a] by (cases "b = a") auto
  ultimately show ?case using live by auto
qed auto

lemma replace_intent_aligned:
  assumes "controller_inv c" "set existing = dom (workers c)" "room (replace_intent existing desired c)"
  defines "d \<equiv> replace_intent existing desired c"
  shows "controller_inv d \<and> keeps_live c d \<and> (\<forall>a. slot_aligned desired d a) \<and>
    (\<forall>a\<in>set desired. worker_is_live d a)"
proof -
  let ?m = "fold (realign_existing desired) existing c"
  have d: "d = fold ensure_desired desired ?m" by (simp add: d_def replace_intent_def)
  have room: "room d" using assms(3) by (simp add: d_def)
  then have roomm: "room ?m" using ensuring.loop_room [of desired ?m] d by simp
  have m: "controller_inv ?m" "keeps_live c ?m"
    using realigning.loop_inv [OF assms(1) roomm] realigning.loop_keeps [OF assms(1) roomm] by auto
  have aligned: "slot_aligned desired ?m a" for a
    by (rule realign_loop_aligned) (use assms(2) in \<open>auto simp: slot_aligned_def split: option.split\<close>)
  have "controller_inv d" "keeps_live ?m d"
    using ensuring.loop_inv [OF m(1)] ensuring.loop_keeps [OF m(1)] room d by auto
  moreover have "keeps_live c d" using keeps_live_trans [OF m(2)] calculation(2) by blast
  ultimately show ?thesis
    using ensure_loop [OF m(1) _ _ aligned, of desired] room d by auto
qed

end
