(* ===== verification/Address_Controller_Properties.thy ===== *)
theory Address_Controller_Properties
  imports Address_Controller
begin

text \<open>
  What the Address controller promises while workers come and go: one worker per address, exact
  counts and a drain that cannot lose a worker; the exact effect of an assignment; and the run in
  which a re-adopted worker leaves for good.
\<close>

section \<open>Steps\<close>

lemma reap_inv:
  assumes inv: "controller_inv c" and entry: "(a, g) \<in> set (running_workers c)"
    and gone: "tasks c g = Some (Gone res)" and reap: "reap a g res c = (outcome, d)"
  shows "controller_inv d"
proof -
  let ?e = "c\<lparr>running_workers := remove1 (a, g) (running_workers c)\<rparr>"
  have distinct: "distinct (running_workers c)"
    using inv by (auto simp: controller_inv_def entries_ok_def distinct_map)
  have entries: "distinct (map snd (running_workers ?e)) \<and> set (running_workers ?e) \<subseteq> set (running_workers c)"
    using inv by (auto simp: controller_inv_def entries_ok_def distinct_map distinct
        dest: notin_set_remove1 inj_on_subset [OF _ set_remove1_subset])
  have kept: "(b, slot_generation slot) \<in> set (running_workers ?e)"
    if "workers c b = Some slot" "\<not> (b = a \<and> slot_generation slot = g)" for b slot
    using slot_entry [OF inv that(1)] that(2) distinct by auto
  have stale: "slots_ok ?e" if "\<And>slot. workers c a = Some slot \<Longrightarrow> slot_generation slot \<noteq> g"
  proof
    fix b slot assume "workers ?e b = Some slot"
    then show "(b, slot_generation slot) \<in> set (running_workers ?e)"
      using kept [of b slot] that [of slot] by (cases "b = a") simp_all
  next
    fix h assume "holds_channel (tasks ?e h)"
    then show "\<exists>b slot. workers ?e b = Some slot \<and> slot_generation slot = h"
      using inv by (simp add: controller_inv_def slots_ok_def)
  qed
  show ?thesis
  proof (cases "workers c a")
    case None
    with reap have d: "d = ?e" by (simp add: reap_def)
    have "slots_ok ?e" using None by (intro stale) simp
    with inv d entries show ?thesis by (auto simp: controller_inv_def entries_ok_def count_ok_def)
  next
    case (Some slot)
    show ?thesis
    proof (cases "slot_generation slot = g")
      case True
      then have "\<not> is_live c slot" using gone by (simp add: is_live_def)
      from drop_slot_inv [OF inv Some this] have drop: "controller_inv (drop_slot a c)" .
      have d: "d = drop_slot a ?e" using reap Some True by (simp add: reap_def)
      have "slots_ok d"
      proof
        fix b slot' assume "workers d b = Some slot'"
        then have "b \<noteq> a" "workers c b = Some slot'" by (auto simp: d drop_slot_def split: if_splits)
        with kept show "(b, slot_generation slot') \<in> set (running_workers d)" by (simp add: d drop_slot_def)
      next
        fix h assume "holds_channel (tasks d h)"
        with drop show "\<exists>b slot'. workers d b = Some slot' \<and> slot_generation slot' = h"
          by (auto simp: d drop_slot_def controller_inv_def slots_ok_def)
      qed
      with drop d entries show ?thesis
        by (auto simp: controller_inv_def entries_ok_def count_ok_def drop_slot_def)
    next
      case False
      with reap Some have d: "d = ?e" by (simp add: reap_def)
      have "slots_ok ?e" using Some False by (intro stale) simp
      with inv d entries show ?thesis by (auto simp: controller_inv_def entries_ok_def count_ok_def)
    qed
  qed
qed

lemma set_task_inv:
  assumes "controller_inv c" "tasks c g = Some t" "holds_channel (Some u) \<longrightarrow> holds_channel (Some t)"
  shows "controller_inv (set_task g u c)"
  using assms
  by (auto simp: controller_inv_def entries_ok_def slots_ok_def count_ok_def set_task_def)

lemma request_shutdown_inv: "controller_inv c \<Longrightarrow> controller_inv (request_shutdown now c)"
  by (erule controller_inv_cong) (simp_all add: request_shutdown_def)

lemma on_completion_inv:
  assumes "controller_inv c"
  shows "controller_inv (on_completion now completion c)"
proof -
  have "controller_inv ((request_shutdown now c)\<lparr>controller_location := l\<rparr>)" for l
    by (rule controller_inv_cong [OF request_shutdown_inv [OF assms]]) simp_all
  with assms show ?thesis
    by (auto simp: on_completion_def split: option.split sum.split controller_location.split)
qed

lemma handle_apply_inv:
  assumes "controller_inv c" "set existing = dom (workers c)" "room (handle_apply existing addresses c)"
  shows "controller_inv (handle_apply existing addresses c)"
proof -
  let ?c = "c\<lparr>convergence := map_option (\<lambda>s. snd (set_assigned addresses s)) (convergence c)\<rparr>"
  have "controller_inv ?c" by (rule controller_inv_cong [OF assms(1)]) simp_all
  with replace_intent_aligned [of ?c existing addresses] assms show ?thesis
    by (simp add: handle_apply_def)
qed

lemma handle_apply_room: "room (handle_apply existing addresses c) \<Longrightarrow> room c"
  using ensuring.loop_room realigning.loop_room by (fastforce simp: handle_apply_def replace_intent_def room_def)

lemma step_room:
  assumes "controller_step c d" "room d"
  shows "room c"
  using assms
proof (cases rule: controller_step.cases)
  case (apply_assignment existing addresses)
  then show ?thesis using assms(2) handle_apply_room by blast
next
  case (completion a g res outcome d' now)
  then show ?thesis using assms(2)
    by (auto simp: reap_def on_completion_def request_shutdown_def room_def drop_slot_def Let_def
        split: option.splits sum.splits controller_location.splits if_splits)
next
  case (shutdown_begun now mode transition)
  then show ?thesis using assms(2) by (auto simp: begin_shutdown_def room_def split: prod.splits)
qed (auto simp: room_def request_shutdown_def set_task_def)

lemma step_inv:
  assumes "controller_step c d" "controller_inv c" "room d"
  shows "controller_inv d"
  using assms
proof (cases rule: controller_step.cases)
  case (adapter_closed now)
  show ?thesis unfolding adapter_closed
    by (rule controller_inv_cong [OF request_shutdown_inv [OF assms(2), of now]]) simp_all
next
  case (completion a g res outcome d' now)
  then show ?thesis using reap_inv [OF assms(2)] on_completion_inv by metis
next
  case (shutdown_begun now mode transition)
  then show ?thesis
    by (intro controller_inv_cong [OF assms(2)]) (auto simp: begin_shutdown_def split: prod.splits)
next
  case (retire_seen g a slot)
  then show ?thesis using set_task_inv [OF assms(2), of g Working] by simp
next
  case (worker_ends g res)
  then show ?thesis using set_task_inv [OF assms(2), of g Working] by simp
next
  case (worker_gone g res)
  then show ?thesis using set_task_inv [OF assms(2), of g "Leaving res"] by simp
qed (use assms handle_apply_inv in \<open>auto intro: controller_inv_cong [OF assms(2)]\<close>)

lemma reachable_controller_inv:
  assumes "controller_reachable c0 c" "controller_inv c0" "room c"
  shows "controller_inv c"
  using assms
proof (induction rule: controller_reachable.induct)
  case (step c d)
  then show ?case using step_room step_inv by blast
qed

text \<open>
  C9: Under every interleaving of assignments, worker exits and completions, no two workers that
  are still running serve the same address, each of them owns the slot of an address, the shared
  worker count is the number of slots, and every slot has its entry among the workers still
  awaited, so a drain never finishes with a worker left behind.
\<close>

theorem controller_slots_exact:
  assumes "controller_reachable (for_managed graceful) c" "room c"
  shows "(\<forall>a g h. (a, g) \<in> set (running_workers c) \<longrightarrow> (a, h) \<in> set (running_workers c) \<longrightarrow>
      holds_channel (tasks c g) \<longrightarrow> holds_channel (tasks c h) \<longrightarrow> g = h) \<and>
    (\<forall>g. holds_channel (tasks c g) \<longrightarrow>
      (\<exists>a slot. workers c a = Some slot \<and> slot_generation slot = g)) \<and>
    shared_worker_count c = of_nat (worker_count c) \<and>
    (running_workers c = [] \<longrightarrow> workers c = Map.empty)"
proof -
  have inv: "controller_inv c"
    by (rule reachable_controller_inv [OF assms(1) _ assms(2)])
      (simp add: for_managed_def controller_new_inv)
  have slot: "\<exists>slot. workers c a = Some slot \<and> slot_generation slot = g"
    if "holds_channel (tasks c g)" "(a, g) \<in> set (running_workers c)" for a g
  proof -
    from live_owner [OF inv that(1)] obtain b slot where b: "workers c b = Some slot" "slot_generation slot = g" .
    then have "(b, g) \<in> set (running_workers c)" using slot_entry [OF inv] by blast
    moreover have "inj_on snd (set (running_workers c))"
      using inv by (simp add: controller_inv_def entries_ok_def distinct_map)
    ultimately have "b = a" using that(2) by (metis inj_onD prod.sel(1) snd_conv)
    with b show ?thesis by blast
  qed
  have "g = h" if "(a, g) \<in> set (running_workers c)" "(a, h) \<in> set (running_workers c)"
      "holds_channel (tasks c g)" "holds_channel (tasks c h)" for a g h
    using slot [OF that(3,1)] slot [OF that(4,2)] by auto
  moreover have "workers c a = None" if "running_workers c = []" for a
    using slot_entry [OF inv, of a] that by (cases "workers c a") auto
  ultimately show ?thesis
    using inv by (auto simp: controller_inv_def slots_ok_def count_ok_def worker_count_def)
qed

text \<open>
  C10: An assignment takes effect at once and never starts a second worker: afterwards every
  assigned address has a live worker told to maintain it, every other live worker is told to
  retire, and each worker that was running keeps its slot.
\<close>

theorem assignment_replaces_intent:
  assumes "controller_inv c" "set existing = dom (workers c)" "room (handle_apply existing addresses c)"
  shows "let d = handle_apply existing addresses c in
    (\<forall>a. worker_is_live d a \<longrightarrow>
       maintenance_intent d a = Some (if a \<in> set addresses then Maintain else Retire)) \<and>
    (\<forall>a\<in>set addresses. worker_is_live d a) \<and> keeps_live c d"
proof -
  let ?c = "c\<lparr>convergence := map_option (\<lambda>s. snd (set_assigned addresses s)) (convergence c)\<rparr>"
  have "controller_inv ?c" by (rule controller_inv_cong [OF assms(1)]) simp_all
  moreover have "keeps_live c e" if "keeps_live ?c e" for e
    using that by (simp add: keeps_live_def is_live_def)
  ultimately show ?thesis
    using replace_intent_aligned [of ?c existing addresses] assms(2,3)
    by (auto simp: handle_apply_def Let_def slot_aligned_def worker_is_live_def maintenance_intent_def
        split: option.splits)
qed

section \<open>Example runs\<close>

definition example_managed :: "bool address_controller" where
  "example_managed = for_managed 0"

definition example_assigned :: "bool address_controller" where
  "example_assigned = handle_apply [] [example_address] example_managed"

lemmas controller_eval =
  example_managed_def for_managed_def controller_new_def handle_apply_def replace_intent_def
  realign_existing_def ensure_desired_def slot_cases send_intent_def drop_slot_def spawn_worker_def
  maintenance_intent_def worker_is_live_def is_live_def saturating_add_def set_task_def reap_def
  on_completion_def set_assigned_def convergence_new_def Let_def

lemma example_assigned_reachable: "controller_reachable example_managed example_assigned"
proof -
  have "controller_step example_managed example_assigned"
    unfolding example_assigned_def by (rule controller_step.apply_assignment) (simp_all add: controller_eval)
  then show ?thesis by (rule controller_reachable.step [OF controller_reachable.start])
qed

theorem controller_slots_exact_witness:
  "controller_reachable example_managed example_assigned \<and> holds_channel (tasks example_assigned 1) \<and>
   (\<exists>a slot. workers example_assigned a = Some slot \<and> slot_generation slot = 1) \<and>
   shared_worker_count example_assigned = of_nat (worker_count example_assigned)"
proof -
  have "room example_assigned" "holds_channel (tasks example_assigned 1)"
    by (simp_all add: example_assigned_def room_def controller_eval)
  with controller_slots_exact [OF example_assigned_reachable [unfolded example_managed_def]]
    example_assigned_reachable
  show ?thesis by simp
qed

theorem assignment_replaces_intent_witness:
  "worker_is_live example_assigned example_address \<and>
   maintenance_intent example_assigned example_address = Some Maintain"
proof -
  have "controller_inv example_managed" by (simp add: example_managed_def for_managed_def controller_new_inv)
  moreover have "set [] = dom (workers example_managed)" "room example_assigned"
    by (simp_all add: example_assigned_def room_def controller_eval)
  ultimately show ?thesis
    using assignment_replaces_intent [of example_managed "[]" "[example_address]"]
    by (simp add: example_assigned_def [symmetric] Let_def)
qed

section \<open>A re-adopted worker that leaves for good\<close>

text \<open>
  A worker that has read the retire intent and is about to return still holds its channel. If the
  address is assigned again at that moment it is re-adopted, not replaced; the worker returns
  anyway, its completion frees the slot, and nothing starts a new worker. The controller then waits
  with the address assigned, no worker and no shutdown: the Client stays disconnected from it until
  the next assignment.
\<close>

definition example_retired :: "bool address_controller" where
  "example_retired = handle_apply [example_address] [] example_assigned"

definition example_readopted :: "bool address_controller" where
  "example_readopted =
     handle_apply [example_address] [example_address] (set_task 1 (Leaving (Inr ())) example_retired)"

definition example_lost :: "bool address_controller" where
  "example_lost = snd (reap example_address 1 (Inr ()) (set_task 1 (Gone (Inr ())) example_readopted))"

lemmas example_run_defs =
  example_lost_def example_readopted_def example_retired_def example_assigned_def

theorem readopted_worker_lost:
  "controller_reachable example_managed example_lost \<and> controller_location example_lost = Serving \<and>
   map_option assigned (convergence example_lost) = Some {example_address} \<and>
   workers example_lost = Map.empty \<and> running_workers example_lost = [] \<and> \<not> shutdown_sent example_lost"
proof -
  have "controller_step example_assigned example_retired"
    unfolding example_retired_def
    by (rule controller_step.apply_assignment) (simp_all add: example_assigned_def controller_eval)
  moreover have "controller_step example_retired (set_task 1 (Leaving (Inr ())) example_retired)"
    by (rule controller_step.retire_seen [of _ _ example_address "\<lparr>slot_intent = Retire, slot_generation = 1\<rparr>"])
      (simp_all add: example_run_defs controller_eval)
  moreover have "controller_step (set_task 1 (Leaving (Inr ())) example_retired) example_readopted"
    unfolding example_readopted_def
    by (rule controller_step.apply_assignment) (simp_all add: example_run_defs controller_eval)
  moreover have "controller_step example_readopted (set_task 1 (Gone (Inr ())) example_readopted)"
    by (rule controller_step.worker_gone) (simp add: example_run_defs controller_eval)
  moreover have "controller_step (set_task 1 (Gone (Inr ())) example_readopted) example_lost"
  proof -
    have "reap example_address 1 (Inr ()) (set_task 1 (Gone (Inr ())) example_readopted) =
        (Some (Inr ()), example_lost)"
      by (simp add: example_run_defs controller_eval)
    then have "controller_step (set_task 1 (Gone (Inr ())) example_readopted)
        (on_completion 0 (Some (Inr ())) example_lost)"
      by (rule controller_step.completion [rotated -1])
        (simp_all add: active_def example_run_defs controller_eval)
    then show ?thesis by (simp add: on_completion_def)
  qed
  ultimately have "controller_reachable example_managed example_lost"
    using example_assigned_reachable by (meson controller_reachable.step)
  then show ?thesis by (simp add: example_run_defs controller_eval)
qed

end
