(* ===== verification/Event_Follower.thy ===== *)
theory Event_Follower
  imports Tunnel_Events
begin

text \<open>
  Both ends of the Tunnel event stream: the Server's subscription loop (\<open>serve_events\<close> of
  \<open>src/src/tunnel/server.rs\<close>) and the Client's subscription, resubscription and replacement hint
  (\<open>src/src/tunnel/client.rs\<close>). HTTP/3 is a parameter: a request stream is the list of results its
  \<open>recv_data\<close> gives, and every await of the follower is an event whose outcome the environment
  chooses. A watch channel is its value with the number of wake-ups.
\<close>

section \<open>Errors\<close>

text \<open>The classes of \<open>h3\<close> stream errors and \<open>quinn\<close> connection errors the code tells apart.\<close>

datatype stream_error = RemoteClosing | ConnectionError | OtherStreamError

datatype quinn_error =
    ApplicationClosed nat | ConnectionClosed nat | TransportError nat | OtherQuinnError

datatype TunnelError =
    MissingClientIdentity | Transport quinn_error | Setup | SetupTimeout
  | EventStream stream_error | SessionConnect | SessionConnectTimeout | EventStreamEnded
  | InitialStateTimeout | Incompatible string | WrongGeneration

datatype h3_code = H3_NO_ERROR | H3_GENERAL_PROTOCOL_ERROR

definition is_tls_access_denied :: "quinn_error \<Rightarrow> bool" where
  "is_tls_access_denied e = (e = TransportError (0x100 + 0x31) \<or> e = ConnectionClosed (0x100 + 0x31))"

definition is_unauthorized_client_identity :: "TunnelError \<Rightarrow> bool" where
  "is_unauthorized_client_identity e =
     (case e of Transport q \<Rightarrow> is_tls_access_denied q | _ \<Rightarrow> False)"

definition is_wrong_generation :: "TunnelError \<Rightarrow> bool" where
  "is_wrong_generation e = (e = WrongGeneration)"

definition close_after_failure :: "TunnelError \<Rightarrow> h3_code" where
  "close_after_failure e =
     (case e of Incompatible _ \<Rightarrow> H3_GENERAL_PROTOCOL_ERROR | _ \<Rightarrow> H3_NO_ERROR)"

definition forbids_new_requests :: "stream_error \<Rightarrow> bool" where
  "forbids_new_requests e = (e = RemoteClosing \<or> e = ConnectionError)"

section \<open>Reading a subscription\<close>

datatype 'u EventItem = State "'u tunnel_event_state" | Keepalive | Ended

definition event_error_text :: "TunnelEventError \<Rightarrow> string" where
  "event_error_text e =
     (case e of UnexpectedEventType \<Rightarrow> ''unexpected-event-type''
      | MalformedState \<Rightarrow> ''malformed-state'' | InvalidGeneration \<Rightarrow> ''invalid-generation'')"

definition item_result ::
  "'u uuid_ops \<Rightarrow> json_ops \<Rightarrow> SseParseItem \<Rightarrow> (TunnelError, 'u EventItem) result" where
  "item_result uuid json item =
     (case item of
        Comment \<Rightarrow> Inr Keepalive
      | Event e \<Rightarrow>
          if event_type e = None \<and> event_data e = [] then Inr Keepalive
          else map_err (\<lambda>error. Incompatible (event_error_text error))
                 (and_then (decode_snapshot uuid json (event_type e) (event_data e)) (\<lambda>s. Inr (State s))))"

type_synonym received_data = "(stream_error, string option) result"

text \<open>\<open>None\<close> is a stream with nothing more to deliver yet: the call is still waiting.\<close>

fun subscription_next ::
  "'u uuid_ops \<Rightarrow> json_ops \<Rightarrow> sse_parser \<Rightarrow> SseParseItem list \<Rightarrow> received_data list
     \<Rightarrow> ((TunnelError, 'u EventItem) result \<times> sse_parser \<times> SseParseItem list \<times> received_data list) option" where
  "subscription_next uuid json p (item # queue) input =
     Some (item_result uuid json item, p, queue, input)"
| "subscription_next uuid json p [] [] = None"
| "subscription_next uuid json p [] (Inl e # input) = Some (Inl (EventStream e), p, [], input)"
| "subscription_next uuid json p [] (Inr None # input) = Some (Inr Ended, p, [], input)"
| "subscription_next uuid json p [] (Inr (Some chunk) # input) =
     (case push p chunk of
        Inl _ \<Rightarrow> Some (Inl (Incompatible ''invalid-sse-framing''), p, [], input)
      | Inr (q, items) \<Rightarrow> subscription_next uuid json q items input)"

text \<open>The results of calling it until the stream ends, fails or has nothing more.\<close>

fun goes_on :: "(TunnelError, 'u EventItem) result \<Rightarrow> bool" where
  "goes_on (Inr (State s)) = True"
| "goes_on (Inr Keepalive) = True"
| "goes_on _ = False"

fun received ::
  "'u uuid_ops \<Rightarrow> json_ops \<Rightarrow> sse_parser \<Rightarrow> SseParseItem list \<Rightarrow> received_data list
     \<Rightarrow> (TunnelError, 'u EventItem) result list" where
  "received uuid json p (item # queue) input =
     (let r = item_result uuid json item
      in r # (if goes_on r then received uuid json p queue input else []))"
| "received uuid json p [] [] = []"
| "received uuid json p [] (Inl e # input) = [Inl (EventStream e)]"
| "received uuid json p [] (Inr None # input) = [Inr Ended]"
| "received uuid json p [] (Inr (Some chunk) # input) =
     (case push p chunk of
        Inl _ \<Rightarrow> [Inl (Incompatible ''invalid-sse-framing'')]
      | Inr (q, items) \<Rightarrow> received uuid json q items input)"

lemma received_next:
  "received uuid json p queue input =
     (case subscription_next uuid json p queue input of
        None \<Rightarrow> []
      | Some (r, q, queue', input') \<Rightarrow>
          r # (if goes_on r then received uuid json q queue' input' else []))"
  by (induction uuid json p queue input rule: subscription_next.induct)
    (auto simp: Let_def split: sum.splits prod.splits)

section \<open>The gate\<close>

record event_response =
  response_status :: nat
  content_type :: "string option"

definition visible_ascii :: "string \<Rightarrow> bool" where
  "visible_ascii s = list_all (\<lambda>c. (32 \<le> code c \<and> code c < 127) \<or> code c = 9) s"

definition is_white_space :: "char \<Rightarrow> bool" where
  "is_white_space c = (code c = 32 \<or> (9 \<le> code c \<and> code c \<le> 13))"

definition trim :: "string \<Rightarrow> string" where
  "trim s = rev (dropWhile is_white_space (rev (dropWhile is_white_space s)))"

definition eq_ignore_ascii_case :: "string \<Rightarrow> string \<Rightarrow> bool" where
  "eq_ignore_ascii_case a b = (map to_ascii_lowercase a = map to_ascii_lowercase b)"

definition is_event_stream :: "string option \<Rightarrow> bool" where
  "is_event_stream header =
     (case header of
        None \<Rightarrow> False
      | Some value \<Rightarrow>
          visible_ascii value \<and>
          eq_ignore_ascii_case (trim (hd (split_on (CHR '';'') value))) ''text/event-stream'')"

text \<open>The first results of a subscription: keepalives do not satisfy the gate.\<close>

fun first_state ::
  "(TunnelError, 'u EventItem) result list \<Rightarrow> (TunnelError, 'u tunnel_event_state) result option" where
  "first_state [] = None"
| "first_state (Inl e # rs) = Some (Inl e)"
| "first_state (Inr (State s) # rs) = Some (Inr s)"
| "first_state (Inr Keepalive # rs) = first_state rs"
| "first_state (Inr Ended # rs) = Some (Inl EventStreamEnded)"

definition subscribe ::
  "'u uuid_ops \<Rightarrow> json_ops \<Rightarrow> (stream_error, unit) result \<Rightarrow> (stream_error, unit) result
     \<Rightarrow> (stream_error, event_response) result \<Rightarrow> received_data list
     \<Rightarrow> (TunnelError, 'u tunnel_event_state) result option" where
  "subscribe uuid json sent finished response input =
     (case and_then (map_err EventStream sent) (\<lambda>_.
           and_then (map_err EventStream finished) (\<lambda>_. map_err EventStream response)) of
        Inl e \<Rightarrow> Some (Inl e)
      | Inr r \<Rightarrow>
          if response_status r \<noteq> 200 then Some (Inl (Incompatible ''unexpected-status''))
          else if \<not> is_event_stream (content_type r)
          then Some (Inl (Incompatible ''unexpected-content-type''))
          else first_state (received uuid json (sse_parser_new TUNNEL_EVENT_SSE_LIMITS) [] input))"

section \<open>Following the stream\<close>

record 'u replacement_hint =
  hint_generation :: "'u option"
  interruptions :: nat
  paused :: bool

datatype follower_phase = Reading | Resubscribing bool bool | Stopped

record 'u event_follower =
  known_state :: "'u tunnel_event_state"
  hint :: "'u replacement_hint"
  hint_wakeups :: nat
  close_code :: "h3_code option"
  phase :: follower_phase

text \<open>
  Resubscribing carries whether this resubscription already counted its interruption and whether
  the current request stream has opened.
\<close>

definition hint_of_state :: "'u tunnel_event_state \<Rightarrow> 'u replacement_hint" where
  "hint_of_state s = \<lparr>hint_generation = hinted_replacement s, interruptions = 0, paused = False\<rparr>"

definition follower_new :: "'u tunnel_event_state \<Rightarrow> 'u event_follower" where
  "follower_new s =
     \<lparr>known_state = s, hint = hint_of_state s, hint_wakeups = 0, close_code = None, phase = Reading\<rparr>"

definition modify_hint :: "bool \<Rightarrow> 'u replacement_hint \<Rightarrow> 'u event_follower \<Rightarrow> 'u event_follower" where
  "modify_hint wake h f =
     f\<lparr>hint := h, hint_wakeups := (if wake then hint_wakeups f + 1 else hint_wakeups f)\<rparr>"

definition close_follower :: "h3_code \<Rightarrow> 'u event_follower \<Rightarrow> 'u event_follower" where
  "close_follower c f =
     f\<lparr>close_code := (case close_code f of None \<Rightarrow> Some c | Some d \<Rightarrow> Some d), phase := Stopped\<rparr>"

definition accept_state :: "'u tunnel_event_state \<Rightarrow> 'u event_follower \<Rightarrow> 'u event_follower" where
  "accept_state s f =
     (if server_generation s \<noteq> server_generation (known_state f)
      then close_follower H3_GENERAL_PROTOCOL_ERROR f
      else let generation = hinted_replacement s;
               changed = (hint_generation (hint f) \<noteq> generation \<or> paused (hint f))
           in modify_hint changed ((hint f)\<lparr>hint_generation := generation, paused := False\<rparr>)
                (f\<lparr>known_state := s, phase := Reading\<rparr>))"

definition count_interruption :: "'u event_follower \<Rightarrow> 'u event_follower" where
  "count_interruption f =
     modify_hint True
       ((hint f)\<lparr>hint_generation := None, interruptions := interruptions (hint f) + 1\<rparr>) f"

definition interrupt_once :: "bool \<Rightarrow> 'u event_follower \<Rightarrow> 'u event_follower" where
  "interrupt_once interrupted f = (if interrupted then f else count_interruption f)"

datatype 'u follower_event =
    Next "(TunnelError, 'u EventItem) result" | Silence
  | ConnectionEnded | Opened | Subscribed "(TunnelError, 'u tunnel_event_state) result" | DeadlineExpired

fun read_step :: "'u follower_event \<Rightarrow> 'u event_follower \<Rightarrow> 'u event_follower" where
  "read_step (Next (Inr (State s))) f = accept_state s f"
| "read_step (Next (Inr Keepalive)) f = f"
| "read_step (Next (Inl (Incompatible reason))) f = close_follower H3_GENERAL_PROTOCOL_ERROR f"
| "read_step (Next r) f =
     modify_hint (\<not> paused (hint f)) ((hint f)\<lparr>paused := True\<rparr>) (f\<lparr>phase := Resubscribing False False\<rparr>)"
| "read_step Silence f =
     modify_hint (\<not> paused (hint f)) ((hint f)\<lparr>paused := True\<rparr>) (f\<lparr>phase := Resubscribing False False\<rparr>)"
| "read_step e f = f"

definition retry_subscription :: "bool \<Rightarrow> 'u event_follower \<Rightarrow> 'u event_follower" where
  "retry_subscription interrupted f =
     (interrupt_once interrupted f)\<lparr>phase := Resubscribing True False\<rparr>"

fun resubscribe_step :: "bool \<Rightarrow> bool \<Rightarrow> 'u follower_event \<Rightarrow> 'u event_follower \<Rightarrow> 'u event_follower" where
  "resubscribe_step interrupted opened ConnectionEnded f = f\<lparr>phase := Stopped\<rparr>"
| "resubscribe_step interrupted opened Opened f =
     (interrupt_once interrupted f)\<lparr>phase := Resubscribing True True\<rparr>"
| "resubscribe_step interrupted opened (Subscribed (Inr s)) f = (if opened then accept_state s f else f)"
| "resubscribe_step interrupted opened (Subscribed (Inl (Incompatible reason))) f =
     close_follower H3_GENERAL_PROTOCOL_ERROR f"
| "resubscribe_step interrupted opened (Subscribed (Inl (EventStream error))) f =
     (if forbids_new_requests error
      then (if interrupted then f else modify_hint True ((hint f)\<lparr>paused := False\<rparr>) f)\<lparr>phase := Stopped\<rparr>
      else retry_subscription interrupted f)"
| "resubscribe_step interrupted opened (Subscribed (Inl e)) f = retry_subscription interrupted f"
| "resubscribe_step interrupted opened DeadlineExpired f = retry_subscription interrupted f"
| "resubscribe_step interrupted opened e f = f"

definition follower_step :: "'u follower_event \<Rightarrow> 'u event_follower \<Rightarrow> 'u event_follower" where
  "follower_step e f =
     (case phase f of
        Reading \<Rightarrow> read_step e f
      | Resubscribing interrupted opened \<Rightarrow> resubscribe_step interrupted opened e f
      | Stopped \<Rightarrow> f)"

section \<open>The Server's subscription loop\<close>

datatype 'u serve_event = Publish "'u option" | KeepaliveTick | SnapshotsChanged

record 'u event_subscription =
  serve_source :: "'u server_tunnel_events"
  serve_unseen :: bool
  frames :: "string list"

definition serve_start ::
  "'u uuid_ops \<Rightarrow> json_ops \<Rightarrow> 'u server_tunnel_events \<Rightarrow> 'u event_subscription" where
  "serve_start uuid json source =
     \<lparr>serve_source = source, serve_unseen = False,
      frames = [encode_sse uuid json (event_snapshot source)]\<rparr>"

fun serve_step ::
  "'u uuid_ops \<Rightarrow> json_ops \<Rightarrow> 'u serve_event \<Rightarrow> 'u event_subscription \<Rightarrow> 'u event_subscription" where
  "serve_step uuid json (Publish r) s =
     (let source = set_replacement_generation r (serve_source s)
      in s\<lparr>serve_source := source,
           serve_unseen := (serve_unseen s \<or> wakeups source \<noteq> wakeups (serve_source s))\<rparr>)"
| "serve_step uuid json KeepaliveTick s = s\<lparr>frames := frames s @ [KEEPALIVE_COMMENT]\<rparr>"
| "serve_step uuid json SnapshotsChanged s =
     (if serve_unseen s
      then s\<lparr>serve_unseen := False,
             frames := frames s @ [encode_sse uuid json (event_snapshot (serve_source s))]\<rparr>
      else s)"

section \<open>Delivery\<close>

text \<open>What reading one frame gives, and the frames a Server writes.\<close>

definition frame_items :: "'u uuid_ops \<Rightarrow> json_ops \<Rightarrow> 'u tunnel_event_state option \<Rightarrow> SseParseItem list" where
  "frame_items uuid json w =
     (case w of
        None \<Rightarrow> [Comment, Event \<lparr>event_type = None, event_data = []\<rparr>]
      | Some s \<Rightarrow> [Event \<lparr>event_type = Some SNAPSHOT_EVENT_TYPE,
                         event_data = compact_object (wire_snapshot_out uuid s)\<rparr>])"

definition frame_text :: "'u uuid_ops \<Rightarrow> json_ops \<Rightarrow> 'u tunnel_event_state option \<Rightarrow> string" where
  "frame_text uuid json w = (case w of None \<Rightarrow> KEEPALIVE_COMMENT | Some s \<Rightarrow> encode_sse uuid json s)"

definition frame_results :: "'u tunnel_event_state option \<Rightarrow> (TunnelError, 'u EventItem) result list" where
  "frame_results w = (case w of None \<Rightarrow> [Inr Keepalive, Inr Keepalive] | Some s \<Rightarrow> [Inr (State s)])"

definition sendable :: "'u uuid_ops \<Rightarrow> 'u tunnel_event_state \<Rightarrow> bool" where
  "sendable uuid s =
     (is_generation uuid (server_generation s) \<and>
      pred_option (is_generation uuid) (replacement_generation s))"

abbreviation fresh_parser :: sse_parser where
  "fresh_parser \<equiv> sse_parser_new TUNNEL_EVENT_SSE_LIMITS"

lemma push_snapshot:
  assumes "uuid_laws uuid" "json_laws json"
  shows "push fresh_parser (encode_sse uuid json s) =
    Inr (fresh_parser, [Event \<lparr>event_type = Some SNAPSHOT_EVENT_TYPE,
                              event_data = compact_object (wire_snapshot_out uuid s)\<rparr>])"
proof -
  have wire: "wire_text (wire_snapshot_out uuid s)" by (rule wire_text_out [OF assms(1)])
  show ?thesis
    unfolding encode_sse_def json_printed [OF assms(2) wire]
    using compact_object_plain [OF wire] compact_object_length [OF wire]
    by (intro push_event) (simp_all add: SNAPSHOT_EVENT_TYPE_def TUNNEL_EVENT_SSE_LIMITS_def)
qed

lemma push_keepalive:
  "push fresh_parser KEEPALIVE_COMMENT =
     Inr (fresh_parser, [Comment, Event \<lparr>event_type = None, event_data = []\<rparr>])"
proof -
  let ?ls = "[('': keepalive'', [LF]), ([], [LF])]"
  have "push fresh_parser (concat (map (\<lambda>(l, e). l @ e) ?ls)) = take_lines fresh_parser (map fst ?ls)"
    by (intro stream_is_lines)
      (simp_all add: line_start_def line_end_def sse_parser_new_def line_fits_def TUNNEL_EVENT_SSE_LIMITS_def)
  also have "\<dots> = Inr (fresh_parser, [Comment, Event \<lparr>event_type = None, event_data = []\<rparr>])"
    using valid_utf8_ascii [of "'': keepalive''"] valid_utf8_ascii [of "[]"]
    by (simp add: take_line_def finish_line_def starts_with_def dispatch_event_def
        sse_parser_new_def then_push_def is_ascii_def Let_def)
  finally show ?thesis by (simp add: KEEPALIVE_COMMENT_def)
qed

lemma push_frame:
  assumes "uuid_laws uuid" "json_laws json"
  shows "push fresh_parser (frame_text uuid json w) = Inr (fresh_parser, frame_items uuid json w)"
  using push_snapshot [OF assms] push_keepalive
  by (cases w) (simp_all add: frame_text_def frame_items_def)

lemma push_frames:
  assumes "uuid_laws uuid" "json_laws json"
  shows "push fresh_parser (concat (map (frame_text uuid json) ws)) =
    Inr (fresh_parser, concat (map (frame_items uuid json) ws))"
  by (induction ws) (simp_all add: push_append push_frame [OF assms] then_push_def)

lemma item_results_of_frame:
  assumes "uuid_laws uuid" "json_laws json" "pred_option (sendable uuid) w"
  shows "map (item_result uuid json) (frame_items uuid json w) = frame_results w"
  using assms decode_wire [OF assms(1,2) wire_text_out [OF assms(1)]]
  by (cases w) (simp_all add: frame_items_def frame_results_def item_result_def sendable_def
      SNAPSHOT_EVENT_TYPE_def)

lemma received_queue:
  assumes "list_all goes_on (map (item_result uuid json) queue)"
  shows "received uuid json p queue input =
    map (item_result uuid json) queue @ received uuid json p [] input"
  using assms by (induction queue) (simp_all add: Let_def)

lemma received_chunks:
  assumes "push p (concat chunks) = Inr (q, items)"
    and "list_all goes_on (map (item_result uuid json) items)"
  shows "received uuid json p [] (map (\<lambda>c. Inr (Some c)) chunks @ input) =
    map (item_result uuid json) items @ received uuid json q [] input"
  using assms
proof (induction chunks arbitrary: p items)
  case (Cons c chunks)
  then obtain r first rest where c: "push p c = Inr (r, first)"
      "push r (concat chunks) = Inr (q, rest)" "items = first @ rest"
    by (auto simp: push_append then_push_def result_simps)
  with Cons.prems(2) have "list_all goes_on (map (item_result uuid json) first)"
      "list_all goes_on (map (item_result uuid json) rest)" by simp_all
  with Cons.IH [OF c(2)] c(1,3) show ?case
    using received_queue [of uuid json first r "map (\<lambda>c. Inr (Some c)) chunks @ input"] by simp
qed simp

lemma received_frames:
  assumes "uuid_laws uuid" "json_laws json" "list_all (pred_option (sendable uuid)) ws"
    and "concat chunks = concat (map (frame_text uuid json) ws)"
  shows "received uuid json fresh_parser [] (map (\<lambda>c. Inr (Some c)) chunks @ input) =
    concat (map frame_results ws) @ received uuid json fresh_parser [] input"
proof -
  have eq: "map (item_result uuid json) (concat (map (frame_items uuid json) ws)) = concat (map frame_results ws)"
    using assms(3)
    by (induction ws) (simp_all add: item_results_of_frame [OF assms(1,2)])
  moreover have "list_all goes_on (concat (map frame_results ws))"
    by (induction ws) (auto simp: frame_results_def split: option.splits)
  ultimately show ?thesis
    using received_chunks [of fresh_parser chunks fresh_parser "concat (map (frame_items uuid json) ws)" uuid json input]
      push_frames [OF assms(1,2), of ws] assms(4) by simp
qed

section \<open>The hint follows the subscription\<close>

definition follower_inv :: "'u \<Rightarrow> 'u event_follower \<Rightarrow> bool" where
  "follower_inv g f =
     (server_generation (known_state f) = g \<and>
      (case phase f of
         Reading \<Rightarrow> \<not> paused (hint f) \<and> hint_generation (hint f) = hinted_replacement (known_state f)
       | Resubscribing interrupted opened \<Rightarrow>
           paused (hint f) \<and> (opened \<longrightarrow> interrupted) \<and>
           hint_generation (hint f) = (if interrupted then None else hinted_replacement (known_state f))
       | Stopped \<Rightarrow> hint_generation (hint f) \<in> {None, hinted_replacement (known_state f)}))"

lemmas follower_defs =
  follower_inv_def accept_state_def close_follower_def modify_hint_def count_interruption_def
  interrupt_once_def retry_subscription_def Let_def

lemma hinted_replacement_other: "hinted_replacement s \<noteq> Some (server_generation s)"
  by (auto simp: hinted_replacement_def split: bind_splits)

lemma follower_new_inv: "follower_inv (server_generation s) (follower_new s)"
  by (simp add: follower_inv_def follower_new_def hint_of_state_def)

lemma read_step_inv:
  "follower_inv g f \<Longrightarrow> phase f = Reading \<Longrightarrow> follower_inv g (read_step e f)"
  by (induction e f rule: read_step.induct) (auto simp: follower_defs)

lemma resubscribe_step_inv:
  "follower_inv g f \<Longrightarrow> phase f = Resubscribing i d \<Longrightarrow> follower_inv g (resubscribe_step i d e f)"
  by (induction i d e f rule: resubscribe_step.induct) (auto simp: follower_defs)

lemma follower_step_inv: "follower_inv g f \<Longrightarrow> follower_inv g (follower_step e f)"
  by (cases "phase f") (simp_all add: follower_step_def read_step_inv resubscribe_step_inv)

lemma follower_run_inv: "follower_inv g f \<Longrightarrow> follower_inv g (fold follower_step es f)"
  by (induction es arbitrary: f) (simp_all add: follower_step_inv)

text \<open>Whether the subscription current at interruption count \<open>n\<close> has been left.\<close>

definition left_subscription :: "nat \<Rightarrow> 'u event_follower \<Rightarrow> bool" where
  "left_subscription n f =
     (n \<le> interruptions (hint f) \<and>
      (n < interruptions (hint f) \<or> phase f = Resubscribing False False \<or> phase f = Stopped))"

lemma read_step_left:
  "phase f = Reading \<Longrightarrow> phase (read_step e f) = Reading \<and> interruptions (hint (read_step e f)) = interruptions (hint f)
     \<or> left_subscription (interruptions (hint f)) (read_step e f)"
  by (induction e f rule: read_step.induct) (auto simp: follower_defs left_subscription_def)

lemma read_step_count: "interruptions (hint (read_step e f)) = interruptions (hint f)"
  by (induction e f rule: read_step.induct) (auto simp: follower_defs)

lemma resubscribe_step_left:
  "left_subscription n f \<Longrightarrow> phase f = Resubscribing i d \<Longrightarrow>
   left_subscription n (resubscribe_step i d e f)"
  by (induction i d e f rule: resubscribe_step.induct) (auto simp: follower_defs left_subscription_def)

lemma follower_step_left:
  assumes "left_subscription n f"
  shows "left_subscription n (follower_step e f)"
proof (cases "phase f")
  case Reading
  with assms have "n < interruptions (hint f)" by (auto simp: left_subscription_def)
  with Reading show ?thesis
    by (simp add: follower_step_def left_subscription_def read_step_count)
qed (use assms in \<open>auto simp: follower_step_def resubscribe_step_left\<close>)

lemma follower_run_left: "left_subscription n f \<Longrightarrow> left_subscription n (fold follower_step es f)"
  by (induction es arbitrary: f) (simp_all add: follower_step_left)

lemma same_subscription:
  assumes "phase f = Reading" "phase (fold follower_step es f) = Reading"
    and "interruptions (hint (fold follower_step es f)) = interruptions (hint f)"
  shows "phase (fold follower_step (take k es) f) = Reading"
  using assms
proof (induction es arbitrary: f k)
  case (Cons e es)
  have step: "follower_step e f = read_step e f" using Cons.prems(1) by (simp add: follower_step_def)
  have "\<not> left_subscription (interruptions (hint f)) (fold follower_step es (read_step e f))"
    using Cons.prems(2,3) step by (simp add: left_subscription_def)
  then have "\<not> left_subscription (interruptions (hint f)) (read_step e f)"
    using follower_run_left by blast
  with read_step_left [OF Cons.prems(1), of e]
  have e: "phase (read_step e f) = Reading" "interruptions (hint (read_step e f)) = interruptions (hint f)"
    by auto
  show ?case
  proof (cases k)
    case (Suc j)
    have "phase (fold follower_step (take j es) (read_step e f)) = Reading"
      by (rule Cons.IH) (use Cons.prems(2,3) e step in simp_all)
    with Suc step show ?thesis by simp
  qed (simp add: Cons.prems(1))
qed simp



section \<open>End to end\<close>

definition snapshots_of :: "'u tunnel_event_state option list \<Rightarrow> 'u tunnel_event_state list" where
  "snapshots_of ws = concat (map (\<lambda>w. case w of None \<Rightarrow> [] | Some s \<Rightarrow> [s]) ws)"

definition written :: "'u uuid_ops \<Rightarrow> json_ops \<Rightarrow> 'u tunnel_event_state option list \<Rightarrow> 'u event_subscription \<Rightarrow> bool" where
  "written uuid json ws s =
     (frames s = map (frame_text uuid json) ws \<and> ws \<noteq> [] \<and> hd ws \<noteq> None \<and>
      list_all (pred_option (sendable uuid)) ws \<and>
      list_all (pred_option (\<lambda>x. server_generation x = server_generation (event_snapshot (serve_source s)))) ws \<and>
      sendable uuid (event_snapshot (serve_source s)) \<and>
      (\<not> serve_unseen s \<longrightarrow> last (snapshots_of ws) = event_snapshot (serve_source s)))"

lemma snapshots_of_append [simp]: "snapshots_of (a @ b) = snapshots_of a @ snapshots_of b"
  by (simp add: snapshots_of_def)

lemma snapshots_of_one [simp]: "snapshots_of [None] = []" "snapshots_of [Some s] = [s]"
  by (simp_all add: snapshots_of_def)

lemma publish_unchanged:
  "wakeups (set_replacement_generation r s) = wakeups s \<Longrightarrow>
   event_snapshot (set_replacement_generation r s) = event_snapshot s"
  by (cases "event_snapshot s") (auto simp: set_replacement_generation_def Let_def split: if_splits)

lemma publish_sendable:
  "pred_option (is_generation uuid) r \<Longrightarrow> sendable uuid (event_snapshot s) \<Longrightarrow>
   sendable uuid (event_snapshot (set_replacement_generation r s))"
  by (cases r) (auto simp: sendable_def set_replacement_generation_def Let_def)

fun publishes :: "('u \<Rightarrow> bool) \<Rightarrow> 'u serve_event \<Rightarrow> bool" where
  "publishes P (Publish r) = pred_option P r"
| "publishes P _ = True"

lemma serve_step_written:
  assumes "written uuid json ws s" "publishes (is_generation uuid) e"
  shows "\<exists>ws'. written uuid json ws' (serve_step uuid json e s)"
proof (cases e)
  case (Publish r)
  have "written uuid json ws (serve_step uuid json e s)"
    using assms Publish publish_unchanged [of r "serve_source s"] publish_sendable [of uuid r "serve_source s"]
    by (auto simp: written_def Let_def)
  then show ?thesis by blast
next
  case KeepaliveTick
  have "written uuid json (ws @ [None]) (serve_step uuid json e s)"
    using assms KeepaliveTick by (auto simp: written_def frame_text_def hd_append)
  then show ?thesis by blast
next
  case SnapshotsChanged
  show ?thesis
  proof (cases "serve_unseen s")
    case True
    have "written uuid json (ws @ [Some (event_snapshot (serve_source s))]) (serve_step uuid json e s)"
      using assms SnapshotsChanged True by (auto simp: written_def frame_text_def hd_append)
    then show ?thesis by blast
  qed (use assms SnapshotsChanged in auto)
qed

lemma serve_run_written:
  assumes "is_generation uuid g" "list_all (publishes (is_generation uuid)) es"
  shows "\<exists>ws. written uuid json ws
    (fold (serve_step uuid json) es (serve_start uuid json (server_tunnel_events_new g)))"
proof -
  have "\<exists>ws. written uuid json ws (fold (serve_step uuid json) es s)"
    if "written uuid json ws s" for ws s
    using that assms(2) by (induction es arbitrary: ws s) (auto dest: serve_step_written)
  moreover have "written uuid json [Some (current_state g)] (serve_start uuid json (server_tunnel_events_new g))"
    using assms(1)
    by (simp add: written_def serve_start_def server_tunnel_events_new_def frame_text_def sendable_def current_state_def)
  ultimately show ?thesis by blast
qed

lemma serve_keeps_generation:
  "server_generation (event_snapshot (serve_source (fold (serve_step uuid json) es s))) =
     server_generation (event_snapshot (serve_source s))"
proof (induction es arbitrary: s)
  case (Cons e es)
  then show ?case by (cases e) (simp_all add: Let_def)
qed simp

abbreviation own_suppressed :: "'u event_subscription \<Rightarrow> bool" where
  "own_suppressed s \<equiv>
     replacement_generation (event_snapshot (serve_source s)) \<noteq>
       Some (server_generation (event_snapshot (serve_source s)))"

lemma serve_step_suppressed: "own_suppressed s \<Longrightarrow> own_suppressed (serve_step uuid json e s)"
proof (cases e)
  case (Publish r)
  then show ?thesis by (cases r) (simp_all add: set_replacement_generation_def Let_def)
qed simp_all

lemma serve_run_suppressed:
  "own_suppressed (fold (serve_step uuid json) es (serve_start uuid json (server_tunnel_events_new g)))"
proof -
  have "own_suppressed s \<Longrightarrow> own_suppressed (fold (serve_step uuid json) es s)" for s
    by (induction es arbitrary: s) (simp_all add: serve_step_suppressed del: serve_step.simps)
  then show ?thesis by (simp add: serve_start_def server_tunnel_events_new_def current_state_def)
qed

lemma follow_frames:
  assumes "list_all (pred_option (\<lambda>x. server_generation x = server_generation (known_state f))) ws"
    and "phase f = Reading" "close_code f = None" "follower_inv g f"
  shows "let d = fold follower_step (map Next (concat (map frame_results ws))) f
    in phase d = Reading \<and> close_code d = None \<and> follower_inv g d \<and>
       known_state d = last (known_state f # snapshots_of ws)"
  using assms
proof (induction ws arbitrary: f)
  case (Cons w ws)
  show ?case
  proof (cases w)
    case None
    then show ?thesis
      using Cons.IH [of f] Cons.prems
      by (simp add: frame_results_def follower_step_def snapshots_of_def)
  next
    case (Some s)
    let ?f = "accept_state s f"
    have f: "follower_step (Next (Inr (State s))) f = ?f" "phase ?f = Reading" "close_code ?f = None"
        "known_state ?f = s" "server_generation s = server_generation (known_state f)"
      using Cons.prems Some by (simp_all add: follower_step_def accept_state_def modify_hint_def Let_def)
    have "follower_inv g ?f" using follower_step_inv [OF Cons.prems(4), of "Next (Inr (State s))"] f(1) by simp
    then show ?thesis
      using Cons.IH [of ?f] Cons.prems Some f
      by (simp add: frame_results_def snapshots_of_def Let_def)
  qed
qed (simp add: snapshots_of_def Let_def)



end
