(* ===== verification/Withdrawal.thy ===== *)
theory Withdrawal
  imports Event_Follower Shutdown Addresses
begin

text \<open>
  Placement withdrawal on the Client: classifying one withdrawal request, the single retry
  (\<open>src/src/tunnel/client.rs\<close>), and the connection run that withdraws under the shared shutdown
  (\<open>run_with_shutdown\<close> of \<open>src/src/client/mod.rs\<close>). HTTP/3 gives the results of each call; time
  and shutdown are events of the environment.
\<close>

datatype UnconfirmedDrain =
    DrainConnectionLost | RetryExhausted | DrainRequestsForbidden | Deadline | FastShutdown

datatype ProtocolFailure = FailureStatus nat | MalformedConfirmationFailure

datatype WithdrawalOutcome =
    WithdrawalConfirmed | Unconfirmed UnconfirmedDrain | WithdrawalFailed ProtocolFailure

datatype WithdrawalAttempt =
    AttemptConfirmed | AttemptStatus nat | MalformedConfirmation | NoResponse
  | RequestsForbidden | ConnectionLost

datatype WithdrawalStep = Retry | Done WithdrawalOutcome

definition unconfirmed_text :: "UnconfirmedDrain \<Rightarrow> string" where
  "unconfirmed_text d =
     (case d of DrainConnectionLost \<Rightarrow> ''connection-lost'' | RetryExhausted \<Rightarrow> ''retry-exhausted''
      | DrainRequestsForbidden \<Rightarrow> ''goaway'' | Deadline \<Rightarrow> ''deadline'' | FastShutdown \<Rightarrow> ''fast-shutdown'')"

definition protocol_failure_text :: "ProtocolFailure \<Rightarrow> string" where
  "protocol_failure_text f =
     (case f of FailureStatus status \<Rightarrow> ''unexpected status '' @ show_nat status
      | MalformedConfirmationFailure \<Rightarrow> ''malformed 204 confirmation'')"

definition next_step :: "WithdrawalAttempt \<Rightarrow> bool \<Rightarrow> WithdrawalStep" where
  "next_step attempt retry_available =
     (case attempt of
        AttemptConfirmed \<Rightarrow> Done WithdrawalConfirmed
      | NoResponse \<Rightarrow> if retry_available then Retry else Done (Unconfirmed RetryExhausted)
      | AttemptStatus status \<Rightarrow>
          if status = 408 then if retry_available then Retry else Done (Unconfirmed RetryExhausted)
          else Done (WithdrawalFailed (FailureStatus status))
      | MalformedConfirmation \<Rightarrow> Done (WithdrawalFailed MalformedConfirmationFailure)
      | RequestsForbidden \<Rightarrow> Done (Unconfirmed DrainRequestsForbidden)
      | ConnectionLost \<Rightarrow> Done (Unconfirmed DrainConnectionLost))"

section \<open>One request\<close>

record withdrawal_response =
  withdrawal_status :: nat
  transfer_encoding :: bool
  content_lengths :: "string list"

definition declares_content :: "withdrawal_response \<Rightarrow> bool" where
  "declares_content r =
     (transfer_encoding r \<or> list_ex (\<lambda>value. list_ex (\<lambda>byte. byte \<noteq> CHR ''0'') value) (content_lengths r))"

text \<open>The body and trailers of a response; \<open>None\<close> while more is awaited.\<close>

fun confirm_body ::
  "received_data list \<Rightarrow> (stream_error, bool) result \<Rightarrow> WithdrawalAttempt option" where
  "confirm_body [] trailers = None"
| "confirm_body (Inl e # data) trailers = Some NoResponse"
| "confirm_body (Inr None # data) trailers =
     Some (case trailers of
             Inr present \<Rightarrow> if present then MalformedConfirmation else AttemptConfirmed
           | Inl _ \<Rightarrow> NoResponse)"
| "confirm_body (Inr (Some chunk) # data) trailers =
     (if chunk \<noteq> [] then Some MalformedConfirmation else confirm_body data trailers)"

record withdrawal_exchange =
  request_sent :: "(stream_error, unit) result"
  request_finished :: "(stream_error, unit) result"
  response_received :: "(stream_error, withdrawal_response) result"
  response_data :: "received_data list"
  response_trailers :: "(stream_error, bool) result"

definition withdrawal_attempt :: "withdrawal_exchange \<Rightarrow> WithdrawalAttempt option" where
  "withdrawal_attempt x =
     (case request_sent x of
        Inl RemoteClosing \<Rightarrow> Some RequestsForbidden
      | Inl ConnectionError \<Rightarrow> Some ConnectionLost
      | Inl OtherStreamError \<Rightarrow> Some NoResponse
      | Inr _ \<Rightarrow>
          (case and_then (request_finished x) (\<lambda>_. response_received x) of
             Inl _ \<Rightarrow> Some NoResponse
           | Inr response \<Rightarrow>
               if withdrawal_status response \<noteq> 204 then Some (AttemptStatus (withdrawal_status response))
               else if declares_content response then Some MalformedConfirmation
               else confirm_body (response_data x) (response_trailers x)))"

section \<open>The retry\<close>

text \<open>
  One round: the exchange, and what the connection does meanwhile. \<open>closed_first\<close> means the
  connection closed before the exchange gave a result, \<open>closed_after\<close> that it is closed when the
  result is looked at.
\<close>

record withdrawal_round =
  round_exchange :: withdrawal_exchange
  closed_first :: bool
  closed_after :: bool

definition round_attempt :: "withdrawal_round \<Rightarrow> WithdrawalAttempt option" where
  "round_attempt r =
     (if closed_first r then Some ConnectionLost
      else map_option
             (\<lambda>attempt. if attempt = NoResponse \<and> closed_after r then ConnectionLost else attempt)
             (withdrawal_attempt (round_exchange r)))"

text \<open>\<open>None\<close> while a round is awaited; otherwise the outcome and the rounds it took.\<close>

fun withdrawal_rounds :: "bool \<Rightarrow> withdrawal_round list \<Rightarrow> (WithdrawalOutcome \<times> nat) option" where
  "withdrawal_rounds retry_available [] = None"
| "withdrawal_rounds retry_available (r # rs) =
     (case round_attempt r of
        None \<Rightarrow> None
      | Some attempt \<Rightarrow>
          (case next_step attempt retry_available of
             Done outcome \<Rightarrow> Some (outcome, 1)
           | Retry \<Rightarrow> map_option (\<lambda>(outcome, n). (outcome, Suc n)) (withdrawal_rounds False rs)))"

definition withdrawal :: "withdrawal_round list \<Rightarrow> (WithdrawalOutcome \<times> nat) option" where
  "withdrawal rounds = withdrawal_rounds True rounds"

section \<open>Running a connection\<close>

text \<open>
  \<open>run_confirmed\<close> is the flag set when the \<open>204\<close> arrives, before local Visitors have drained.
\<close>

datatype run_location =
    Accepting | Withdrawing | RunReturned "(quinn_error, WithdrawalOutcome option) result"

record connection_run =
  run_location :: run_location
  run_accepting :: bool
  run_confirmed :: bool
  run_visitors :: nat
  run_closed :: bool
  run_duration :: nat

definition run_new :: "nat \<Rightarrow> connection_run" where
  "run_new duration =
     \<lparr>run_location = Accepting, run_accepting = True, run_confirmed = False, run_visitors = 0,
      run_closed = False, run_duration = duration\<rparr>"

datatype run_event =
    ShutdownStarted ShutdownMode | RemoteClose quinn_error | StreamAccepted | IntakeEnded
  | ConfirmationReceived | WithdrawalEnds WithdrawalOutcome | FastSignalled | DeadlineReached

definition finish_run :: "WithdrawalOutcome \<Rightarrow> connection_run \<Rightarrow> connection_run" where
  "finish_run outcome r =
     r\<lparr>run_closed := True,
       run_location := RunReturned (Inr (Some (if run_confirmed r then WithdrawalConfirmed else outcome)))\<rparr>"

fun run_step :: "run_event \<Rightarrow> connection_run \<Rightarrow> connection_run" where
  "run_step (ShutdownStarted mode) r =
     (if run_location r = Accepting then
        if mode = Graceful \<and> run_duration r \<noteq> 0 then r\<lparr>run_location := Withdrawing\<rparr>
        else r\<lparr>run_closed := True, run_location := RunReturned (Inr None)\<rparr>
      else r)"
| "run_step (RemoteClose e) r =
     (if run_location r = Accepting then r\<lparr>run_closed := True, run_location := RunReturned (Inl e)\<rparr> else r)"
| "run_step StreamAccepted r =
     (if run_location r \<in> {Accepting, Withdrawing} \<and> run_accepting r
      then r\<lparr>run_visitors := run_visitors r + 1\<rparr> else r)"
| "run_step IntakeEnded r =
     (if run_location r \<in> {Accepting, Withdrawing} then r\<lparr>run_accepting := False\<rparr> else r)"
| "run_step ConfirmationReceived r =
     (if run_location r = Withdrawing then r\<lparr>run_confirmed := True\<rparr> else r)"
| "run_step (WithdrawalEnds outcome) r =
     (if run_location r = Withdrawing \<and> (outcome = WithdrawalConfirmed \<longrightarrow> run_confirmed r)
      then finish_run outcome r else r)"
| "run_step FastSignalled r =
     (if run_location r = Withdrawing then finish_run (Unconfirmed FastShutdown) r else r)"
| "run_step DeadlineReached r =
     (if run_location r = Withdrawing then finish_run (Unconfirmed Deadline) r else r)"

section \<open>Properties\<close>

lemma confirm_body_confirmed:
  "confirm_body data trailers = Some AttemptConfirmed \<longleftrightarrow>
     trailers = Inr False \<and> (\<exists>n rest. data = replicate n (Inr (Some [])) @ Inr None # rest)"
proof (induction data trailers rule: confirm_body.induct)
  case (4 chunk data trailers)
  have "(\<exists>n rest. Inr (Some chunk) # data = replicate n (Inr (Some [])) @ Inr None # rest) \<longleftrightarrow>
      chunk = [] \<and> (\<exists>n rest. data = replicate n (Inr (Some [])) @ Inr None # rest)"
    (is "?l \<longleftrightarrow> ?r")
  proof
    assume ?l
    then obtain n rest where "Inr (Some chunk) # data = replicate n (Inr (Some [])) @ Inr None # rest" by blast
    then show ?r by (cases n) auto
  next
    assume ?r
    then obtain n rest where "chunk = []" "data = replicate n (Inr (Some [])) @ Inr None # rest" by blast
    then show ?l by (intro exI [of _ "Suc n"]) simp
  qed
  with 4 show ?case by (cases "chunk = []") simp_all
qed (auto split: sum.splits simp: Cons_eq_append_conv Cons_replicate_eq intro: exI [of _ 0])

text \<open>A bodyless \<open>204\<close> followed by the end of the response, without content or trailers.\<close>

definition bodyless_204 :: "withdrawal_exchange \<Rightarrow> bool" where
  "bodyless_204 x =
     (request_sent x = Inr () \<and> request_finished x = Inr () \<and>
      (\<exists>r. response_received x = Inr r \<and> withdrawal_status r = 204 \<and> \<not> declares_content r) \<and>
      response_trailers x = Inr False \<and>
      (\<exists>n rest. response_data x = replicate n (Inr (Some [])) @ Inr None # rest))"

lemma withdrawal_attempt_confirmed:
  "withdrawal_attempt x = Some AttemptConfirmed \<longleftrightarrow> bodyless_204 x"
  by (cases "request_sent x"; cases "request_finished x"; cases "response_received x")
    (auto simp: withdrawal_attempt_def bodyless_204_def confirm_body_confirmed split: stream_error.splits)

lemma round_attempt_confirmed:
  "round_attempt r = Some AttemptConfirmed \<longleftrightarrow> \<not> closed_first r \<and> bodyless_204 (round_exchange r)"
  by (auto simp: round_attempt_def simp flip: withdrawal_attempt_confirmed)

lemma next_step_confirmed: "next_step a retry = Done WithdrawalConfirmed \<longleftrightarrow> a = AttemptConfirmed"
  by (auto simp: next_step_def split: WithdrawalAttempt.splits)

lemma next_step_final: "next_step a False = Retry \<longleftrightarrow> False"
  by (auto simp: next_step_def split: WithdrawalAttempt.splits)

lemma next_step_failed:
  "next_step a retry = Done (WithdrawalFailed f) \<longleftrightarrow>
     a = MalformedConfirmation \<and> f = MalformedConfirmationFailure \<or>
     (\<exists>status. a = AttemptStatus status \<and> status \<noteq> 408 \<and> f = FailureStatus status)"
  by (auto simp: next_step_def split: WithdrawalAttempt.splits)

lemma last_round:
  assumes "withdrawal_rounds False rounds = Some (outcome, n)"
  shows "\<exists>r rs a. rounds = r # rs \<and> n = 1 \<and> round_attempt r = Some a \<and> next_step a False = Done outcome"
  using assms
  by (cases rounds) (auto split: option.splits WithdrawalStep.splits simp: next_step_final)

lemma withdrawal_deciding_round:
  assumes "withdrawal rounds = Some (outcome, n)"
  shows "1 \<le> n \<and> n \<le> 2 \<and> n \<le> length rounds \<and>
    (\<exists>a retry. round_attempt (rounds ! (n - 1)) = Some a \<and> next_step a retry = Done outcome)"
proof (cases rounds)
  case (Cons r rs)
  with assms obtain a where a: "round_attempt r = Some a" by (auto simp: withdrawal_def split: option.splits)
  show ?thesis
  proof (cases "next_step a True")
    case Retry
    with assms Cons a obtain m where "withdrawal_rounds False rs = Some (outcome, m)" "n = Suc m"
      by (auto simp: withdrawal_def)
    with last_round [OF this(1)] Cons show ?thesis by auto
  qed (use assms Cons a in \<open>auto simp: withdrawal_def\<close>)
qed (use assms in \<open>simp add: withdrawal_def\<close>)

lemma withdrawal_settles:
  assumes "2 \<le> length rounds" "list_all (\<lambda>r. round_attempt r \<noteq> None) rounds"
  shows "\<exists>outcome n. withdrawal rounds = Some (outcome, n)"
proof -
  obtain r1 r2 rs where r: "rounds = r1 # r2 # rs" using assms(1) by (cases rounds; cases "tl rounds") auto
  with assms(2) obtain a b where "round_attempt r1 = Some a" "round_attempt r2 = Some b" by auto
  with r show ?thesis
    by (auto simp: withdrawal_def next_step_final split: WithdrawalStep.splits)
qed

lemma run_returned_stays: "run_location r = RunReturned x \<Longrightarrow> run_location (fold run_step es r) = RunReturned x"
proof (induction es arbitrary: r)
  case (Cons e es)
  then show ?case by (cases e) simp_all
qed simp

definition run_inv :: "connection_run \<Rightarrow> bool" where
  "run_inv r =
     ((run_confirmed r \<longrightarrow> run_location r = Withdrawing \<or>
         run_location r = RunReturned (Inr (Some WithdrawalConfirmed))) \<and>
      (run_location r = RunReturned (Inr (Some WithdrawalConfirmed)) \<longrightarrow> run_confirmed r) \<and>
      (run_closed r \<longleftrightarrow> run_location r \<notin> {Accepting, Withdrawing}))"

lemma run_step_inv: "run_inv r \<Longrightarrow> run_inv (run_step e r)"
  by (cases e) (auto simp: run_inv_def finish_run_def)

lemma run_reachable_inv: "run_inv (fold run_step es (run_new duration))"
proof -
  have "run_inv r \<Longrightarrow> run_inv (fold run_step es r)" for r
    by (induction es arbitrary: r) (simp_all add: run_step_inv del: run_step.simps)
  then show ?thesis by (simp add: run_inv_def run_new_def)
qed

text \<open>
  C12: Withdrawal sends at most two requests. It is confirmed exactly when the deciding response
  is a \<open>204\<close> that declares and carries no content and no trailers, and it is a protocol failure
  only for a malformed \<open>204\<close> or a final status other than \<open>204\<close> and \<open>408\<close>. A connection run
  reports a confirmed withdrawal exactly when the confirmation arrived while it was withdrawing,
  whatever shutdown escalation or deadline came later, and it has closed its connection whenever
  it has returned.
\<close>

theorem withdrawal_outcome_exact:
  assumes "withdrawal rounds = Some (outcome, n)"
    and "r = fold run_step es (run_new duration)"
  shows "1 \<le> n \<and> n \<le> 2 \<and> n \<le> length rounds \<and>
    (outcome = WithdrawalConfirmed \<longleftrightarrow>
       \<not> closed_first (rounds ! (n - 1)) \<and> bodyless_204 (round_exchange (rounds ! (n - 1)))) \<and>
    (\<forall>f. outcome = WithdrawalFailed f \<longrightarrow>
       round_attempt (rounds ! (n - 1)) = Some MalformedConfirmation \<and> f = MalformedConfirmationFailure \<or>
       (\<exists>status. round_attempt (rounds ! (n - 1)) = Some (AttemptStatus status) \<and> status \<noteq> 408 \<and>
          f = FailureStatus status)) \<and>
    (\<forall>x. run_location r = RunReturned x \<longrightarrow>
       run_closed r \<and> (x = Inr (Some WithdrawalConfirmed) \<longleftrightarrow> run_confirmed r))"
proof -
  obtain a retry where n: "1 \<le> n" "n \<le> 2" "n \<le> length rounds"
      "round_attempt (rounds ! (n - 1)) = Some a" "next_step a retry = Done outcome"
    using withdrawal_deciding_round [OF assms(1)] by blast
  have "outcome = WithdrawalConfirmed \<longleftrightarrow> a = AttemptConfirmed"
    using n(5) next_step_confirmed [of a retry] by auto
  then have "outcome = WithdrawalConfirmed \<longleftrightarrow>
      \<not> closed_first (rounds ! (n - 1)) \<and> bodyless_204 (round_exchange (rounds ! (n - 1)))"
    using n(4) round_attempt_confirmed [of "rounds ! (n - 1)"] by auto
  moreover have "\<forall>f. outcome = WithdrawalFailed f \<longrightarrow>
       a = MalformedConfirmation \<and> f = MalformedConfirmationFailure \<or>
       (\<exists>status. a = AttemptStatus status \<and> status \<noteq> 408 \<and> f = FailureStatus status)"
    using n(5) next_step_failed [of a retry] by simp
  moreover have "run_inv r" unfolding assms(2) by (rule run_reachable_inv)
  ultimately show ?thesis using n by (auto simp: run_inv_def)
qed

definition example_round :: "(stream_error, withdrawal_response) result \<Rightarrow> withdrawal_round" where
  "example_round response =
     \<lparr>round_exchange = \<lparr>request_sent = Inr (), request_finished = Inr (), response_received = response,
        response_data = [Inr (Some []), Inr None], response_trailers = Inr False\<rparr>,
      closed_first = False, closed_after = False\<rparr>"

theorem withdrawal_outcome_exact_witness:
  "let rounds = [example_round (Inl OtherStreamError),
                 example_round (Inr \<lparr>withdrawal_status = 204, transfer_encoding = False, content_lengths = [''0'']\<rparr>)];
       r = fold run_step [ShutdownStarted Graceful, ConfirmationReceived, FastSignalled] (run_new 30)
   in withdrawal rounds = Some (WithdrawalConfirmed, 2) \<and> bodyless_204 (round_exchange (rounds ! 1)) \<and>
      run_location r = RunReturned (Inr (Some WithdrawalConfirmed)) \<and> run_closed r"
proof -
  let ?rounds = "[example_round (Inl OtherStreamError),
    example_round (Inr \<lparr>withdrawal_status = 204, transfer_encoding = False, content_lengths = [''0'']\<rparr>)]"
  let ?es = "[ShutdownStarted Graceful, ConfirmationReceived, FastSignalled]"
  have w: "withdrawal ?rounds = Some (WithdrawalConfirmed, 2)"
    by (simp add: withdrawal_def round_attempt_def withdrawal_attempt_def example_round_def
        next_step_def declares_content_def)
  have "run_location (fold run_step ?es (run_new 30)) = RunReturned (Inr (Some WithdrawalConfirmed))"
    by (simp add: run_new_def finish_run_def)
  with withdrawal_outcome_exact [OF w refl, of ?es 30] w show ?thesis by (simp add: Let_def)
qed

end
