(* ===== verification/Tunnel_Attempt.thy ===== *)
theory Tunnel_Attempt
  imports Withdrawal
begin

text \<open>
  One Tunnel connection attempt of the Client (\<open>src/src/client/tunnel_attempt.rs\<close>) and the
  establishment gate behind it (\<open>establish_internal\<close> of \<open>src/src/tunnel/client.rs\<close>). DNS, QUIC and
  HTTP/3 give the results of the calls; the order of the checks, the classification of every
  failure and the attempt bookkeeping are the code's.
\<close>

section \<open>Errors and their texts\<close>

datatype ClientConnectError =
    BindError | ConnectError | HandshakeError quinn_error | TunnelFailed TunnelError

definition tunnel_error_text :: "TunnelError \<Rightarrow> string" where
  "tunnel_error_text e =
     (case e of
        MissingClientIdentity \<Rightarrow> ''tunnel connection has no pinned client identity''
      | Transport _ \<Rightarrow> ''tunnel connection closed during HTTP/3 establishment''
      | Setup \<Rightarrow> ''HTTP/3 tunnel connection setup failed''
      | SetupTimeout \<Rightarrow> ''HTTP/3 tunnel connection setup timed out''
      | EventStream _ \<Rightarrow> ''tunnel event stream failed''
      | SessionConnect \<Rightarrow> ''tunnel WebTransport session failed''
      | SessionConnectTimeout \<Rightarrow> ''tunnel WebTransport session timed out''
      | EventStreamEnded \<Rightarrow> ''tunnel event stream ended before its first state''
      | InitialStateTimeout \<Rightarrow> ''tunnel event stream sent no state before its deadline''
      | Incompatible reason \<Rightarrow> ''incompatible tunnel event stream: '' @ reason
      | WrongGeneration \<Rightarrow> ''tunnel candidate reached an unexpected server generation'')"

definition connect_error_text :: "ClientConnectError \<Rightarrow> string" where
  "connect_error_text e =
     (case e of
        BindError \<Rightarrow> ''failed to bind the client endpoint''
      | ConnectError \<Rightarrow> ''failed to start the client connection''
      | HandshakeError _ \<Rightarrow> ''client QUIC handshake failed''
      | TunnelFailed error \<Rightarrow> tunnel_error_text error)"

definition connect_unauthorized :: "ClientConnectError \<Rightarrow> bool" where
  "connect_unauthorized e =
     (case e of HandshakeError q \<Rightarrow> is_tls_access_denied q
      | TunnelFailed error \<Rightarrow> is_unauthorized_client_identity error | _ \<Rightarrow> False)"

datatype QuicConfigError = Rustls | NoInitialCipherSuite

definition quic_config_error_text :: "QuicConfigError \<Rightarrow> string" where
  "quic_config_error_text e =
     (case e of Rustls \<Rightarrow> ''TLS configuration error''
      | NoInitialCipherSuite \<Rightarrow> ''QUIC TLS configuration error'')"

text \<open>TLS material errors of the Server code carry their rendered text.\<close>

datatype ClientStartupError =
    TlsMaterial string | InvalidSettings string | NativeRoots nat | AddRootCertificate
  | QuicConfig QuicConfigError | Resolve | NoConfiguredServerAddress | MissingServerAddress string
  | StartupConnect ClientConnectError | CreateDirectory string string

definition startup_error_text :: "ClientStartupError \<Rightarrow> string" where
  "startup_error_text e =
     (case e of
        TlsMaterial text \<Rightarrow> text
      | InvalidSettings message \<Rightarrow> message
      | NativeRoots errors \<Rightarrow>
          ''failed to load the system trust store: '' @ show_nat errors @
          '' certificate(s) could not be loaded''
      | AddRootCertificate \<Rightarrow> ''failed to add a trusted CA certificate''
      | QuicConfig error \<Rightarrow> quic_config_error_text error
      | Resolve \<Rightarrow> ''failed to resolve the Server hostname''
      | NoConfiguredServerAddress \<Rightarrow> ''client config does not include any Server addresses''
      | MissingServerAddress host \<Rightarrow> ''the Server hostname did not resolve to any addresses: '' @ host
      | StartupConnect error \<Rightarrow> connect_error_text error
      | CreateDirectory field path \<Rightarrow> ''failed to create '' @ field @ '' directory '' @ path)"

section \<open>Establishment\<close>

datatype 'a timed = Finished 'a | Expired

text \<open>
  The result is the accepted snapshot and whether the session may offer credit at once, or the
  error with the code the connection is closed with, if the Client closes it.
\<close>

definition establish ::
  "(unit, unit) result timed \<Rightarrow> (TunnelError, 'u tunnel_event_state) result timed \<Rightarrow> quinn_error option
     \<Rightarrow> (unit, unit) result timed \<Rightarrow> quinn_error option \<Rightarrow> 'u option
     \<Rightarrow> (TunnelError \<times> h3_code option, 'u tunnel_event_state \<times> bool) result" where
  "establish setup subscribed closed_by_gate session closed_by_session expected =
     (case setup of
        Expired \<Rightarrow> Inl (SetupTimeout, None)
      | Finished (Inl _) \<Rightarrow> Inl (Setup, None)
      | Finished (Inr _) \<Rightarrow>
          (case subscribed of
             Expired \<Rightarrow> Inl (InitialStateTimeout, Some H3_NO_ERROR)
           | Finished (Inl error) \<Rightarrow>
               (case closed_by_gate of
                  Some q \<Rightarrow> Inl (Transport q, None)
                | None \<Rightarrow> Inl (error, Some (close_after_failure error)))
           | Finished (Inr initial) \<Rightarrow>
               if pred_option (\<lambda>g. g \<noteq> server_generation initial) expected \<and> expected \<noteq> None
               then Inl (WrongGeneration, Some H3_NO_ERROR)
               else
                 (case session of
                    Expired \<Rightarrow> Inl (SessionConnectTimeout, Some H3_NO_ERROR)
                  | Finished (Inl _) \<Rightarrow>
                      (case closed_by_session of
                         Some q \<Rightarrow> Inl (Transport q, None)
                       | None \<Rightarrow> Inl (SessionConnect, Some H3_NO_ERROR))
                  | Finished (Inr _) \<Rightarrow> Inr (initial, expected = None))))"

lemma establish_Inr:
  "establish setup subscribed closed1 session closed2 expected = Inr (initial, credit) \<longleftrightarrow>
     setup = Finished (Inr ()) \<and> subscribed = Finished (Inr initial) \<and> session = Finished (Inr ()) \<and>
     expected \<in> {None, Some (server_generation initial)} \<and> credit = (expected = None)"
  by (cases expected)
    (auto simp: establish_def split: timed.splits sum.splits option.splits if_splits)

section \<open>Attempts\<close>

datatype ClientTunnelPhase = Establishing | Reconnecting
datatype ClientTunnelAttemptKind = Initial | RetryAttempt

record attempt_context =
  context_phase :: ClientTunnelPhase
  context_kind :: ClientTunnelAttemptKind
  context_server :: string

datatype 's AttemptFailureKind =
    ResolutionFailure attempt_context | UnauthorizedFailure attempt_context
  | TransportFailure attempt_context 's | WrongGenerationFailure | UnclassifiedFailure

record 's attempt_failure =
  failure_kind :: "'s AttemptFailureKind"
  failure_message :: string

datatype ('u, 's) attempt_outcome =
    Connected string "'u replacement_hint" 'u
  | Retryable "'s attempt_failure"
  | FatalLocalMaterial string

datatype ConnectionEndKind =
    CleanEnd | UnauthorizedEnd | TransportEnd | WithdrawalProtocolFailure | UnclassifiedEnd

record connection_end =
  end_kind :: ConnectionEndKind
  end_message :: "string option"

definition unclassified_failure_message :: "'s attempt_failure \<Rightarrow> string option" where
  "unclassified_failure_message f =
     (if failure_kind f = UnclassifiedFailure then Some (failure_message f) else None)"

definition withdrawal_protocol_failure_message :: "connection_end \<Rightarrow> string option" where
  "withdrawal_protocol_failure_message e =
     (if end_kind e = WithdrawalProtocolFailure then end_message e else None)"

definition client_tunnel_phase :: "bool \<Rightarrow> ClientTunnelPhase" where
  "client_tunnel_phase connected_once = (if connected_once then Reconnecting else Establishing)"

definition client_tunnel_attempt_kind :: "bool \<Rightarrow> ClientTunnelAttemptKind" where
  "client_tunnel_attempt_kind fresh = (if fresh then Initial else RetryAttempt)"

definition configured_server_addr :: "string \<Rightarrow> nat \<Rightarrow> string" where
  "configured_server_addr host number =
     (if CHR '':'' \<in> set host \<and> \<not> starts_with (CHR ''['') host
      then CHR ''['' # host @ '']:'' @ show_nat number
      else host @ '':'' @ show_nat number)"

definition display_server_address :: "server_address \<Rightarrow> string" where
  "display_server_address a = configured_server_addr (address_hostname a) (address_port a)"

definition resolve_first ::
  "server_address \<Rightarrow> (unit, 's list) result \<Rightarrow> (ClientStartupError, 's) result" where
  "resolve_first a resolved =
     and_then (map_err (\<lambda>_. Resolve) resolved) (\<lambda>addresses.
       ok_or (MissingServerAddress (address_hostname a))
         (case addresses of [] \<Rightarrow> None | x # _ \<Rightarrow> Some x))"

definition classify_connect_failure ::
  "ClientStartupError \<Rightarrow> attempt_context \<Rightarrow> 's \<Rightarrow> ('u, 's) attempt_outcome" where
  "classify_connect_failure error ctx resolved =
     (case error of
        StartupConnect connect \<Rightarrow>
          let message = connect_error_text connect
          in Retryable \<lparr>failure_kind =
               (if (case connect of TunnelFailed t \<Rightarrow> is_wrong_generation t | _ \<Rightarrow> False)
                then WrongGenerationFailure
                else if connect_unauthorized connect then UnauthorizedFailure ctx
                else TransportFailure ctx resolved),
               failure_message = message\<rparr>
      | _ \<Rightarrow> FatalLocalMaterial (startup_error_text error))"

definition is_clean_client_tunnel_close :: "quinn_error \<Rightarrow> bool" where
  "is_clean_client_tunnel_close e =
     (case e of ApplicationClosed c \<Rightarrow> c = 0x100 | ConnectionClosed c \<Rightarrow> c = 0 | _ \<Rightarrow> False)"

definition classify_connection_end :: "quinn_error \<Rightarrow> string \<Rightarrow> connection_end" where
  "classify_connection_end error message =
     (if is_tls_access_denied error then \<lparr>end_kind = UnauthorizedEnd, end_message = Some message\<rparr>
      else if is_clean_client_tunnel_close error then \<lparr>end_kind = CleanEnd, end_message = None\<rparr>
      else \<lparr>end_kind = TransportEnd, end_message = Some message\<rparr>)"

definition report_withdrawal :: "WithdrawalOutcome option \<Rightarrow> string \<Rightarrow> (connection_end, unit) result" where
  "report_withdrawal reported address =
     (case reported of
        Some (WithdrawalFailed failure) \<Rightarrow>
          Inl \<lparr>end_kind = WithdrawalProtocolFailure,
               end_message = Some (''tunnel placement withdrawal failed for '' @ address @ '': '' @
                 protocol_failure_text failure)\<rparr>
      | _ \<Rightarrow> Inr ())"

text \<open>What the connection's run future resolves to.\<close>

definition run_outcome ::
  "string \<Rightarrow> (quinn_error \<Rightarrow> string) \<Rightarrow> (quinn_error, WithdrawalOutcome option) result \<Rightarrow> (connection_end, unit) result" where
  "run_outcome address text r =
     (case r of
        Inr reported \<Rightarrow> report_withdrawal reported address
      | Inl error \<Rightarrow> Inl (classify_connection_end error (text error)))"

record attempt_state =
  connected_once :: bool
  establish_attempts :: nat

definition attempt_state_new :: attempt_state where
  "attempt_state_new = \<lparr>connected_once = False, establish_attempts = 0\<rparr>"

text \<open>
  \<open>connect\<close> is the result of connecting to a resolved address for the expected generation: a
  failure, or the accepted snapshot.
\<close>

definition attempt ::
  "(unit, 's list) result \<Rightarrow> ('s \<Rightarrow> (ClientStartupError, 'u tunnel_event_state) result)
     \<Rightarrow> server_address \<Rightarrow> 'u option \<Rightarrow> attempt_state \<Rightarrow> ('u, 's) attempt_outcome \<times> attempt_state" where
  "attempt resolved connect address expected st =
     (let candidate = (expected \<noteq> None);
          kind = (if candidate then RetryAttempt
                  else client_tunnel_attempt_kind (establish_attempts st = 0));
          st = (if candidate then st else st\<lparr>establish_attempts := establish_attempts st + 1\<rparr>);
          server = display_server_address address;
          ctx = \<lparr>context_phase = client_tunnel_phase (connected_once st), context_kind = kind,
                 context_server = server\<rparr>
      in case resolve_first address resolved of
           Inl error \<Rightarrow>
             (Retryable \<lparr>failure_kind = ResolutionFailure ctx, failure_message = startup_error_text error\<rparr>, st)
         | Inr resolved_server \<Rightarrow>
             (case connect resolved_server of
                Inl error \<Rightarrow> (classify_connect_failure error ctx resolved_server, st)
              | Inr initial \<Rightarrow>
                  (Connected server (hint_of_state initial) (server_generation initial),
                   if candidate then st else st\<lparr>connected_once := True, establish_attempts := 0\<rparr>)))"

section \<open>Properties\<close>

lemma resolve_first_Inr: "resolve_first a resolved = Inr s \<longleftrightarrow> (\<exists>rest. resolved = Inr (s # rest))"
  by (cases resolved) (auto simp: resolve_first_def split: list.splits)

lemma resolve_first_Cons [simp]: "resolve_first a (Inr (s # rest)) = Inr s"
  by (simp add: resolve_first_def)

lemma classify_connect_failure_Connected: "classify_connect_failure error ctx s \<noteq> Connected server h g"
  by (cases error) (simp_all add: classify_connect_failure_def Let_def)

lemma classify_connect_failure_Fatal:
  "classify_connect_failure error ctx s = FatalLocalMaterial message \<longleftrightarrow>
     (\<forall>e. error \<noteq> StartupConnect e) \<and> message = startup_error_text error"
  by (cases error) (auto simp: classify_connect_failure_def Let_def)

lemma attempt_cases:
  obtains (unresolved) error failure where "resolve_first a resolved = Inl error"
      "fst (attempt resolved connect a expected st) = Retryable failure"
  | (failed) s error ctx where "resolve_first a resolved = Inr s" "connect s = Inl error"
      "fst (attempt resolved connect a expected st) = classify_connect_failure error ctx s"
  | (connected) s initial where "resolve_first a resolved = Inr s" "connect s = Inr initial"
      "fst (attempt resolved connect a expected st) =
         Connected (display_server_address a) (hint_of_state initial) (server_generation initial)"
proof (cases "resolve_first a resolved")
  case (Inl error)
  then show ?thesis by (intro unresolved) (simp_all add: attempt_def Let_def)
next
  case (Inr s)
  then show ?thesis
    by (cases "connect s") (auto simp: attempt_def Let_def intro: failed connected)
qed

lemma attempt_candidate_keeps_state: "snd (attempt resolved connect a (Some g) st) = st"
  by (cases "resolve_first a resolved") (simp_all add: attempt_def Let_def split: sum.split)

lemma attempt_fatal:
  "fst (attempt resolved connect a expected st) = FatalLocalMaterial message \<longleftrightarrow>
     (\<exists>s rest error. resolved = Inr (s # rest) \<and> connect s = Inl error \<and>
        (\<forall>e. error \<noteq> StartupConnect e) \<and> message = startup_error_text error)"
  by (cases rule: attempt_cases [of a resolved connect expected st])
    (auto simp: resolve_first_Inr classify_connect_failure_Fatal)

lemma attempt_connected:
  "fst (attempt resolved connect a expected st) = Connected server h g \<longleftrightarrow>
     (\<exists>s rest initial. resolved = Inr (s # rest) \<and> connect s = Inr initial \<and>
        server = display_server_address a \<and> h = hint_of_state initial \<and> g = server_generation initial)"
  by (cases rule: attempt_cases [of a resolved connect expected st])
    (auto simp: resolve_first_Inr classify_connect_failure_Connected)

lemma run_outcome_protocol_failure:
  "run_outcome address text r = Inl e \<Longrightarrow> withdrawal_protocol_failure_message e \<noteq> None \<longleftrightarrow>
     (\<exists>f. r = Inr (Some (WithdrawalFailed f)))"
  by (auto simp: run_outcome_def report_withdrawal_def classify_connection_end_def
      withdrawal_protocol_failure_message_def split: sum.splits option.splits WithdrawalOutcome.splits if_splits)

end
