(* ===== verification/Address_Worker.thy ===== *)
theory Address_Worker
  imports Tunnel_Attempt Address_Controller Reconnect_Policy
begin

text \<open>
  One address worker of the Client (\<open>src/src/client/address_worker.rs\<close>): the dial and reconnect
  loop, and the connected stretch with its primary connection, the candidate that follows the
  replacement hint, and the connection that joined. Each branch of a \<open>select!\<close> is one step; any
  branch that is ready may be taken, since an earlier branch can become ready after it was polled.
  A watch receiver is the channel's value, whether the value is unseen, and whether the sender is
  gone. Log lines are kept as values.
\<close>

record 'b backoff_ops =
  next_delay :: "'b \<Rightarrow> nat \<times> 'b"
  reset_after_connected :: "'b \<Rightarrow> 'b"

text \<open>The production backoff; its \<open>None\<close> branch is the panic the policy never reaches.\<close>

definition policy_ops :: "('r \<Rightarrow> u64 \<times> 'r) \<Rightarrow> 'r reconnect_policy backoff_ops" where
  "policy_ops next_u64 =
     \<lparr>next_delay = (\<lambda>p. case next_retry next_u64 p of None \<Rightarrow> (0, p) | Some (d, q) \<Rightarrow> (delay d, q)),
      reset_after_connected = reset_policy\<rparr>"

section \<open>Active connections and the candidate\<close>

record 'u active_connection =
  active_generation :: 'u
  active_hint :: "'u replacement_hint"
  active_unseen :: bool
  active_closed :: bool
  hints_live :: bool
  seen_interruptions :: nat

definition active_start :: "'u \<Rightarrow> 'u replacement_hint \<Rightarrow> 'u active_connection" where
  "active_start g h =
     \<lparr>active_generation = g, active_hint = h, active_unseen = False, active_closed = False,
      hints_live = True, seen_interruptions = interruptions h\<rparr>"

definition hinted_generation :: "'u active_connection \<Rightarrow> 'u option" where
  "hinted_generation a = hint_generation (active_hint a)"

definition still_hints :: "'u active_connection \<Rightarrow> 'u \<Rightarrow> bool" where
  "still_hints a target =
     (hint_generation (active_hint a) = Some target \<and> \<not> paused (active_hint a) \<and>
      interruptions (active_hint a) = seen_interruptions a)"

datatype 'u candidate = CandidateIdle | Waiting 'u nat bool | Warming 'u

definition candidate_target :: "'u candidate \<Rightarrow> 'u option" where
  "candidate_target c =
     (case c of CandidateIdle \<Rightarrow> None | Waiting target _ _ \<Rightarrow> Some target | Warming target \<Rightarrow> Some target)"

definition candidate_started :: "'u candidate \<Rightarrow> bool" where
  "candidate_started c =
     (case c of CandidateIdle \<Rightarrow> False | Waiting _ _ started \<Rightarrow> started | Warming _ \<Rightarrow> True)"

datatype 'u worker_log =
    CandidateStarting 'u | CandidateJoined 'u | CandidateAborted string | CandidateRejected
  | CandidateFailed string | HandedOver | Retiring

record ('u, 'b) connected_address =
  primary :: "'u active_connection"
  joined :: "'u active_connection option"
  protocol_failure :: "connection_end option"
  candidate :: "'u candidate"
  maintenance_live :: bool
  shutdown_started :: bool
  logged_retiring :: bool
  candidate_backoff :: 'b
  intent :: MaintenanceIntent
  intent_unseen :: bool
  intent_closed :: bool
  orderly_started :: bool
  shutdown_requested :: bool
  worker_log :: "'u worker_log list"
  ended :: "(connection_end, unit) result list"
  run_result :: "(connection_end, unit) result option"

definition log_worker :: "'u worker_log \<Rightarrow> ('u, 'b) connected_address \<Rightarrow> ('u, 'b) connected_address" where
  "log_worker l s = s\<lparr>worker_log := worker_log s @ [l]\<rparr>"

definition abort_candidate :: "string \<Rightarrow> ('u, 'b) connected_address \<Rightarrow> ('u, 'b) connected_address" where
  "abort_candidate reason s =
     (let started = candidate_started (candidate s); s = s\<lparr>candidate := CandidateIdle\<rparr>
      in if started then log_worker (CandidateAborted reason) s else s)"

definition allows_candidates :: "('u, 'b) connected_address \<Rightarrow> bool" where
  "allows_candidates s = (\<not> shutdown_started s \<and> \<not> shutdown_requested s \<and> intent s = Maintain)"

definition wait_toward ::
  "'b backoff_ops \<Rightarrow> 'u \<Rightarrow> bool \<Rightarrow> ('u, 'b) connected_address \<Rightarrow> ('u, 'b) connected_address" where
  "wait_toward ops target started s =
     (let (d, b) = next_delay ops (candidate_backoff s)
      in s\<lparr>candidate := Waiting target d started, candidate_backoff := b\<rparr>)"

definition reset_backoff :: "'b backoff_ops \<Rightarrow> ('u, 'b) connected_address \<Rightarrow> ('u, 'b) connected_address" where
  "reset_backoff ops s = s\<lparr>candidate_backoff := reset_after_connected ops (candidate_backoff s)\<rparr>"

definition reconcile_candidate ::
  "'b backoff_ops \<Rightarrow> bool \<Rightarrow> ('u, 'b) connected_address \<Rightarrow> ('u, 'b) connected_address" where
  "reconcile_candidate ops has_joined s =
     (let hinted = (if allows_candidates s then hinted_generation (primary s) else None)
      in case (candidate_target (candidate s), hinted) of
           (None, None) \<Rightarrow> s
         | (Some _, None) \<Rightarrow> abort_candidate ''hint-withdrawn'' s
         | (current, Some target) \<Rightarrow>
             if current = Some target then s
             else
               let s = (if current \<noteq> None then abort_candidate ''hint-changed'' s else s)
               in if has_joined then s else wait_toward ops target False (reset_backoff ops s))"

definition failure_log :: "'s attempt_failure \<Rightarrow> 'u worker_log" where
  "failure_log f =
     (case unclassified_failure_message f of
        Some message \<Rightarrow> CandidateFailed message
      | None \<Rightarrow> if failure_kind f = WrongGenerationFailure then CandidateRejected
                else CandidateFailed (failure_message f))"

definition settle ::
  "'b backoff_ops \<Rightarrow> ('u, 's) attempt_outcome \<Rightarrow> ('u, 'b) connected_address \<Rightarrow> ('u, 'b) connected_address" where
  "settle ops outcome s =
     (case candidate_target (candidate s) of
        None \<Rightarrow> s
      | Some target \<Rightarrow>
          let s = s\<lparr>candidate := CandidateIdle\<rparr>
          in case outcome of
               Connected server h g \<Rightarrow>
                 if \<not> allows_candidates s then s
                 else if \<not> still_hints (primary s) target then wait_toward ops target True s
                 else (reset_backoff ops (log_worker (CandidateJoined target) s))
                        \<lparr>joined := Some (active_start g h)\<rparr>
             | Retryable failure \<Rightarrow> wait_toward ops target True (log_worker (failure_log failure) s)
             | FatalLocalMaterial message \<Rightarrow>
                 wait_toward ops target True (log_worker (CandidateFailed message) s))"

section \<open>Connection ends\<close>

definition keep_protocol_failure ::
  "(connection_end, unit) result \<Rightarrow> connection_end option \<Rightarrow> connection_end option" where
  "keep_protocol_failure result failure =
     (case (failure, result) of
        (None, Inl e) \<Rightarrow> if withdrawal_protocol_failure_message e \<noteq> None then Some e else None
      | _ \<Rightarrow> failure)"

definition primary_ended ::
  "'b backoff_ops \<Rightarrow> (connection_end, unit) result \<Rightarrow> ('u, 'b) connected_address \<Rightarrow> ('u, 'b) connected_address" where
  "primary_ended ops result s =
     (let s = s\<lparr>ended := ended s @ [result]\<rparr>
      in case joined s of
           None \<Rightarrow>
             (abort_candidate ''primary-lost'' s)
               \<lparr>run_result := Some (case protocol_failure s of None \<Rightarrow> result | Some e \<Rightarrow> Inl e)\<rparr>
         | Some next_active \<Rightarrow>
             let s = s\<lparr>joined := None, protocol_failure := keep_protocol_failure result (protocol_failure s)\<rparr>;
                 s = (if shutdown_started s then s else log_worker HandedOver s)
             in reconcile_candidate ops False (s\<lparr>primary := next_active\<rparr>))"

definition joined_ended ::
  "'b backoff_ops \<Rightarrow> (connection_end, unit) result \<Rightarrow> ('u, 'b) connected_address \<Rightarrow> ('u, 'b) connected_address" where
  "joined_ended ops result s =
     reconcile_candidate ops False
       (s\<lparr>ended := ended s @ [result], joined := None,
          protocol_failure := keep_protocol_failure result (protocol_failure s)\<rparr>)"

section \<open>Signals\<close>

definition shutdown_observed :: "('u, 'b) connected_address \<Rightarrow> ('u, 'b) connected_address" where
  "shutdown_observed s = abort_candidate ''shutdown'' (s\<lparr>shutdown_started := True\<rparr>)"

definition maintenance_changed ::
  "'b backoff_ops \<Rightarrow> ('u, 'b) connected_address \<Rightarrow> ('u, 'b) connected_address" where
  "maintenance_changed ops s =
     (if \<not> intent_unseen s then s\<lparr>maintenance_live := False\<rparr>
      else
        let s = s\<lparr>intent_unseen := False\<rparr>
        in if intent s = Retire then
             abort_candidate ''retiring''
               (if logged_retiring s then s else log_worker Retiring (s\<lparr>logged_retiring := True\<rparr>))
           else reconcile_candidate ops (joined s \<noteq> None) (s\<lparr>logged_retiring := False\<rparr>))"

definition hints_changed ::
  "'b backoff_ops \<Rightarrow> ('u, 'b) connected_address \<Rightarrow> ('u, 'b) connected_address" where
  "hints_changed ops s =
     (if \<not> active_unseen (primary s) then s\<lparr>primary := (primary s)\<lparr>hints_live := False\<rparr>\<rparr>
      else
        let h = active_hint (primary s);
            interrupted = (interruptions h \<noteq> seen_interruptions (primary s));
            s = s\<lparr>primary := (primary s)\<lparr>active_unseen := False, seen_interruptions := interruptions h\<rparr>\<rparr>;
            s = (if interrupted then abort_candidate ''subscription-interrupted'' s else s)
        in reconcile_candidate ops (joined s \<noteq> None) s)"

definition delay_elapsed :: "('u, 'b) connected_address \<Rightarrow> ('u, 'b) connected_address" where
  "delay_elapsed s =
     (case candidate_target (candidate s) of
        None \<Rightarrow> s
      | Some target \<Rightarrow> (log_worker (CandidateStarting target) s)\<lparr>candidate := Warming target\<rparr>)"

section \<open>The connected stretch\<close>

datatype ('u, 's) worker_event =
    PrimaryEnded "(connection_end, unit) result" | JoinedEnded "(connection_end, unit) result"
  | ShutdownObserved | MaintenanceChanged | HintsChanged | DelayElapsed
  | Attempted "('u, 's) attempt_outcome"
  | PrimaryHint "'u replacement_hint" | JoinedHint "'u replacement_hint" | PrimaryHintsClosed
  | JoinedHintsClosed | IntentSent MaintenanceIntent | IntentClosed | ShutdownBegun | ShutdownSent

definition connected_start ::
  "'b backoff_ops \<Rightarrow> MaintenanceIntent \<Rightarrow> bool \<Rightarrow> bool \<Rightarrow> 'b \<Rightarrow> 'u \<Rightarrow> 'u replacement_hint
     \<Rightarrow> ('u, 'b) connected_address" where
  "connected_start ops i begun sent b g h =
     reconcile_candidate ops False
       \<lparr>primary = active_start g h, joined = None, protocol_failure = None, candidate = CandidateIdle,
        maintenance_live = True, shutdown_started = begun, logged_retiring = (i = Retire),
        candidate_backoff = b, intent = i, intent_unseen = False, intent_closed = False,
        orderly_started = begun, shutdown_requested = sent,
        worker_log = (if i = Retire then [Retiring] else []), ended = [], run_result = None\<rparr>"

text \<open>
  What the other side may do: a hint never names the connection's own Server, a candidate that
  connected reached its target, and shutdown starts before it is requested.
\<close>

definition hint_allowed :: "'u \<Rightarrow> 'u replacement_hint \<Rightarrow> bool" where
  "hint_allowed g h = (hint_generation h \<noteq> Some g)"

fun outcome_allowed :: "'u option \<Rightarrow> ('u, 's) attempt_outcome \<Rightarrow> bool" where
  "outcome_allowed target (Connected server h g) = (target = Some g \<and> hint_allowed g h)"
| "outcome_allowed target _ = True"

definition is_warming :: "'u candidate \<Rightarrow> bool" where
  "is_warming c = (case c of Warming _ \<Rightarrow> True | _ \<Rightarrow> False)"

definition is_waiting :: "'u candidate \<Rightarrow> bool" where
  "is_waiting c = (case c of Waiting _ _ _ \<Rightarrow> True | _ \<Rightarrow> False)"

fun ready :: "('u, 's) worker_event \<Rightarrow> ('u, 'b) connected_address \<Rightarrow> bool" where
  "ready (PrimaryEnded r) s = True"
| "ready (JoinedEnded r) s = (joined s \<noteq> None)"
| "ready ShutdownObserved s = (orderly_started s \<and> \<not> shutdown_started s)"
| "ready MaintenanceChanged s = (maintenance_live s \<and> (intent_unseen s \<or> intent_closed s))"
| "ready HintsChanged s = (hints_live (primary s) \<and> (active_unseen (primary s) \<or> active_closed (primary s)))"
| "ready DelayElapsed s = is_waiting (candidate s)"
| "ready (Attempted outcome) s =
     (is_warming (candidate s) \<and> outcome_allowed (candidate_target (candidate s)) outcome)"
| "ready (PrimaryHint h) s = (\<not> active_closed (primary s) \<and> hint_allowed (active_generation (primary s)) h)"
| "ready (JoinedHint h) s =
     (case joined s of None \<Rightarrow> False
      | Some j \<Rightarrow> \<not> active_closed j \<and> hint_allowed (active_generation j) h)"
| "ready PrimaryHintsClosed s = True"
| "ready JoinedHintsClosed s = (joined s \<noteq> None)"
| "ready (IntentSent i) s = (\<not> intent_closed s)"
| "ready IntentClosed s = True"
| "ready ShutdownBegun s = True"
| "ready ShutdownSent s = orderly_started s"

definition hint_published :: "'u replacement_hint \<Rightarrow> 'u active_connection \<Rightarrow> 'u active_connection" where
  "hint_published h a = a\<lparr>active_hint := h, active_unseen := True\<rparr>"

definition hints_closed :: "'u active_connection \<Rightarrow> 'u active_connection" where
  "hints_closed a = a\<lparr>active_closed := True\<rparr>"

fun worker_effect ::
  "'b backoff_ops \<Rightarrow> ('u, 's) worker_event \<Rightarrow> ('u, 'b) connected_address \<Rightarrow> ('u, 'b) connected_address" where
  "worker_effect ops (PrimaryEnded r) s = primary_ended ops r s"
| "worker_effect ops (JoinedEnded r) s = joined_ended ops r s"
| "worker_effect ops ShutdownObserved s = shutdown_observed s"
| "worker_effect ops MaintenanceChanged s = maintenance_changed ops s"
| "worker_effect ops HintsChanged s = hints_changed ops s"
| "worker_effect ops DelayElapsed s = delay_elapsed s"
| "worker_effect ops (Attempted outcome) s = settle ops outcome s"
| "worker_effect ops (PrimaryHint h) s = s\<lparr>primary := hint_published h (primary s)\<rparr>"
| "worker_effect ops (JoinedHint h) s = s\<lparr>joined := map_option (hint_published h) (joined s)\<rparr>"
| "worker_effect ops PrimaryHintsClosed s = s\<lparr>primary := hints_closed (primary s)\<rparr>"
| "worker_effect ops JoinedHintsClosed s = s\<lparr>joined := map_option hints_closed (joined s)\<rparr>"
| "worker_effect ops (IntentSent i) s = s\<lparr>intent := i, intent_unseen := True\<rparr>"
| "worker_effect ops IntentClosed s = s\<lparr>intent_closed := True\<rparr>"
| "worker_effect ops ShutdownBegun s = s\<lparr>orderly_started := True\<rparr>"
| "worker_effect ops ShutdownSent s = s\<lparr>shutdown_requested := True\<rparr>"

definition worker_step ::
  "'b backoff_ops \<Rightarrow> ('u, 's) worker_event \<Rightarrow> ('u, 'b) connected_address \<Rightarrow> ('u, 'b) connected_address option" where
  "worker_step ops e s = (if run_result s = None \<and> ready e s then Some (worker_effect ops e s) else None)"

end
