(* ===== verification/Address_Worker_Properties.thy ===== *)
theory Address_Worker_Properties
  imports Address_Worker
begin

text \<open>
  What a connected address worker keeps under every interleaving of connection ends, hints, intent,
  shutdown and candidate progress. The backoff interface is a locale, interpreted on the production
  reconnect policy.
\<close>

section \<open>Candidates\<close>

definition first_failure :: "(connection_end, unit) result list \<Rightarrow> connection_end option" where
  "first_failure results = fold keep_protocol_failure results None"

definition candidate_ok :: "('u, 'b) connected_address \<Rightarrow> bool" where
  "candidate_ok s =
     ((candidate s \<noteq> CandidateIdle \<longrightarrow>
         joined s = None \<and> \<not> shutdown_started s \<and> (intent s = Maintain \<or> intent_unseen s)) \<and>
      candidate_target (candidate s) \<noteq> Some (active_generation (primary s)))"

definition connections_ok :: "('u, 'b) connected_address \<Rightarrow> bool" where
  "connections_ok s =
     (hint_allowed (active_generation (primary s)) (active_hint (primary s)) \<and>
      (\<forall>j. joined s = Some j \<longrightarrow> hint_allowed (active_generation j) (active_hint j) \<and>
         active_generation j \<noteq> active_generation (primary s)))"

definition result_ok :: "('u, 'b) connected_address \<Rightarrow> bool" where
  "result_ok s =
     (case run_result s of
        None \<Rightarrow> protocol_failure s = first_failure (ended s)
      | Some r \<Rightarrow> candidate s = CandidateIdle \<and> joined s = None \<and> ended s \<noteq> [] \<and>
          r = (case first_failure (butlast (ended s)) of None \<Rightarrow> last (ended s) | Some e \<Rightarrow> Inl e))"

definition worker_inv :: "('u, 'b) connected_address \<Rightarrow> bool" where
  "worker_inv s = (candidate_ok s \<and> connections_ok s \<and> result_ok s)"

lemmas worker_ok_defs = candidate_ok_def connections_ok_def result_ok_def

lemma candidate_target_None [simp]: "candidate_target c = None \<longleftrightarrow> c = CandidateIdle"
  by (cases c) (simp_all add: candidate_target_def)

lemma candidate_target_simps [simp]:
  "candidate_target CandidateIdle = None" "candidate_target (Waiting t d b) = Some t"
  "candidate_target (Warming t) = Some t"
  by (simp_all add: candidate_target_def)

text \<open>The helpers change only the candidate, its backoff and the log.\<close>

lemma log_worker_simps [simp]:
  "primary (log_worker l s) = primary s" "joined (log_worker l s) = joined s"
  "protocol_failure (log_worker l s) = protocol_failure s" "candidate (log_worker l s) = candidate s"
  "shutdown_started (log_worker l s) = shutdown_started s" "intent (log_worker l s) = intent s"
  "intent_unseen (log_worker l s) = intent_unseen s" "ended (log_worker l s) = ended s"
  "shutdown_requested (log_worker l s) = shutdown_requested s"
  "run_result (log_worker l s) = run_result s" "candidate_backoff (log_worker l s) = candidate_backoff s"
  by (simp_all add: log_worker_def)

lemma abort_candidate_simps [simp]:
  "primary (abort_candidate r s) = primary s" "joined (abort_candidate r s) = joined s"
  "protocol_failure (abort_candidate r s) = protocol_failure s"
  "candidate (abort_candidate r s) = CandidateIdle"
  "shutdown_started (abort_candidate r s) = shutdown_started s" "intent (abort_candidate r s) = intent s"
  "intent_unseen (abort_candidate r s) = intent_unseen s" "ended (abort_candidate r s) = ended s"
  "shutdown_requested (abort_candidate r s) = shutdown_requested s"
  "run_result (abort_candidate r s) = run_result s"
  "candidate_backoff (abort_candidate r s) = candidate_backoff s"
  by (simp_all add: abort_candidate_def Let_def)

lemma wait_toward_simps [simp]:
  "primary (wait_toward ops t b s) = primary s" "joined (wait_toward ops t b s) = joined s"
  "protocol_failure (wait_toward ops t b s) = protocol_failure s"
  "candidate (wait_toward ops t b s) = Waiting t (fst (next_delay ops (candidate_backoff s))) b"
  "shutdown_started (wait_toward ops t b s) = shutdown_started s" "intent (wait_toward ops t b s) = intent s"
  "intent_unseen (wait_toward ops t b s) = intent_unseen s" "ended (wait_toward ops t b s) = ended s"
  "shutdown_requested (wait_toward ops t b s) = shutdown_requested s"
  "run_result (wait_toward ops t b s) = run_result s"
  "candidate_backoff (wait_toward ops t b s) = snd (next_delay ops (candidate_backoff s))"
  by (simp_all add: wait_toward_def split_beta)

lemma reset_backoff_simps [simp]:
  "primary (reset_backoff ops s) = primary s" "joined (reset_backoff ops s) = joined s"
  "protocol_failure (reset_backoff ops s) = protocol_failure s"
  "candidate (reset_backoff ops s) = candidate s"
  "shutdown_started (reset_backoff ops s) = shutdown_started s" "intent (reset_backoff ops s) = intent s"
  "intent_unseen (reset_backoff ops s) = intent_unseen s" "ended (reset_backoff ops s) = ended s"
  "shutdown_requested (reset_backoff ops s) = shutdown_requested s"
  "run_result (reset_backoff ops s) = run_result s"
  "candidate_backoff (reset_backoff ops s) = reset_after_connected ops (candidate_backoff s)"
  by (simp_all add: reset_backoff_def)

text \<open>Reconciling: the candidate is dropped, kept, or starts waiting for the hinted target.\<close>

lemma reconcile_cases:
  obtains (kept) "reconcile_candidate ops has_joined s = s"
      "candidate s = CandidateIdle \<or> allows_candidates s \<and> hinted_generation (primary s) = candidate_target (candidate s)"
  | (dropped) reason where "reconcile_candidate ops has_joined s = abort_candidate reason s"
  | (waits) target t where "reconcile_candidate ops has_joined s = wait_toward ops target False (reset_backoff ops t)"
      "t = s \<or> (\<exists>reason. t = abort_candidate reason s)" "\<not> has_joined" "allows_candidates s"
      "hinted_generation (primary s) = Some target"
proof (cases "allows_candidates s \<and> hinted_generation (primary s) \<noteq> None")
  case True
  then obtain target where t: "allows_candidates s" "hinted_generation (primary s) = Some target" by auto
  show ?thesis
  proof (cases "candidate_target (candidate s) = Some target")
    case True
    then show ?thesis using t by (intro kept) (simp_all add: reconcile_candidate_def)
  next
    case False
    let ?t = "if candidate_target (candidate s) \<noteq> None then abort_candidate ''hint-changed'' s else s"
    have eq: "reconcile_candidate ops has_joined s =
        (if has_joined then ?t else wait_toward ops target False (reset_backoff ops ?t))"
      using False t by (simp add: reconcile_candidate_def Let_def split: option.splits)
    show ?thesis
    proof (cases has_joined)
      case True
      show ?thesis
      proof (cases "candidate s = CandidateIdle")
        case True
        with eq \<open>has_joined\<close> show ?thesis by (intro kept) simp_all
      qed (use eq True in \<open>intro dropped; simp\<close>)
    qed (use eq t in \<open>intro waits [of target ?t]; auto\<close>)
  qed
next
  case False
  then have "reconcile_candidate ops has_joined s =
      (if candidate s = CandidateIdle then s else abort_candidate ''hint-withdrawn'' s)"
    by (auto simp: reconcile_candidate_def Let_def split: option.splits)
  then show ?thesis
    by (cases "candidate s = CandidateIdle") (auto intro: kept dropped)
qed

lemma reconcile_frame [simp]:
  "primary (reconcile_candidate ops j s) = primary s" "joined (reconcile_candidate ops j s) = joined s"
  "protocol_failure (reconcile_candidate ops j s) = protocol_failure s"
  "shutdown_started (reconcile_candidate ops j s) = shutdown_started s"
  "intent (reconcile_candidate ops j s) = intent s"
  "intent_unseen (reconcile_candidate ops j s) = intent_unseen s"
  "ended (reconcile_candidate ops j s) = ended s"
  "shutdown_requested (reconcile_candidate ops j s) = shutdown_requested s"
  "run_result (reconcile_candidate ops j s) = run_result s"
  by (cases rule: reconcile_cases [of ops j s]; auto)+

text \<open>Whatever the candidate was, reconciling leaves one that is allowed and not the primary's.\<close>

lemma reconcile_candidate_ok:
  assumes "hint_allowed (active_generation (primary s)) (active_hint (primary s))"
    and "joined s = None \<or> has_joined \<and> candidate s = CandidateIdle"
  shows "candidate_ok (reconcile_candidate ops has_joined s)"
proof (cases rule: reconcile_cases [of ops has_joined s])
  case kept
  with assms show ?thesis
    by (auto simp: candidate_ok_def allows_candidates_def hinted_generation_def hint_allowed_def)
next
  case (waits target t)
  then have "joined s = None" "target \<noteq> active_generation (primary s)"
    using assms by (auto simp: hinted_generation_def hint_allowed_def)
  with waits show ?thesis by (auto simp: candidate_ok_def allows_candidates_def)
qed (use assms in \<open>simp add: candidate_ok_def\<close>)

section \<open>Every step keeps the invariant\<close>

lemma first_failure_snoc: "first_failure (rs @ [r]) = keep_protocol_failure r (first_failure rs)"
  by (simp add: first_failure_def)

lemma primary_ended_inv:
  assumes "worker_inv s" "run_result s = None"
  shows "worker_inv (primary_ended ops r s)"
proof (cases "joined s")
  case None
  with assms show ?thesis
    by (auto simp: worker_inv_def worker_ok_defs primary_ended_def Let_def split: option.splits)
next
  case (Some j)
  with assms have "candidate s = CandidateIdle" "hint_allowed (active_generation j) (active_hint j)"
      "protocol_failure s = first_failure (ended s)"
    by (auto simp: worker_inv_def worker_ok_defs)
  with Some assms(2) show ?thesis
    by (auto simp: worker_inv_def connections_ok_def result_ok_def primary_ended_def Let_def
        first_failure_snoc intro!: reconcile_candidate_ok)
qed

lemma joined_ended_inv:
  assumes "worker_inv s" "run_result s = None"
  shows "worker_inv (joined_ended ops r s)"
  using assms
  by (auto simp: worker_inv_def connections_ok_def result_ok_def joined_ended_def first_failure_snoc
      intro!: reconcile_candidate_ok)

lemma shutdown_observed_inv: "worker_inv s \<Longrightarrow> worker_inv (shutdown_observed s)"
  by (simp add: worker_inv_def worker_ok_defs shutdown_observed_def split: option.splits)

lemma maintenance_changed_inv:
  assumes "worker_inv s" "run_result s = None"
  shows "worker_inv (maintenance_changed ops s)"
proof -
  have "joined s = None \<or> joined s \<noteq> None \<and> candidate s = CandidateIdle"
    using assms(1) by (auto simp: worker_inv_def candidate_ok_def)
  then have "candidate_ok (maintenance_changed ops s)"
    using assms
    by (auto simp: maintenance_changed_def Let_def worker_inv_def connections_ok_def
        intro!: reconcile_candidate_ok) (auto simp: candidate_ok_def)
  with assms show ?thesis
    by (auto simp: worker_inv_def connections_ok_def result_ok_def maintenance_changed_def Let_def)
qed

lemma hints_changed_inv:
  assumes "worker_inv s" "run_result s = None"
  shows "worker_inv (hints_changed ops s)"
proof -
  have "joined s = None \<or> joined s \<noteq> None \<and> candidate s = CandidateIdle"
    using assms(1) by (auto simp: worker_inv_def candidate_ok_def)
  then have "candidate_ok (hints_changed ops s)"
    using assms
    by (auto simp: hints_changed_def Let_def worker_inv_def connections_ok_def
        intro!: reconcile_candidate_ok) (auto simp: candidate_ok_def)
  with assms show ?thesis
    by (auto simp: worker_inv_def connections_ok_def result_ok_def hints_changed_def Let_def)
qed

lemma delay_elapsed_inv:
  assumes "worker_inv s" "run_result s = None"
  shows "worker_inv (delay_elapsed s)"
  using assms by (cases "candidate s") (auto simp: worker_inv_def worker_ok_defs delay_elapsed_def)

lemma settle_inv:
  assumes "worker_inv s" "run_result s = None" "outcome_allowed (candidate_target (candidate s)) outcome"
  shows "worker_inv (settle ops outcome s)"
proof (cases "candidate_target (candidate s)")
  case (Some target)
  then have ok: "joined s = None" "\<not> shutdown_started s" "intent s = Maintain \<or> intent_unseen s"
      "target \<noteq> active_generation (primary s)"
    using assms(1) by (auto simp: worker_inv_def candidate_ok_def)
  with assms Some show ?thesis
    by (cases outcome) (auto simp: worker_inv_def worker_ok_defs settle_def active_start_def Let_def)
qed (use assms in \<open>simp add: settle_def\<close>)

lemma environment_inv:
  assumes "worker_inv s" "run_result s = None"
  shows "hint_allowed (active_generation (primary s)) h \<Longrightarrow> worker_inv (s\<lparr>primary := hint_published h (primary s)\<rparr>)"
    and "joined s = Some j \<Longrightarrow> hint_allowed (active_generation j) h \<Longrightarrow>
      worker_inv (s\<lparr>joined := Some (hint_published h j)\<rparr>)"
    and "worker_inv (s\<lparr>primary := hints_closed (primary s)\<rparr>)"
    and "joined s = Some j \<Longrightarrow> worker_inv (s\<lparr>joined := Some (hints_closed j)\<rparr>)"
    and "worker_inv (s\<lparr>intent := i, intent_unseen := True\<rparr>)"
    and "worker_inv (s\<lparr>intent_closed := True\<rparr>)"
    and "worker_inv (s\<lparr>orderly_started := True\<rparr>)"
    and "worker_inv (s\<lparr>shutdown_requested := True\<rparr>)"
  using assms
  by (simp_all add: worker_inv_def worker_ok_defs hint_published_def hints_closed_def)

lemma worker_step_inv:
  assumes "worker_inv s" "worker_step ops e s = Some t"
  shows "worker_inv t"
proof -
  have e: "run_result s = None" "ready e s" "t = worker_effect ops e s"
    using assms(2) by (auto simp: worker_step_def split: if_splits)
  with assms(1) show ?thesis
    by (cases e)
      (auto simp: primary_ended_inv joined_ended_inv shutdown_observed_inv maintenance_changed_inv
        hints_changed_inv delay_elapsed_inv settle_inv environment_inv split: option.splits)
qed

fun run_worker ::
  "'b backoff_ops \<Rightarrow> ('u, 's) worker_event list \<Rightarrow> ('u, 'b) connected_address \<Rightarrow> ('u, 'b) connected_address option" where
  "run_worker ops [] s = Some s"
| "run_worker ops (e # es) s = Option.bind (worker_step ops e s) (run_worker ops es)"

lemma run_worker_inv: "run_worker ops es s = Some t \<Longrightarrow> worker_inv s \<Longrightarrow> worker_inv t"
  by (induction es arbitrary: s) (auto simp: bind_eq_Some_conv dest: worker_step_inv)

lemma connected_start_inv:
  assumes "hint_allowed g h"
  shows "worker_inv (connected_start ops i begun sent b g h)"
  using assms
  by (auto simp: worker_inv_def connections_ok_def result_ok_def connected_start_def active_start_def
      first_failure_def intro!: reconcile_candidate_ok)

section \<open>Delays\<close>

text \<open>What a worker relies on from its backoff: bounded delays, and short ones after a reset.\<close>

locale worker_backoff =
  fixes ops :: "'b backoff_ops" and ok :: "'b \<Rightarrow> bool" and longest shortest :: nat
  assumes next_ok: "ok b \<Longrightarrow> ok (snd (next_delay ops b)) \<and> fst (next_delay ops b) < longest"
    and reset_ok: "ok b \<Longrightarrow> ok (reset_after_connected ops b)"
    and reset_short: "ok b \<Longrightarrow> fst (next_delay ops (reset_after_connected ops b)) < shortest"
begin

definition delays_ok :: "('u, 'b) connected_address \<Rightarrow> bool" where
  "delays_ok s =
     (ok (candidate_backoff s) \<and>
      (\<forall>t d started. candidate s = Waiting t d started \<longrightarrow>
         d < longest \<and> (\<not> started \<longrightarrow> d < shortest)))"

lemma reconcile_delays:
  assumes "delays_ok s"
  shows "delays_ok (reconcile_candidate ops j s)"
proof (cases rule: reconcile_cases [of ops j s])
  case (waits target t)
  then have "candidate_backoff t = candidate_backoff s" by auto
  with waits assms show ?thesis
    using next_ok reset_ok reset_short by (auto simp: delays_ok_def)
qed (use assms in \<open>auto simp: delays_ok_def\<close>)

lemma settle_delays:
  assumes "delays_ok s"
  shows "delays_ok (settle ops outcome s)"
proof (cases "candidate_target (candidate s)")
  case (Some target)
  with assms next_ok reset_ok show ?thesis
    by (cases outcome) (auto simp: delays_ok_def settle_def Let_def)
qed (use assms in \<open>simp add: settle_def\<close>)

lemma step_delays:
  fixes s t :: "('u, 'b) connected_address"
  assumes "delays_ok s" "worker_step ops e s = Some t"
  shows "delays_ok t"
proof -
  have t: "t = worker_effect ops e s" using assms(2) by (simp add: worker_step_def split: if_splits)
  have same: "delays_ok u" if "candidate u = candidate s \<or> candidate u = CandidateIdle"
      "candidate_backoff u = candidate_backoff s" for u :: "('u, 'b) connected_address"
    using assms(1) that by (auto simp: delays_ok_def)
  have warm: "delays_ok (delay_elapsed s)"
    using assms(1) by (auto simp: delays_ok_def delay_elapsed_def split: option.splits)
  show ?thesis
    unfolding t
    by (cases e)
      (simp_all add: warm settle_delays assms(1) primary_ended_def joined_ended_def shutdown_observed_def
        maintenance_changed_def hints_changed_def Let_def same reconcile_delays split: option.split)
qed

lemma run_delays: "run_worker ops es s = Some t \<Longrightarrow> delays_ok s \<Longrightarrow> delays_ok t"
  by (induction es arbitrary: s) (auto simp: bind_eq_Some_conv dest: step_delays)

lemma start_delays: "ok b \<Longrightarrow> delays_ok (connected_start ops i begun sent b g h)"
  unfolding connected_start_def by (rule reconcile_delays) (simp add: delays_ok_def)

end

lemma policy_next:
  assumes "retry_count p < 10"
  shows "\<exists>d q. next_retry next_u64 p = Some (d, q) \<and> retry_count q < 10 \<and>
    delay d < RETRY_WINDOWS_SECS ! retry_count p * 1000000000"
  using next_retry_ok [OF assms, of next_u64] by (auto simp: decision_ok_def)

interpretation policy_backoff: worker_backoff "policy_ops next_u64" "\<lambda>p. retry_count p < 10"
  "60 * 1000000000" "1000000000" for next_u64
proof unfold_locales
  fix p :: "'a reconnect_policy"
  assume p: "retry_count p < 10"
  from retry_window_bounds [OF p] policy_next [OF p, of next_u64]
  show "retry_count (snd (next_delay (policy_ops next_u64) p)) < 10 \<and>
      fst (next_delay (policy_ops next_u64) p) < 60 * 1000000000"
    by (auto simp: policy_ops_def)
  show "retry_count (reset_after_connected (policy_ops next_u64) p) < 10"
    by (simp add: policy_ops_def reset_policy_def)
  have "retry_count (reset_policy p) < 10" by (simp add: reset_policy_def)
  from policy_next [OF this, of next_u64]
  show "fst (next_delay (policy_ops next_u64) (reset_after_connected (policy_ops next_u64) p)) < 1000000000"
    by (auto simp: policy_ops_def reset_policy_def RETRY_WINDOWS_SECS_def)
qed

section \<open>Joining\<close>

lemma worker_step_joins:
  assumes "worker_step ops e s = Some t" "joined s = None" "joined t = Some j"
  shows "still_hints (primary s) (active_generation j) \<and> allows_candidates s \<and> primary t = primary s \<and>
    candidate t = CandidateIdle"
proof -
  have e: "ready e s" "t = worker_effect ops e s"
    using assms(1) by (auto simp: worker_step_def split: if_splits)
  show ?thesis
  proof (cases e)
    case (Attempted outcome)
    then obtain target where target: "candidate_target (candidate s) = Some target"
      using e(1) by (cases "candidate s") (auto simp: is_warming_def)
    show ?thesis
    proof (cases outcome)
      case (Connected server h g)
      with Attempted target e assms(2,3) show ?thesis
        by (auto simp: settle_def Let_def active_start_def allows_candidates_def split: if_splits)
    qed (use Attempted target e assms(2,3) in \<open>auto simp: settle_def Let_def\<close>)
  qed (use e assms(2,3) in \<open>auto simp: primary_ended_def joined_ended_def shutdown_observed_def
      maintenance_changed_def hints_changed_def delay_elapsed_def Let_def split: if_splits option.splits\<close>)
qed

text \<open>
  C3: Under every interleaving of connection ends, hints, intent, shutdown and candidate progress, a
  connected address worker has candidate work only while a single connection is active, shutdown
  has not been observed and no retirement has been seen; the candidate never aims at the Server
  already connected; it waits less than a minute, and less than a second before its first attempt;
  a connection joins only when the primary's hint, unpaused and from the subscription last seen,
  names its generation at that moment, so two active connections never reach the same Server
  runtime. When the worker's connections have all ended, the result is the first withdrawal
  protocol failure among the earlier ones, or the way the last one ended.
\<close>

theorem candidate_discipline:
  assumes "run_worker (policy_ops next_u64) es
      (connected_start (policy_ops next_u64) i begun sent b g h) = Some s"
    and "hint_generation h \<noteq> Some g" "retry_count b < 10"
  shows "(candidate s \<noteq> CandidateIdle \<longrightarrow> joined s = None \<and> \<not> shutdown_started s \<and>
      (intent s = Maintain \<or> intent_unseen s) \<and>
      candidate_target (candidate s) \<noteq> Some (active_generation (primary s))) \<and>
    (\<forall>target d started. candidate s = Waiting target d started \<longrightarrow>
      d < 60 * 1000000000 \<and> (\<not> started \<longrightarrow> d < 1000000000)) \<and>
    (\<forall>j. joined s = Some j \<longrightarrow> active_generation j \<noteq> active_generation (primary s)) \<and>
    (\<forall>e t j. worker_step (policy_ops next_u64) e s = Some t \<longrightarrow> joined s = None \<longrightarrow> joined t = Some j \<longrightarrow>
      still_hints (primary s) (active_generation j) \<and> allows_candidates s \<and> primary t = primary s) \<and>
    (\<forall>r. run_result s = Some r \<longrightarrow> joined s = None \<and> candidate s = CandidateIdle \<and>
      r = (case first_failure (butlast (ended s)) of None \<Rightarrow> last (ended s) | Some e \<Rightarrow> Inl e))"
proof -
  have inv: "worker_inv s"
    by (rule run_worker_inv [OF assms(1) connected_start_inv]) (simp add: hint_allowed_def assms(2))
  have "policy_backoff.delays_ok s"
    by (rule policy_backoff.run_delays [OF assms(1) policy_backoff.start_delays [OF assms(3)]])
  then have "\<forall>target d started. candidate s = Waiting target d started \<longrightarrow>
      d < 60 * 1000000000 \<and> (\<not> started \<longrightarrow> d < 1000000000)"
    unfolding policy_backoff.delays_ok_def by blast
  moreover have "candidate s \<noteq> CandidateIdle \<longrightarrow> joined s = None \<and> \<not> shutdown_started s \<and>
      (intent s = Maintain \<or> intent_unseen s) \<and>
      candidate_target (candidate s) \<noteq> Some (active_generation (primary s))"
    using inv by (simp add: worker_inv_def candidate_ok_def)
  moreover have "\<forall>j. joined s = Some j \<longrightarrow> active_generation j \<noteq> active_generation (primary s)"
    using inv by (simp add: worker_inv_def connections_ok_def)
  moreover have "\<forall>r. run_result s = Some r \<longrightarrow> joined s = None \<and> candidate s = CandidateIdle \<and>
      r = (case first_failure (butlast (ended s)) of None \<Rightarrow> last (ended s) | Some e \<Rightarrow> Inl e)"
    using inv by (cases "run_result s") (simp_all add: worker_inv_def result_ok_def)
  ultimately show ?thesis using worker_step_joins by blast
qed

definition example_hint :: "bool option \<Rightarrow> bool replacement_hint" where
  "example_hint g = \<lparr>hint_generation = g, interruptions = 0, paused = False\<rparr>"

definition example_ops :: "u64 reconnect_policy backoff_ops" where
  "example_ops = policy_ops (\<lambda>x. (x, x + 1))"

definition example_start :: "(bool, u64 reconnect_policy) connected_address" where
  "example_start =
     connected_start example_ops Maintain False False (new_with_rng 7) False (example_hint (Some True))"

lemmas worker_eval =
  example_start_def example_ops_def connected_start_def reconcile_candidate_def allows_candidates_def
  hinted_generation_def wait_toward_def reset_backoff_def policy_ops_def next_retry_def
  jitter_delay_def display_delay_secs_def to_u64_def new_with_rng_def reset_policy_def
  RETRY_WINDOWS_SECS_def active_start_def example_hint_def worker_step_def is_waiting_def is_warming_def
  delay_elapsed_def settle_def still_hints_def log_worker_def hint_allowed_def

theorem candidate_discipline_witness:
  "\<exists>s j. run_worker example_ops
       [DelayElapsed, Attempted (Connected ''edge'' (example_hint None) True) :: (bool, unit) worker_event] example_start = Some s \<and>
     joined s = Some j \<and> active_generation j \<and> \<not> active_generation (primary s) \<and>
     candidate s = CandidateIdle"
proof -
  let ?es = "[DelayElapsed, Attempted (Connected ''edge'' (example_hint None) True) :: (bool, unit) worker_event]"
  have "\<exists>s. run_worker example_ops ?es example_start = Some s \<and> joined s \<noteq> None"
    by (simp add: worker_eval Let_def)
  then obtain s j where s: "run_worker example_ops ?es example_start = Some s" "joined s = Some j" by auto
  from candidate_discipline [OF s(1) [unfolded example_ops_def example_start_def]]
  have "candidate s = CandidateIdle" "active_generation j \<noteq> active_generation (primary s)"
    using s(2) by (auto simp: example_hint_def new_with_rng_def)
  moreover have "active_generation (primary s) = False" using s(1) by (auto simp: worker_eval Let_def)
  ultimately show ?thesis using s by auto
qed

end
