(* ===== verification/Worker_Loop.thy ===== *)
theory Worker_Loop
  imports Address_Worker_Properties
begin

text \<open>
  The dial and reconnect loop of an address worker (\<open>run_address_worker\<close> and
  \<open>wait_for_retry_delay\<close> of \<open>src/src/client/address_worker.rs\<close>). The worker keeps two receivers of
  the intent channel, one for the loop and one taken anew for each retry delay, and reads the
  current intent between them. The connected stretch is one event, its result; the tracker mark and
  the Client-ready claim are kept with the loop.
\<close>

datatype worker_location =
    LoopHead | Dialing | Connecting | Running | Backing nat | WorkerDone "(string, unit) result"

record 'b worker_loop =
  location :: worker_location
  loop_connected_once :: bool
  loop_backoff :: 'b
  loop_intent :: MaintenanceIntent
  loop_unseen :: bool
  delay_unseen :: bool
  loop_closed :: bool
  loop_shutdown :: bool
  ready_claimable :: bool
  ready_logs :: nat
  marked_connected :: bool

definition worker_loop_new :: "MaintenanceIntent \<Rightarrow> bool \<Rightarrow> bool \<Rightarrow> 'b \<Rightarrow> 'b worker_loop" where
  "worker_loop_new i shutdown claimable b =
     \<lparr>location = LoopHead, loop_connected_once = False, loop_backoff = b, loop_intent = i,
      loop_unseen = False, delay_unseen = False, loop_closed = False, loop_shutdown = shutdown,
      ready_claimable = claimable, ready_logs = 0, marked_connected = False\<rparr>"

definition return_ok :: "'b worker_loop \<Rightarrow> 'b worker_loop" where
  "return_ok w = w\<lparr>location := WorkerDone (Inr ())\<rparr>"

definition back_off :: "'b backoff_ops \<Rightarrow> 'b worker_loop \<Rightarrow> 'b worker_loop" where
  "back_off ops w =
     (let (d, b) = next_delay ops (loop_backoff w)
      in w\<lparr>loop_backoff := b, location := Backing d, delay_unseen := False\<rparr>)"

definition worker_head :: "'b worker_loop \<Rightarrow> 'b worker_loop" where
  "worker_head w =
     (if loop_shutdown w \<or> loop_intent w = Retire then return_ok w else w\<lparr>location := Dialing\<rparr>)"

definition dial_maintenance :: "'b worker_loop \<Rightarrow> 'b worker_loop" where
  "dial_maintenance w =
     (if \<not> loop_unseen w \<or> loop_intent w = Retire then return_ok (w\<lparr>loop_unseen := False\<rparr>)
      else w\<lparr>loop_unseen := False, location := LoopHead\<rparr>)"

definition dial_outcome ::
  "'b backoff_ops \<Rightarrow> ('u, 's) attempt_outcome \<Rightarrow> 'b worker_loop \<Rightarrow> 'b worker_loop" where
  "dial_outcome ops outcome w =
     (if loop_intent w = Retire then return_ok w
      else case outcome of
             Connected _ _ _ \<Rightarrow> w\<lparr>location := Connecting\<rparr>
           | Retryable _ \<Rightarrow> back_off ops w
           | FatalLocalMaterial message \<Rightarrow> w\<lparr>location := WorkerDone (Inl message)\<rparr>)"

text \<open>Recording a connection: the intent is read again before the backoff is reset.\<close>

definition record_connected :: "'b backoff_ops \<Rightarrow> 'b worker_loop \<Rightarrow> 'b worker_loop" where
  "record_connected ops w =
     (let first_connection = \<not> loop_connected_once w;
          w = (if loop_intent w = Retire then w
               else w\<lparr>loop_backoff := reset_after_connected ops (loop_backoff w)\<rparr>);
          w = w\<lparr>loop_connected_once := True\<rparr>;
          w = (if first_connection \<and> ready_claimable w
               then w\<lparr>ready_claimable := False, ready_logs := ready_logs w + 1\<rparr> else w)
      in w\<lparr>marked_connected := True, location := Running\<rparr>)"

definition run_ended :: "'b backoff_ops \<Rightarrow> (connection_end, unit) result \<Rightarrow> 'b worker_loop \<Rightarrow> 'b worker_loop" where
  "run_ended ops result w =
     (let w = w\<lparr>marked_connected := False\<rparr>
      in case (case result of Inl e \<Rightarrow> withdrawal_protocol_failure_message e | Inr _ \<Rightarrow> None) of
           Some message \<Rightarrow> w\<lparr>location := WorkerDone (Inl message)\<rparr>
         | None \<Rightarrow>
             if loop_shutdown w \<or> loop_intent w = Retire then return_ok w
             else (case result of Inr _ \<Rightarrow> return_ok w | Inl _ \<Rightarrow> back_off ops w))"

definition keeps_retrying :: "'b worker_loop \<Rightarrow> 'b worker_loop" where
  "keeps_retrying w =
     (if \<not> loop_shutdown w \<and> loop_intent w \<noteq> Retire then w\<lparr>location := LoopHead\<rparr> else return_ok w)"

definition delay_maintenance :: "'b worker_loop \<Rightarrow> 'b worker_loop" where
  "delay_maintenance w =
     (if \<not> delay_unseen w then return_ok w else keeps_retrying (w\<lparr>delay_unseen := False\<rparr>))"

datatype ('u, 's) loop_event =
    HeadChecked | DialShutdown | DialMaintenance | DialOutcome "('u, 's) attempt_outcome"
  | ConnectionRecorded | RunEnded "(connection_end, unit) result"
  | DelayShutdown | DelayMaintenance | DelayOver
  | LoopIntentSent MaintenanceIntent | LoopIntentClosed | LoopShutdownSent | ReadyClaimedElsewhere

definition is_backing :: "worker_location \<Rightarrow> bool" where
  "is_backing l = (case l of Backing _ \<Rightarrow> True | _ \<Rightarrow> False)"

fun loop_ready :: "('u, 's) loop_event \<Rightarrow> 'b worker_loop \<Rightarrow> bool" where
  "loop_ready HeadChecked w = (location w = LoopHead)"
| "loop_ready DialShutdown w = (location w = Dialing \<and> loop_shutdown w)"
| "loop_ready DialMaintenance w = (location w = Dialing \<and> (loop_unseen w \<or> loop_closed w))"
| "loop_ready (DialOutcome outcome) w = (location w = Dialing)"
| "loop_ready ConnectionRecorded w = (location w = Connecting)"
| "loop_ready (RunEnded result) w = (location w = Running)"
| "loop_ready DelayShutdown w = (is_backing (location w) \<and> loop_shutdown w)"
| "loop_ready DelayMaintenance w = (is_backing (location w) \<and> (delay_unseen w \<or> loop_closed w))"
| "loop_ready DelayOver w = is_backing (location w)"
| "loop_ready (LoopIntentSent i) w = (\<not> loop_closed w)"
| "loop_ready LoopIntentClosed w = True"
| "loop_ready LoopShutdownSent w = True"
| "loop_ready ReadyClaimedElsewhere w = True"

fun loop_effect :: "'b backoff_ops \<Rightarrow> ('u, 's) loop_event \<Rightarrow> 'b worker_loop \<Rightarrow> 'b worker_loop" where
  "loop_effect ops HeadChecked w = worker_head w"
| "loop_effect ops DialShutdown w = return_ok w"
| "loop_effect ops DialMaintenance w = dial_maintenance w"
| "loop_effect ops (DialOutcome outcome) w = dial_outcome ops outcome w"
| "loop_effect ops ConnectionRecorded w = record_connected ops w"
| "loop_effect ops (RunEnded result) w = run_ended ops result w"
| "loop_effect ops DelayShutdown w = return_ok w"
| "loop_effect ops DelayMaintenance w = delay_maintenance w"
| "loop_effect ops DelayOver w = keeps_retrying w"
| "loop_effect ops (LoopIntentSent i) w = w\<lparr>loop_intent := i, loop_unseen := True, delay_unseen := True\<rparr>"
| "loop_effect ops LoopIntentClosed w = w\<lparr>loop_closed := True\<rparr>"
| "loop_effect ops LoopShutdownSent w = w\<lparr>loop_shutdown := True\<rparr>"
| "loop_effect ops ReadyClaimedElsewhere w = w\<lparr>ready_claimable := False\<rparr>"

definition loop_step :: "'b backoff_ops \<Rightarrow> ('u, 's) loop_event \<Rightarrow> 'b worker_loop \<Rightarrow> 'b worker_loop option" where
  "loop_step ops e w = (if loop_ready e w then Some (loop_effect ops e w) else None)"

fun run_loop :: "'b backoff_ops \<Rightarrow> ('u, 's) loop_event list \<Rightarrow> 'b worker_loop \<Rightarrow> 'b worker_loop option" where
  "run_loop ops [] w = Some w"
| "run_loop ops (e # es) w = Option.bind (loop_step ops e w) (run_loop ops es)"

section \<open>Properties\<close>

lemmas loop_defs =
  worker_head_def return_ok_def dial_maintenance_def dial_outcome_def record_connected_def run_ended_def
  keeps_retrying_def delay_maintenance_def back_off_def is_backing_def Let_def

definition loop_inv :: "'b worker_loop \<Rightarrow> bool" where
  "loop_inv w =
     ((marked_connected w \<longleftrightarrow> location w = Running) \<and>
      ready_logs w \<le> 1 \<and> (ready_logs w = 1 \<longrightarrow> loop_connected_once w \<and> \<not> ready_claimable w))"

lemma loop_step_inv: "loop_inv w \<Longrightarrow> loop_step ops e w = Some v \<Longrightarrow> loop_inv v"
  by (cases e)
    (auto simp: loop_step_def loop_inv_def loop_defs split_beta
      split: if_splits attempt_outcome.splits option.splits sum.splits)

lemma run_loop_inv: "run_loop ops es w = Some v \<Longrightarrow> loop_inv w \<Longrightarrow> loop_inv v"
  by (induction es arbitrary: w) (auto simp: bind_eq_Some_conv dest: loop_step_inv)

lemma loop_exits:
  assumes "loop_step ops e w = Some v" "location v = WorkerDone r" "\<forall>q. location w \<noteq> WorkerDone q"
  shows "case r of
      Inl message \<Rightarrow>
        (e = DialOutcome (FatalLocalMaterial message) \<and> loop_intent w = Maintain) \<or>
        (\<exists>c. e = RunEnded (Inl c) \<and> withdrawal_protocol_failure_message c = Some message)
    | Inr _ \<Rightarrow> loop_shutdown w \<or> loop_intent w = Retire \<or> loop_closed w \<or> e = RunEnded (Inr ())"
  using assms
  by (cases e; cases "loop_intent w")
    (auto simp: loop_step_def loop_defs split_beta
      split: if_splits attempt_outcome.splits option.splits sum.splits)

text \<open>A retired or stopped worker returns as soon as it looks.\<close>

lemma loop_stops:
  assumes "loop_shutdown w \<or> loop_intent w = Retire"
  shows "location (worker_head w) = WorkerDone (Inr ())" "location (keeps_retrying w) = WorkerDone (Inr ())"
    and "loop_intent w = Retire \<Longrightarrow> location (dial_outcome ops outcome w) = WorkerDone (Inr ())"
  using assms by (simp_all add: loop_defs)

text \<open>
  C40: Whatever the environment does, an address worker is marked connected exactly while its
  connection runs and claims the Client-ready line at most once. It gives up on its address only
  for a reason: with an error only for fatal local material on a maintained address or a
  withdrawal protocol failure, and quietly only when shutdown was requested, the address is
  retiring, the controller is gone or the connection's own run ended in orderly fashion.
\<close>

theorem worker_gives_up_only_for_reason:
  assumes "run_loop ops es (worker_loop_new i shutdown claimable b) = Some w"
  shows "(marked_connected w \<longleftrightarrow> location w = Running) \<and> ready_logs w \<le> 1 \<and>
    (\<forall>e v r. loop_step ops e w = Some v \<longrightarrow> location v = WorkerDone r \<longrightarrow>
      (\<forall>q. location w \<noteq> WorkerDone q) \<longrightarrow>
      (case r of
         Inl message \<Rightarrow>
           (e = DialOutcome (FatalLocalMaterial message) \<and> loop_intent w = Maintain) \<or>
           (\<exists>c. e = RunEnded (Inl c) \<and> withdrawal_protocol_failure_message c = Some message)
       | Inr _ \<Rightarrow> loop_shutdown w \<or> loop_intent w = Retire \<or> loop_closed w \<or> e = RunEnded (Inr ())))"
proof -
  have "loop_inv w"
    by (rule run_loop_inv [OF assms]) (simp add: loop_inv_def worker_loop_new_def)
  then have "(marked_connected w \<longleftrightarrow> location w = Running) \<and> ready_logs w \<le> 1" by (simp add: loop_inv_def)
  with loop_exits show ?thesis by blast
qed

theorem worker_gives_up_only_for_reason_witness:
  "\<exists>w. run_loop example_ops
       [HeadChecked, DialOutcome (Connected ''edge'' (example_hint None) True :: (bool, unit) attempt_outcome),
        ConnectionRecorded] (worker_loop_new Maintain False True (new_with_rng 7)) = Some w \<and>
     marked_connected w \<and> ready_logs w \<le> 1 \<and> location w = Running"
proof -
  let ?es = "[HeadChecked, DialOutcome (Connected ''edge'' (example_hint None) True :: (bool, unit) attempt_outcome),
      ConnectionRecorded]"
  obtain w where w: "run_loop example_ops ?es (worker_loop_new Maintain False True (new_with_rng 7)) = Some w"
      "location w = Running"
    by (simp add: loop_step_def loop_defs worker_loop_new_def)
  from worker_gives_up_only_for_reason [OF w(1)] w show ?thesis by blast
qed

end
