(* ===== verification/Task_Count.thy ===== *)
theory Task_Count
  imports Main
begin

text \<open>
  Tasks in a finite table, and how many of them hold one unit of a shared counter. Every counter
  of the concurrent components is checked against such a count.
\<close>

definition tagged :: "('t \<Rightarrow> bool) \<Rightarrow> 't option \<Rightarrow> bool" where
  "tagged P x = (case x of None \<Rightarrow> False | Some t \<Rightarrow> P t)"

definition count_where :: "('t \<Rightarrow> bool) \<Rightarrow> ('i \<rightharpoonup> 't) \<Rightarrow> nat" where
  "count_where P m = card {i. tagged P (m i)}"

lemma tagged_simps [simp]: "tagged P None = False" "tagged P (Some t) = P t"
  by (simp_all add: tagged_def)

lemma finite_tagged: "finite (dom m) \<Longrightarrow> finite {i. tagged P (m i)}"
  by (rule finite_subset [of _ "dom m"]) (auto simp: tagged_def split: option.splits)

lemma count_where_upd:
  assumes "finite (dom m)"
  shows "count_where P (m(i := x)) + of_bool (tagged P (m i)) = count_where P m + of_bool (tagged P x)"
proof -
  let ?S = "{j. tagged P (m j)}"
  have "{j. tagged P ((m(i := x)) j)} = (if tagged P x then insert i (?S - {i}) else ?S - {i})" by auto
  moreover have "finite ?S" by (rule finite_tagged [OF assms])
  moreover from this have "card (?S - {i}) + of_bool (tagged P (m i)) = card ?S"
    using card_Suc_Diff1 [of ?S i] by (cases "tagged P (m i)") (simp_all del: card_Diff_insert)
  moreover from \<open>finite ?S\<close> have "card (insert i (?S - {i})) = Suc (card (?S - {i}))"
    by (intro card_insert_disjoint) simp_all
  ultimately show ?thesis by (simp add: count_where_def del: insert_Diff_single)
qed

lemma count_where_add:
  assumes "finite (dom m)" "\<not> tagged P (m i)" "tagged P x"
  shows "count_where P (m(i := x)) = Suc (count_where P m)"
  using count_where_upd [OF assms(1), of P i x] assms(2,3) by simp

lemma count_where_remove:
  assumes "finite (dom m)" "tagged P (m i)" "\<not> tagged P x"
  shows "Suc (count_where P (m(i := x))) = count_where P m"
  using count_where_upd [OF assms(1), of P i x] assms(2,3) by simp

lemma count_where_same:
  assumes "finite (dom m)" "tagged P (m i) \<longleftrightarrow> tagged P x"
  shows "count_where P (m(i := x)) = count_where P m"
  using count_where_upd [OF assms(1), of P i x] assms(2) by simp

lemma count_where_0:
  assumes "finite (dom m)" "count_where P m = 0"
  shows "\<not> tagged P (m i)"
  using assms finite_tagged [OF assms(1), of P] by (auto simp: count_where_def)

lemma count_where_pos:
  assumes "finite (dom m)" "tagged P (m i)"
  shows "0 < count_where P m"
  using count_where_0 [OF assms(1), of P i] assms(2) by auto

lemma count_where_empty [simp]: "count_where P Map.empty = 0"
  by (simp add: count_where_def)

end
