(* ===== verification/Server_Tunnel.thy ===== *)
theory Server_Tunnel
  imports Event_Follower Hostname Task_Count
begin

text \<open>
  The Server side of a Tunnel connection (\<open>src/src/tunnel/server.rs\<close>): request routing and
  intake, and the concurrency of Visitor placement, placement withdrawal, graceful shutdown and the
  post-quiescence close. Every access to a shared watch channel is one step, so a Visitor open is
  several steps that interleave with withdrawal handlers, the accept loop and the close timer.
\<close>

section \<open>Routing\<close>

datatype http_method = CONNECT | GET | PUT | OtherMethod
datatype ext_protocol = WEB_TRANSPORT | OtherProtocol

record signaling_request =
  authority_host :: "string option"
  request_method :: http_method
  request_scheme :: "string option"
  request_path :: string
  request_protocol :: "ext_protocol option"
  content_length_values :: "string list"

definition TUNNEL_EVENTS_PATH :: string where "TUNNEL_EVENTS_PATH = ''/v1/tunnel/events''"
definition TUNNEL_WITHDRAWAL_PATH :: string where "TUNNEL_WITHDRAWAL_PATH = ''/v1/tunnel/withdrawal''"
definition TUNNEL_SESSION_PATH :: string where "TUNNEL_SESSION_PATH = ''/v1/tunnel/session''"

datatype Route =
    EventsRoute | WithdrawalRoute | SessionRoute | StatusRoute nat | MethodNotAllowed string
  | MalformedRoute

text \<open>\<open>Inl ()\<close> is a malformed content length.\<close>

fun content_length_elements :: "nat option \<Rightarrow> string list \<Rightarrow> (unit, nat option) result" where
  "content_length_elements declared [] = Inr declared"
| "content_length_elements declared (element # elements) =
     (let element = trim element
      in if element = [] \<or> \<not> list_all is_ascii_digit element then Inl ()
         else case from_str_radix 10 (2 ^ 64 - 1) element of
                None \<Rightarrow> Inl ()
              | Some len \<Rightarrow>
                  if pred_option (\<lambda>d. d \<noteq> len) declared \<and> declared \<noteq> None then Inl ()
                  else content_length_elements (Some len) elements)"

fun content_length_lines :: "nat option \<Rightarrow> string list \<Rightarrow> (unit, nat option) result" where
  "content_length_lines declared [] = Inr declared"
| "content_length_lines declared (value # values) =
     (if \<not> visible_ascii value then Inl ()
      else and_then (content_length_elements declared (split_on (CHR '','') value))
             (\<lambda>declared. content_length_lines declared values))"

definition declared_content_length :: "signaling_request \<Rightarrow> (unit, nat option) result" where
  "declared_content_length r = content_length_lines None (content_length_values r)"

definition route_resource :: "signaling_request \<Rightarrow> Route \<Rightarrow> Route" where
  "route_resource r resource =
     (case declared_content_length r of
        Inl _ \<Rightarrow> MalformedRoute
      | Inr declared \<Rightarrow>
          if (case declared of None \<Rightarrow> False | Some len \<Rightarrow> 0 < len) then StatusRoute 400 else resource)"

definition route :: "signaling_request \<Rightarrow> string \<Rightarrow> Route" where
  "route r server_hostname =
     (let authority_matches =
            (case authority_host r of None \<Rightarrow> False
             | Some host \<Rightarrow> validate_public_hostname host = Inr server_hostname)
      in if \<not> authority_matches then StatusRoute 421
         else if request_method r = CONNECT then
           (case request_protocol r of
              None \<Rightarrow> StatusRoute 400
            | Some WEB_TRANSPORT \<Rightarrow>
                if request_scheme r \<noteq> Some ''https'' then StatusRoute 400
                else if request_path r \<noteq> TUNNEL_SESSION_PATH then StatusRoute 404
                else SessionRoute
            | Some OtherProtocol \<Rightarrow> StatusRoute 400)
         else if request_scheme r \<noteq> Some ''https'' then StatusRoute 400
         else if request_path r = TUNNEL_EVENTS_PATH then
           if request_method r \<noteq> GET then MethodNotAllowed ''GET'' else route_resource r EventsRoute
         else if request_path r = TUNNEL_WITHDRAWAL_PATH then
           if request_method r \<noteq> PUT then MethodNotAllowed ''PUT'' else route_resource r WithdrawalRoute
         else StatusRoute 404)"

section \<open>Intake\<close>

datatype BodylessRequest = Complete | Content | Trailers

text \<open>\<open>None\<close> while more of the request is awaited.\<close>

fun read_bodyless_request ::
  "received_data list \<Rightarrow> (stream_error, bool) result \<Rightarrow> (stream_error, BodylessRequest) result option" where
  "read_bodyless_request [] trailers = None"
| "read_bodyless_request (Inl e # data) trailers = Some (Inl e)"
| "read_bodyless_request (Inr (Some chunk) # data) trailers =
     (if chunk \<noteq> [] then Some (Inr Content) else read_bodyless_request data trailers)"
| "read_bodyless_request (Inr None # data) trailers =
     Some (and_then trailers (\<lambda>present. Inr (if present then Trailers else Complete)))"

datatype request_action =
    RejectUnprocessed | ServeEvents | AcceptSession | ServeWithdrawal | Respond nat "string option"
  | RejectWithdrawal nat | ResetMalformed | NoAction

text \<open>The intake result is \<open>None\<close> when the request deadline passed first.\<close>

definition after_intake ::
  "signaling_request \<Rightarrow> (stream_error, BodylessRequest) result option \<Rightarrow> request_action
     \<Rightarrow> (nat \<Rightarrow> request_action) \<Rightarrow> request_action" where
  "after_intake r intake serve refuse =
     (let zero = (case declared_content_length r of Inr (Some len) \<Rightarrow> len = 0 | _ \<Rightarrow> False)
      in case intake of
           Some (Inr Complete) \<Rightarrow> serve
         | Some (Inr Content) \<Rightarrow> if zero then ResetMalformed else refuse 400
         | Some (Inr Trailers) \<Rightarrow> refuse 400
         | Some (Inl _) \<Rightarrow> NoAction
         | None \<Rightarrow> refuse 408)"

definition handle_request ::
  "bool \<Rightarrow> signaling_request \<Rightarrow> string \<Rightarrow> (stream_error, BodylessRequest) result option \<Rightarrow> request_action" where
  "handle_request admitted r server_hostname intake =
     (if \<not> admitted then RejectUnprocessed
      else case route r server_hostname of
             EventsRoute \<Rightarrow> after_intake r intake ServeEvents (\<lambda>status. Respond status None)
           | SessionRoute \<Rightarrow> AcceptSession
           | WithdrawalRoute \<Rightarrow> after_intake r intake ServeWithdrawal RejectWithdrawal
           | StatusRoute status \<Rightarrow> Respond status None
           | MethodNotAllowed allow \<Rightarrow> Respond 405 (Some allow)
           | MalformedRoute \<Rightarrow> ResetMalformed)"

section \<open>Placement, withdrawal and shutdown\<close>

text \<open>
  A Visitor open, between two accesses to shared state: it passed the first check; it is counted
  as a request; it is counted as Visitor work and waits for session and credit; its stream opened;
  it read no GOAWAY; it committed; it dropped its stream; it dropped its request count.
\<close>

datatype open_task =
    OpenChecked | OpenRequest | OpenCounted | OpenStreamed | OpenPastGoaway | OpenCommitted
  | OpenEnding | OpenDropped

text \<open>
  A request: being resolved or served, and whether it was admitted; a valid withdrawal, then its waiter registered, committed and
  waiting for quiescence, answering, answered, and with its waiter dropped.
\<close>

datatype request_task =
    ServingRequest bool | WithdrawalValid | WaiterRegistered | AwaitingQuiet | Answering | Answered | WaiterDropped

datatype closer_location = AwaitWithdrawn | AwaitNoWork | AwaitAnswer | CloseTimer | CloseFired

record server_tunnel =
  goaway :: bool
  withdrawn :: bool
  confirmed :: bool
  tunnel_closed :: bool
  session_open :: bool
  shutting_down :: bool
  drain_sent :: bool
  requests_in_flight :: nat
  visitor_work :: nat
  withdrawal_waiters :: nat
  underflow :: bool
  closer :: closer_location
  opens :: "nat \<rightharpoonup> open_task"
  requests :: "nat \<rightharpoonup> request_task"

definition server_tunnel_new :: server_tunnel where
  "server_tunnel_new =
     \<lparr>goaway = False, withdrawn = False, confirmed = False, tunnel_closed = False,
      session_open = False, shutting_down = False, drain_sent = False, requests_in_flight = 0,
      visitor_work = 0, withdrawal_waiters = 0, underflow = False, closer = AwaitWithdrawn,
      opens = Map.empty, requests = Map.empty\<rparr>"

definition accepts_visitors :: "server_tunnel \<Rightarrow> bool" where
  "accepts_visitors s = (\<not> withdrawn s \<and> \<not> goaway s \<and> \<not> tunnel_closed s)"

definition set_open :: "nat \<Rightarrow> open_task option \<Rightarrow> server_tunnel \<Rightarrow> server_tunnel" where
  "set_open i t s = s\<lparr>opens := (opens s)(i := t)\<rparr>"

definition set_request :: "nat \<Rightarrow> request_task option \<Rightarrow> server_tunnel \<Rightarrow> server_tunnel" where
  "set_request i t s = s\<lparr>requests := (requests s)(i := t)\<rparr>"

text \<open>Counting down from zero is the panic of the source's checked subtraction.\<close>

definition drop_request :: "server_tunnel \<Rightarrow> server_tunnel" where
  "drop_request s =
     s\<lparr>requests_in_flight := requests_in_flight s - 1, underflow := (underflow s \<or> requests_in_flight s = 0)\<rparr>"

definition drop_visitor :: "server_tunnel \<Rightarrow> server_tunnel" where
  "drop_visitor s = s\<lparr>visitor_work := visitor_work s - 1, underflow := (underflow s \<or> visitor_work s = 0)\<rparr>"

definition drop_waiter :: "server_tunnel \<Rightarrow> server_tunnel" where
  "drop_waiter s =
     s\<lparr>withdrawal_waiters := withdrawal_waiters s - 1, underflow := (underflow s \<or> withdrawal_waiters s = 0)\<rparr>"

datatype tunnel_event =
    OpenStarts nat | CountRequest nat | CountVisitor nat | StreamOpens nat | ReadsGoaway nat
  | Commits nat | OpenFails nat | StreamEnds nat | DropsRequest nat | DropsVisitor nat
  | RequestAccepted nat | RequestEnds nat | WithdrawalValidated nat | RegistersWaiter nat
  | CommitsWithdrawal nat | SeesQuiescence nat | SendsAnswer nat bool | DropsWaiter nat
  | SessionEstablished | ShutdownBegins | DrainSends
  | CloserSeesWithdrawn | CloserSeesNoWork | CloserSeesAnswer | CloserFires | ConnectionEnds

fun tunnel_enabled :: "tunnel_event \<Rightarrow> server_tunnel \<Rightarrow> bool" where
  "tunnel_enabled (OpenStarts i) s = (opens s i = None \<and> accepts_visitors s)"
| "tunnel_enabled (CountRequest i) s = (opens s i = Some OpenChecked)"
| "tunnel_enabled (CountVisitor i) s = (opens s i = Some OpenRequest)"
| "tunnel_enabled (StreamOpens i) s = (opens s i = Some OpenCounted \<and> session_open s)"
| "tunnel_enabled (ReadsGoaway i) s = (opens s i = Some OpenStreamed)"
| "tunnel_enabled (Commits i) s = (opens s i = Some OpenPastGoaway)"
| "tunnel_enabled (OpenFails i) s =
     tagged (\<lambda>t. t \<in> {OpenCounted, OpenStreamed, OpenPastGoaway}) (opens s i)"
| "tunnel_enabled (StreamEnds i) s = (opens s i = Some OpenCommitted)"
| "tunnel_enabled (DropsRequest i) s = (opens s i = Some OpenEnding)"
| "tunnel_enabled (DropsVisitor i) s = (opens s i = Some OpenDropped)"
| "tunnel_enabled (RequestAccepted i) s = (requests s i = None)"
| "tunnel_enabled (RequestEnds i) s = tagged (\<lambda>t. t \<in> {ServingRequest True, ServingRequest False, WaiterDropped}) (requests s i)"
| "tunnel_enabled (WithdrawalValidated i) s = (requests s i = Some (ServingRequest True))"
| "tunnel_enabled (RegistersWaiter i) s = (requests s i = Some WithdrawalValid)"
| "tunnel_enabled (CommitsWithdrawal i) s = (requests s i = Some WaiterRegistered)"
| "tunnel_enabled (SeesQuiescence i) s = (requests s i = Some AwaitingQuiet \<and> visitor_work s = 0)"
| "tunnel_enabled (SendsAnswer i completed) s = (requests s i = Some Answering)"
| "tunnel_enabled (DropsWaiter i) s = (requests s i = Some Answered)"
| "tunnel_enabled SessionEstablished s = True"
| "tunnel_enabled ShutdownBegins s = (\<not> shutting_down s)"
| "tunnel_enabled DrainSends s = (shutting_down s \<and> \<not> drain_sent s \<and> requests_in_flight s = 0)"
| "tunnel_enabled CloserSeesWithdrawn s = (closer s = AwaitWithdrawn \<and> withdrawn s)"
| "tunnel_enabled CloserSeesNoWork s = (closer s = AwaitNoWork \<and> visitor_work s = 0)"
| "tunnel_enabled CloserSeesAnswer s = (closer s = AwaitAnswer \<and> (confirmed s \<or> withdrawal_waiters s = 0))"
| "tunnel_enabled CloserFires s = (closer s = CloseTimer)"
| "tunnel_enabled ConnectionEnds s = True"

fun tunnel_effect :: "tunnel_event \<Rightarrow> server_tunnel \<Rightarrow> server_tunnel" where
  "tunnel_effect (OpenStarts i) s = set_open i (Some OpenChecked) s"
| "tunnel_effect (CountRequest i) s =
     set_open i (Some OpenRequest) (s\<lparr>requests_in_flight := requests_in_flight s + 1\<rparr>)"
| "tunnel_effect (CountVisitor i) s =
     set_open i (Some OpenCounted) (s\<lparr>visitor_work := visitor_work s + 1\<rparr>)"
| "tunnel_effect (StreamOpens i) s = set_open i (Some OpenStreamed) s"
| "tunnel_effect (ReadsGoaway i) s = set_open i (Some (if goaway s then OpenEnding else OpenPastGoaway)) s"
| "tunnel_effect (Commits i) s = set_open i (Some (if withdrawn s then OpenEnding else OpenCommitted)) s"
| "tunnel_effect (OpenFails i) s = set_open i (Some OpenEnding) s"
| "tunnel_effect (StreamEnds i) s = set_open i (Some OpenEnding) s"
| "tunnel_effect (DropsRequest i) s = set_open i (Some OpenDropped) (drop_request s)"
| "tunnel_effect (DropsVisitor i) s = set_open i None (drop_visitor s)"
| "tunnel_effect (RequestAccepted i) s =
     set_request i (Some (ServingRequest (\<not> shutting_down s))) (s\<lparr>requests_in_flight := requests_in_flight s + 1\<rparr>)"
| "tunnel_effect (RequestEnds i) s = set_request i None (drop_request s)"
| "tunnel_effect (WithdrawalValidated i) s = set_request i (Some WithdrawalValid) s"
| "tunnel_effect (RegistersWaiter i) s =
     set_request i (Some WaiterRegistered) (s\<lparr>withdrawal_waiters := withdrawal_waiters s + 1\<rparr>)"
| "tunnel_effect (CommitsWithdrawal i) s = set_request i (Some AwaitingQuiet) (s\<lparr>withdrawn := True\<rparr>)"
| "tunnel_effect (SeesQuiescence i) s = set_request i (Some Answering) s"
| "tunnel_effect (SendsAnswer i completed) s =
     set_request i (Some Answered) (s\<lparr>confirmed := (confirmed s \<or> completed)\<rparr>)"
| "tunnel_effect (DropsWaiter i) s = set_request i (Some WaiterDropped) (drop_waiter s)"
| "tunnel_effect SessionEstablished s = s\<lparr>session_open := True\<rparr>"
| "tunnel_effect ShutdownBegins s = s\<lparr>shutting_down := True, goaway := True\<rparr>"
| "tunnel_effect DrainSends s = s\<lparr>drain_sent := True, tunnel_closed := (tunnel_closed s \<or> \<not> session_open s)\<rparr>"
| "tunnel_effect CloserSeesWithdrawn s = s\<lparr>closer := AwaitNoWork\<rparr>"
| "tunnel_effect CloserSeesNoWork s = s\<lparr>closer := AwaitAnswer\<rparr>"
| "tunnel_effect CloserSeesAnswer s = s\<lparr>closer := CloseTimer\<rparr>"
| "tunnel_effect CloserFires s = s\<lparr>closer := CloseFired, tunnel_closed := True\<rparr>"
| "tunnel_effect ConnectionEnds s = s\<lparr>tunnel_closed := True\<rparr>"

inductive tunnel_reachable :: "server_tunnel \<Rightarrow> server_tunnel \<Rightarrow> bool" where
  tunnel_refl: "tunnel_reachable s s"
| tunnel_next: "tunnel_reachable s t \<Longrightarrow> tunnel_enabled e t \<Longrightarrow> tunnel_reachable s (tunnel_effect e t)"

end
