(* ===== verification/Server_Tunnel_Properties.thy ===== *)
theory Server_Tunnel_Properties
  imports Server_Tunnel
begin

text \<open>
  Withdrawal and shutdown of a Server Tunnel under every interleaving: the shared counters are the
  numbers of tasks that hold them, and quiescence, once answered or drained, is final.
\<close>

fun holds_request :: "open_task \<Rightarrow> bool" where
  "holds_request OpenChecked = False"
| "holds_request OpenDropped = False"
| "holds_request _ = True"

fun holds_visitor :: "open_task \<Rightarrow> bool" where
  "holds_visitor OpenChecked = False"
| "holds_visitor OpenRequest = False"
| "holds_visitor _ = True"

fun holds_waiter :: "request_task \<Rightarrow> bool" where
  "holds_waiter (ServingRequest admitted) = False"
| "holds_waiter WithdrawalValid = False"
| "holds_waiter WaiterDropped = False"
| "holds_waiter _ = True"

fun saw_quiescence :: "request_task \<Rightarrow> bool" where
  "saw_quiescence Answering = True"
| "saw_quiescence Answered = True"
| "saw_quiescence WaiterDropped = True"
| "saw_quiescence _ = False"

definition counts_exact :: "server_tunnel \<Rightarrow> bool" where
  "counts_exact s =
     (finite (dom (opens s)) \<and> finite (dom (requests s)) \<and> \<not> underflow s \<and>
      requests_in_flight s = count_where holds_request (opens s) + count_where (\<lambda>_. True) (requests s) \<and>
      visitor_work s = count_where holds_visitor (opens s) \<and>
      withdrawal_waiters s = count_where holds_waiter (requests s))"

text \<open>Quiescence was established: an answer is due or sent, or the close timer is past its waits.\<close>

definition quiesced :: "server_tunnel \<Rightarrow> bool" where
  "quiesced s =
     (confirmed s \<or> closer s \<in> {AwaitAnswer, CloseTimer, CloseFired} \<or>
      (\<exists>i. tagged saw_quiescence (requests s i)))"

definition order_ok :: "server_tunnel \<Rightarrow> bool" where
  "order_ok s =
     ((shutting_down s \<longleftrightarrow> goaway s) \<and>
      (\<forall>i. requests s i = Some AwaitingQuiet \<longrightarrow> withdrawn s) \<and>
      (closer s \<noteq> AwaitWithdrawn \<longrightarrow> withdrawn s) \<and>
      (quiesced s \<longrightarrow> withdrawn s \<and> (\<forall>i. opens s i \<noteq> Some OpenCommitted)) \<and>
      (drain_sent s \<longrightarrow> goaway s \<and>
         (\<forall>i. opens s i \<noteq> Some OpenCommitted \<and> opens s i \<noteq> Some OpenPastGoaway)))"

section \<open>Counters\<close>

lemmas tunnel_update_defs =
  set_open_def set_request_def drop_request_def drop_visitor_def drop_waiter_def

lemma move_open_counts:
  assumes "counts_exact s" "opens s i = Some t"
    and "holds_request t \<longleftrightarrow> holds_request u" "holds_visitor t \<longleftrightarrow> holds_visitor u"
  shows "counts_exact (set_open i (Some u) s)"
  using assms by (simp add: counts_exact_def set_open_def count_where_same)

lemma move_request_counts:
  assumes "counts_exact s" "requests s i = Some t" "holds_waiter t \<longleftrightarrow> holds_waiter u"
  shows "counts_exact (set_request i (Some u) s)"
  using assms by (simp add: counts_exact_def set_request_def count_where_same)

lemma open_counts:
  assumes "counts_exact s"
  shows "opens s i = None \<Longrightarrow> counts_exact (set_open i (Some OpenChecked) s)"
    and "opens s i = Some OpenChecked \<Longrightarrow>
      counts_exact (set_open i (Some OpenRequest) (s\<lparr>requests_in_flight := Suc (requests_in_flight s)\<rparr>))"
    and "opens s i = Some OpenRequest \<Longrightarrow>
      counts_exact (set_open i (Some OpenCounted) (s\<lparr>visitor_work := Suc (visitor_work s)\<rparr>))"
  using assms by (simp_all add: counts_exact_def set_open_def count_where_same count_where_add)

lemma drop_open_counts:
  assumes "counts_exact s" "opens s i = Some OpenEnding"
  shows "counts_exact (set_open i (Some OpenDropped) (drop_request s))"
proof -
  have fin: "finite (dom (opens s))" using assms(1) by (simp add: counts_exact_def)
  have "Suc (count_where holds_request ((opens s)(i \<mapsto> OpenDropped))) = count_where holds_request (opens s)"
    by (rule count_where_remove [OF fin]) (simp_all add: assms(2))
  moreover have "count_where holds_visitor ((opens s)(i \<mapsto> OpenDropped)) = count_where holds_visitor (opens s)"
    by (rule count_where_same [OF fin]) (simp add: assms(2))
  ultimately show ?thesis using assms(1) by (auto simp: counts_exact_def tunnel_update_defs)
qed

lemma drop_visitor_counts:
  assumes "counts_exact s" "opens s i = Some OpenDropped"
  shows "counts_exact (set_open i None (drop_visitor s))"
proof -
  have fin: "finite (dom (opens s))" using assms(1) by (simp add: counts_exact_def)
  have "Suc (count_where holds_visitor ((opens s)(i := None))) = count_where holds_visitor (opens s)"
    by (rule count_where_remove [OF fin]) (simp_all add: assms(2))
  moreover have "count_where holds_request ((opens s)(i := None)) = count_where holds_request (opens s)"
    by (rule count_where_same [OF fin]) (simp add: assms(2))
  ultimately show ?thesis using assms(1) by (auto simp: counts_exact_def tunnel_update_defs)
qed

lemma request_counts:
  assumes "counts_exact s"
  shows "requests s i = None \<Longrightarrow> counts_exact
      (set_request i (Some (ServingRequest b)) (s\<lparr>requests_in_flight := Suc (requests_in_flight s)\<rparr>))"
    and "requests s i = Some WithdrawalValid \<Longrightarrow> counts_exact
      (set_request i (Some WaiterRegistered) (s\<lparr>withdrawal_waiters := Suc (withdrawal_waiters s)\<rparr>))"
  using assms by (simp_all add: counts_exact_def set_request_def count_where_same count_where_add)

lemma end_request_counts:
  assumes "counts_exact s" "requests s i = Some t" "\<not> holds_waiter t"
  shows "counts_exact (set_request i None (drop_request s))"
proof -
  have fin: "finite (dom (requests s))" using assms(1) by (simp add: counts_exact_def)
  have "Suc (count_where (\<lambda>_. True) ((requests s)(i := None))) = count_where (\<lambda>_. True) (requests s)"
    by (rule count_where_remove [OF fin]) (simp_all add: assms(2))
  moreover have "count_where holds_waiter ((requests s)(i := None)) = count_where holds_waiter (requests s)"
    by (rule count_where_same [OF fin]) (simp add: assms(2,3))
  ultimately show ?thesis using assms(1) by (auto simp: counts_exact_def tunnel_update_defs)
qed

lemma drop_waiter_counts:
  assumes "counts_exact s" "requests s i = Some Answered"
  shows "counts_exact (set_request i (Some WaiterDropped) (drop_waiter s))"
proof -
  have fin: "finite (dom (requests s))" using assms(1) by (simp add: counts_exact_def)
  have "Suc (count_where holds_waiter ((requests s)(i \<mapsto> WaiterDropped))) = count_where holds_waiter (requests s)"
    by (rule count_where_remove [OF fin]) (simp_all add: assms(2))
  moreover have "count_where (\<lambda>_. True) ((requests s)(i \<mapsto> WaiterDropped)) = count_where (\<lambda>_. True) (requests s)"
    by (rule count_where_same [OF fin]) (simp add: assms(2))
  ultimately show ?thesis using assms(1) by (auto simp: counts_exact_def tunnel_update_defs)
qed

lemma flag_counts:
  assumes "counts_exact s"
  shows "counts_exact (s\<lparr>withdrawn := a\<rparr>)" "counts_exact (s\<lparr>confirmed := a\<rparr>)"
    "counts_exact (s\<lparr>session_open := a\<rparr>)" "counts_exact (s\<lparr>shutting_down := a, goaway := b\<rparr>)"
    "counts_exact (s\<lparr>drain_sent := a, tunnel_closed := b\<rparr>)" "counts_exact (s\<lparr>closer := c\<rparr>)"
    "counts_exact (s\<lparr>closer := c, tunnel_closed := a\<rparr>)" "counts_exact (s\<lparr>tunnel_closed := a\<rparr>)"
  using assms by (simp_all add: counts_exact_def)

lemma tunnel_step_counts:
  assumes "counts_exact s" "tunnel_enabled e s"
  shows "counts_exact (tunnel_effect e s)"
proof (cases e)
  case (OpenFails i)
  then obtain t where "opens s i = Some t" "t \<in> {OpenCounted, OpenStreamed, OpenPastGoaway}"
    using assms(2) by (auto simp: tagged_def split: option.splits)
  then show ?thesis using OpenFails assms(1) by (auto intro: move_open_counts)
next
  case (RequestEnds i)
  then obtain t where "requests s i = Some t" "t \<in> {ServingRequest True, ServingRequest False, WaiterDropped}"
    using assms(2) by (auto simp: tagged_def split: option.splits)
  then show ?thesis using RequestEnds assms(1) by (auto intro: end_request_counts)
next
  case (CommitsWithdrawal i)
  then show ?thesis
    using assms by (auto intro!: move_request_counts [of _ _ WaiterRegistered] flag_counts)
next
  case (SendsAnswer i c)
  then show ?thesis using assms by (auto intro!: move_request_counts [of _ _ Answering] flag_counts)
qed (use assms in \<open>auto intro: open_counts drop_open_counts drop_visitor_counts request_counts
      drop_waiter_counts move_open_counts move_request_counts simp: flag_counts\<close>)

section \<open>Order\<close>

lemma no_visitor_work:
  assumes "counts_exact s" "visitor_work s = 0"
  shows "opens s i \<noteq> Some OpenCommitted"
  using assms count_where_0 [of "opens s" holds_visitor i] by (auto simp: counts_exact_def)

lemma no_requests:
  assumes "counts_exact s" "requests_in_flight s = 0"
  shows "opens s i \<noteq> Some OpenCommitted \<and> opens s i \<noteq> Some OpenPastGoaway"
  using assms count_where_0 [of "opens s" holds_request i] by (auto simp: counts_exact_def)

lemma withdrawn_step: "withdrawn s \<Longrightarrow> withdrawn (tunnel_effect e s)"
  by (cases e) (simp_all add: tunnel_update_defs)

lemma quiesced_step:
  assumes "tunnel_enabled e s" "quiesced (tunnel_effect e s)"
  shows "quiesced s \<or> visitor_work s = 0 \<and> (e = CloserSeesNoWork \<or> (\<exists>i. e = SeesQuiescence i))"
proof -
  have "quiesced s" if "e = SendsAnswer i c \<or> e = DropsWaiter i" for i c
  proof -
    have "tagged saw_quiescence (requests s i)" using that assms(1) by auto
    then show ?thesis by (auto simp: quiesced_def)
  qed
  then show ?thesis
    using assms by (cases e) (auto simp: quiesced_def tunnel_update_defs split: if_splits)
qed

lemma committed_step:
  assumes "tunnel_enabled e s" "opens (tunnel_effect e s) i = Some OpenCommitted"
  shows "opens s i = Some OpenCommitted \<or> opens s i = Some OpenPastGoaway \<and> \<not> withdrawn s"
  using assms by (cases e) (auto simp: tunnel_update_defs split: if_splits)

lemma past_goaway_step:
  assumes "tunnel_enabled e s" "opens (tunnel_effect e s) i = Some OpenPastGoaway"
  shows "opens s i = Some OpenPastGoaway \<or> \<not> goaway s"
  using assms by (cases e) (auto simp: tunnel_update_defs split: if_splits)

lemma drained_step:
  assumes "tunnel_enabled e s" "drain_sent (tunnel_effect e s)"
  shows "drain_sent s \<or> shutting_down s \<and> requests_in_flight s = 0 \<and> e = DrainSends"
  using assms by (cases e) (auto simp: tunnel_update_defs)

lemma goaway_step: "goaway s \<Longrightarrow> goaway (tunnel_effect e s)"
  by (cases e) (simp_all add: tunnel_update_defs)

lemma awaiting_step:
  assumes "tunnel_enabled e s" "requests (tunnel_effect e s) i = Some AwaitingQuiet"
  shows "requests s i = Some AwaitingQuiet \<or> withdrawn (tunnel_effect e s)"
  using assms by (cases e) (auto simp: tunnel_update_defs split: if_splits)

lemma closer_step:
  assumes "tunnel_enabled e s" "closer (tunnel_effect e s) \<noteq> AwaitWithdrawn"
  shows "closer s \<noteq> AwaitWithdrawn \<or> withdrawn s"
  using assms by (cases e) (auto simp: tunnel_update_defs)

lemma shutting_step:
  "(shutting_down s \<longleftrightarrow> goaway s) \<Longrightarrow> shutting_down (tunnel_effect e s) \<longleftrightarrow> goaway (tunnel_effect e s)"
  by (cases e) (simp_all add: tunnel_update_defs)

lemma quiescence_withdrawn:
  assumes "order_ok s" "tunnel_enabled e s" "e = CloserSeesNoWork \<or> (\<exists>i. e = SeesQuiescence i)"
  shows "withdrawn s"
  using assms by (auto simp: order_ok_def)

lemma tunnel_step_order:
  assumes "counts_exact s" "order_ok s" "tunnel_enabled e s"
  shows "order_ok (tunnel_effect e s)"
proof -
  let ?t = "tunnel_effect e s"
  have w: "quiesced s \<Longrightarrow> withdrawn s" using assms(2) by (simp add: order_ok_def)
  have quiet: "withdrawn s \<and> (\<forall>i. opens s i \<noteq> Some OpenCommitted)" if "quiesced ?t"
    using quiesced_step [OF assms(3) that] assms(2) no_visitor_work [OF assms(1)]
      quiescence_withdrawn [OF assms(2,3)] by (auto simp: order_ok_def)
  have "withdrawn ?t \<and> (\<forall>i. opens ?t i \<noteq> Some OpenCommitted)" if "quiesced ?t"
    using quiet [OF that] committed_step [OF assms(3)] withdrawn_step by blast
  moreover have drained: "goaway s \<and> (\<forall>i. opens s i \<noteq> Some OpenCommitted \<and> opens s i \<noteq> Some OpenPastGoaway)"
    if "drain_sent ?t"
    using drained_step [OF assms(3) that] assms(2) no_requests [OF assms(1)] by (auto simp: order_ok_def)
  then have "goaway ?t \<and> (\<forall>i. opens ?t i \<noteq> Some OpenCommitted \<and> opens ?t i \<noteq> Some OpenPastGoaway)"
    if "drain_sent ?t"
    using that committed_step [OF assms(3)] past_goaway_step [OF assms(3)] goaway_step by blast
  moreover have "withdrawn ?t" if "requests ?t i = Some AwaitingQuiet" for i
    using awaiting_step [OF assms(3) that] assms(2) withdrawn_step by (auto simp: order_ok_def)
  moreover have "withdrawn ?t" if "closer ?t \<noteq> AwaitWithdrawn"
    using closer_step [OF assms(3) that] assms(2) withdrawn_step by (auto simp: order_ok_def)
  moreover have "shutting_down ?t \<longleftrightarrow> goaway ?t"
    using shutting_step assms(2) by (simp add: order_ok_def)
  ultimately show ?thesis unfolding order_ok_def by blast
qed

lemma tunnel_reachable_inv:
  "tunnel_reachable s t \<Longrightarrow> counts_exact s \<Longrightarrow> order_ok s \<Longrightarrow> counts_exact t \<and> order_ok t"
  by (induction rule: tunnel_reachable.induct) (auto intro: tunnel_step_counts tunnel_step_order)

lemma tunnel_new_inv: "counts_exact server_tunnel_new \<and> order_ok server_tunnel_new"
  by (simp add: counts_exact_def order_ok_def quiesced_def server_tunnel_new_def)

section \<open>Finality\<close>

text \<open>Once placement is withdrawn no further Visitor commits, and a drained Tunnel commits none.\<close>

lemma committed_before_withdrawal:
  assumes "tunnel_reachable s t" "withdrawn s"
  shows "withdrawn t \<and> (opens t i = Some OpenCommitted \<longrightarrow> opens s i = Some OpenCommitted)"
  using assms
  by (induction rule: tunnel_reachable.induct) (auto dest: committed_step intro: withdrawn_step)

lemma drained_stays:
  assumes "tunnel_reachable s t" "drain_sent s" "counts_exact s" "order_ok s"
  shows "drain_sent t"
  using assms
proof (induction rule: tunnel_reachable.induct)
  case (tunnel_next s t e)
  then show ?case by (cases e) (simp_all add: tunnel_update_defs)
qed simp

lemma tunnel_reachable_trans:
  "tunnel_reachable s t \<Longrightarrow> tunnel_reachable t u \<Longrightarrow> tunnel_reachable s u"
  by (rotate_tac 1, induction rule: tunnel_reachable.induct) (auto intro: tunnel_next)


fun run_tunnel :: "tunnel_event list \<Rightarrow> server_tunnel \<Rightarrow> server_tunnel option" where
  "run_tunnel [] s = Some s"
| "run_tunnel (e # es) s = (if tunnel_enabled e s then run_tunnel es (tunnel_effect e s) else None)"

lemma run_tunnel_reachable:
  assumes "run_tunnel es t = Some u" "tunnel_reachable s t"
  shows "tunnel_reachable s u"
  using assms by (induction es arbitrary: t) (auto intro: tunnel_next split: if_splits)


section \<open>Routing\<close>

lemma content_length_elements_Inr:
  "content_length_elements declared elements = Inr result \<longleftrightarrow>
     (\<forall>e\<in>set elements. trim e \<noteq> [] \<and> list_all is_ascii_digit (trim e) \<and>
        (\<exists>n. from_str_radix 10 (2 ^ 64 - 1) (trim e) = Some n \<and> result = Some n)) \<and>
     (declared = result \<or> declared = None \<and> elements \<noteq> [])"
  by (induction declared elements rule: content_length_elements.induct)
    (auto simp: Let_def split: option.splits)

lemma route_resource_exact:
  "resource \<notin> {MalformedRoute, StatusRoute 400} \<Longrightarrow>
   route_resource r resource = resource \<longleftrightarrow> declared_content_length r \<in> {Inr None, Inr (Some 0)}"
  by (auto simp: route_resource_def split: sum.splits option.splits if_splits)

lemma route_withdrawal:
  "route r host = WithdrawalRoute \<longleftrightarrow>
     (\<exists>a. authority_host r = Some a \<and> validate_public_hostname a = Inr host) \<and>
     request_method r = PUT \<and> request_scheme r = Some ''https'' \<and>
     request_path r = TUNNEL_WITHDRAWAL_PATH \<and> declared_content_length r \<in> {Inr None, Inr (Some 0)}"
proof -
  have "TUNNEL_WITHDRAWAL_PATH \<noteq> TUNNEL_EVENTS_PATH"
    by (simp add: TUNNEL_WITHDRAWAL_PATH_def TUNNEL_EVENTS_PATH_def)
  moreover have "route_resource r EventsRoute \<noteq> WithdrawalRoute"
    by (simp add: route_resource_def split: sum.splits)
  ultimately show ?thesis
    using route_resource_exact [of WithdrawalRoute r]
    by (auto simp: route_def Let_def split: option.splits ext_protocol.splits)
qed

text \<open>
  A withdrawal commits only for an admitted, bodyless PUT of the withdrawal resource on this
  Server's hostname whose request ended in time; any other intake leaves placement as it was.
\<close>

lemma serve_withdrawal_exact:
  "handle_request admitted r host intake = ServeWithdrawal \<longleftrightarrow>
     admitted \<and> route r host = WithdrawalRoute \<and> intake = Some (Inr Complete)"
  by (auto simp: handle_request_def after_intake_def Let_def
      split: Route.splits option.splits sum.splits BodylessRequest.splits)

end
