(* ===== verification/Visitor_Credit.thy ===== *)
theory Visitor_Credit
  imports Prelude
begin

text \<open>
  Permit-backed Visitor credit on the Client (\<open>src/src/tunnel/credit.rs\<close> and the session task of
  \<open>src/src/tunnel/client.rs\<close>). All Tunnel connections of a Client share one semaphore; its
  contract, a permit is taken only when one is available and returned when dropped, is the count
  \<open>available\<close>. Each operation under a connection's lock is one step. A QUIC stream limit is the last
  value given to \<open>set_max_concurrent_bi_streams\<close>.
\<close>

definition MAX_IDLE_VISITOR_CREDIT :: nat where
  "MAX_IDLE_VISITOR_CREDIT = 256"

text \<open>
  Beside the fields of the source: \<open>wants\<close> is the session loop's \<open>needs_idle\<close> of the current round
  and \<open>in_hand\<close> the permits it acquired and has not offered yet; \<open>leases\<close> are the Visitor permits
  whose stream halves are not both dropped, \<open>dropping\<close> those that lowered the limit and \<open>releasing\<close>
  those that also left \<open>active\<close>.
\<close>

record visitor_credits =
  idle :: nat
  held :: nat
  maintaining :: bool
  credit_closed :: bool
  active_streams :: nat
  idle_stopped :: bool
  stream_limit :: nat
  credit_underflow :: bool
  wants :: bool
  in_hand :: nat
  leases :: nat
  dropping :: nat
  releasing :: nat

definition visitor_credits_new :: visitor_credits where
  "visitor_credits_new =
     \<lparr>idle = 0, held = 0, maintaining = True, credit_closed = False, active_streams = 0,
      idle_stopped = False, stream_limit = 0, credit_underflow = False, wants = False, in_hand = 0,
      leases = 0, dropping = 0, releasing = 0\<rparr>"

definition set_limit :: "visitor_credits \<Rightarrow> visitor_credits" where
  "set_limit c = c\<lparr>stream_limit := held c\<rparr>"

definition needs_idle :: "visitor_credits \<Rightarrow> bool" where
  "needs_idle c = (maintaining c \<and> idle c < MAX_IDLE_VISITOR_CREDIT)"

text \<open>The operations on one connection, with the permits available before and after.\<close>

definition acquire_permit :: "nat \<Rightarrow> visitor_credits \<Rightarrow> nat \<times> visitor_credits" where
  "acquire_permit available c = (available - 1, c\<lparr>in_hand := in_hand c + 1, wants := False\<rparr>)"

definition offer :: "nat \<Rightarrow> visitor_credits \<Rightarrow> nat \<times> visitor_credits" where
  "offer available c =
     (let c = c\<lparr>in_hand := in_hand c - 1\<rparr>
      in if \<not> maintaining c then (available + 1, c)
         else (available, set_limit (c\<lparr>idle := idle c + 1, held := held c + 1\<rparr>)))"

definition lease :: "visitor_credits \<Rightarrow> visitor_credits" where
  "lease c = c\<lparr>leases := leases c + 1, active_streams := active_streams c + 1\<rparr>"

definition assign :: "nat \<Rightarrow> visitor_credits \<Rightarrow> bool \<times> nat \<times> visitor_credits" where
  "assign available c =
     (if credit_closed c then (False, available, c)
      else if 0 < idle c then (True, available, lease (c\<lparr>idle := idle c - 1\<rparr>))
      else if 0 < available then (True, available - 1, lease (set_limit (c\<lparr>held := held c + 1\<rparr>)))
      else (False, available, c))"

definition before_drop :: "visitor_credits \<Rightarrow> visitor_credits" where
  "before_drop c =
     set_limit (c\<lparr>leases := leases c - 1, dropping := dropping c + 1, held := held c - 1,
                  credit_underflow := (credit_underflow c \<or> held c = 0)\<rparr>)"

definition drop_active :: "visitor_credits \<Rightarrow> visitor_credits" where
  "drop_active c =
     c\<lparr>dropping := dropping c - 1, releasing := releasing c + 1, active_streams := active_streams c - 1,
       credit_underflow := (credit_underflow c \<or> active_streams c = 0)\<rparr>"

definition release_permit :: "nat \<Rightarrow> visitor_credits \<Rightarrow> nat \<times> visitor_credits" where
  "release_permit available c = (available + 1, c\<lparr>releasing := releasing c - 1\<rparr>)"

definition stop_replenishing :: "visitor_credits \<Rightarrow> visitor_credits" where
  "stop_replenishing c = c\<lparr>maintaining := False, idle_stopped := True\<rparr>"

definition release_idle :: "nat \<Rightarrow> visitor_credits \<Rightarrow> nat \<times> visitor_credits" where
  "release_idle available c =
     (let c = c\<lparr>maintaining := False, held := held c - idle c,
                credit_underflow := (credit_underflow c \<or> held c < idle c)\<rparr>;
          c = set_limit c
      in (available + idle c, c\<lparr>idle := 0, idle_stopped := True\<rparr>))"

definition stop_idle :: "nat \<Rightarrow> visitor_credits \<Rightarrow> nat \<times> visitor_credits" where
  "stop_idle available c = release_idle available c"

definition close_credits :: "nat \<Rightarrow> visitor_credits \<Rightarrow> nat \<times> visitor_credits" where
  "close_credits available c = release_idle available (c\<lparr>credit_closed := True\<rparr>)"

section \<open>Connections that share a budget\<close>

record credit_pool =
  available :: nat
  connections :: "visitor_credits list"

definition credit_pool_new :: "nat \<Rightarrow> credit_pool" where
  "credit_pool_new budget = \<lparr>available = budget, connections = []\<rparr>"

datatype credit_event =
    ConnectionStarts | LoopHead | AcquirePermit | OfferPermit | AssignStream | BeforeDrop
  | DropActive | ReleasePermit | StopReplenishing | StopIdle | CloseCredits

fun credit_enabled :: "credit_event \<Rightarrow> nat \<Rightarrow> visitor_credits \<Rightarrow> bool" where
  "credit_enabled LoopHead n c = (in_hand c = 0)"
| "credit_enabled AcquirePermit n c = (wants c \<and> in_hand c = 0 \<and> 0 < n)"
| "credit_enabled OfferPermit n c = (0 < in_hand c)"
| "credit_enabled BeforeDrop n c = (0 < leases c)"
| "credit_enabled DropActive n c = (0 < dropping c)"
| "credit_enabled ReleasePermit n c = (0 < releasing c)"
| "credit_enabled e n c = True"

fun credit_effect :: "credit_event \<Rightarrow> nat \<Rightarrow> visitor_credits \<Rightarrow> nat \<times> visitor_credits" where
  "credit_effect LoopHead n c = (n, c\<lparr>wants := needs_idle c\<rparr>)"
| "credit_effect AcquirePermit n c = acquire_permit n c"
| "credit_effect OfferPermit n c = offer n c"
| "credit_effect AssignStream n c = snd (assign n c)"
| "credit_effect BeforeDrop n c = (n, before_drop c)"
| "credit_effect DropActive n c = (n, drop_active c)"
| "credit_effect ReleasePermit n c = release_permit n c"
| "credit_effect StopReplenishing n c = (n, stop_replenishing c)"
| "credit_effect StopIdle n c = stop_idle n c"
| "credit_effect CloseCredits n c = close_credits n c"
| "credit_effect ConnectionStarts n c = (n, c)"

inductive credit_step :: "credit_pool \<Rightarrow> credit_pool \<Rightarrow> bool" where
  starts: "credit_step p (p\<lparr>connections := connections p @ [visitor_credits_new]\<rparr>)"
| moves: "i < length (connections p) \<Longrightarrow> credit_enabled e (available p) (connections p ! i) \<Longrightarrow>
     credit_effect e (available p) (connections p ! i) = (n, c) \<Longrightarrow>
     credit_step p \<lparr>available = n, connections = (connections p)[i := c]\<rparr>"

inductive credit_reachable :: "nat \<Rightarrow> credit_pool \<Rightarrow> bool" where
  initial: "credit_reachable budget (credit_pool_new budget)"
| step: "credit_reachable budget p \<Longrightarrow> credit_step p q \<Longrightarrow> credit_reachable budget q"

section \<open>Invariant\<close>

definition permits :: "visitor_credits \<Rightarrow> nat" where
  "permits c = in_hand c + idle c + leases c + dropping c + releasing c"

definition credit_ok :: "visitor_credits \<Rightarrow> bool" where
  "credit_ok c =
     (held c = idle c + leases c \<and> stream_limit c = held c \<and> active_streams c = leases c + dropping c \<and>
      \<not> credit_underflow c \<and> idle c \<le> MAX_IDLE_VISITOR_CREDIT \<and>
      (wants c \<or> 0 < in_hand c \<longrightarrow> idle c < MAX_IDLE_VISITOR_CREDIT) \<and> in_hand c \<le> 1 \<and>
      (wants c \<longrightarrow> in_hand c = 0) \<and> (credit_closed c \<longrightarrow> \<not> maintaining c \<and> idle c = 0))"

lemmas credit_defs =
  acquire_permit_def offer_def lease_def assign_def before_drop_def drop_active_def release_permit_def
  stop_replenishing_def release_idle_def stop_idle_def close_credits_def set_limit_def needs_idle_def
  Let_def

text \<open>Each operation keeps the connection consistent and accounts for every permit.\<close>

definition accounted :: "nat \<times> visitor_credits \<Rightarrow> nat \<times> visitor_credits \<Rightarrow> bool" where
  "accounted before after =
     (credit_ok (snd after) \<and> fst after + permits (snd after) = fst before + permits (snd before))"

lemma acquire_permit_ok:
  "credit_ok c \<Longrightarrow> wants c \<Longrightarrow> in_hand c = 0 \<Longrightarrow> 0 < n \<Longrightarrow> accounted (n, c) (acquire_permit n c)"
  by (simp add: accounted_def credit_ok_def permits_def acquire_permit_def)

lemma offer_ok: "credit_ok c \<Longrightarrow> 0 < in_hand c \<Longrightarrow> accounted (n, c) (offer n c)"
  by (auto simp: accounted_def credit_ok_def permits_def offer_def set_limit_def Let_def)

lemma assign_ok: "credit_ok c \<Longrightarrow> accounted (n, c) (snd (assign n c))"
  by (simp add: accounted_def credit_ok_def permits_def assign_def set_limit_def lease_def) linarith

lemma before_drop_ok: "credit_ok c \<Longrightarrow> 0 < leases c \<Longrightarrow> accounted (n, c) (n, before_drop c)"
  by (simp add: accounted_def credit_ok_def permits_def before_drop_def set_limit_def)

lemma drop_active_ok: "credit_ok c \<Longrightarrow> 0 < dropping c \<Longrightarrow> accounted (n, c) (n, drop_active c)"
  by (simp add: accounted_def credit_ok_def permits_def drop_active_def)

lemma release_permit_ok: "credit_ok c \<Longrightarrow> 0 < releasing c \<Longrightarrow> accounted (n, c) (release_permit n c)"
  by (simp add: accounted_def credit_ok_def permits_def release_permit_def)

lemma stop_replenishing_ok: "credit_ok c \<Longrightarrow> accounted (n, c) (n, stop_replenishing c)"
  by (simp add: accounted_def credit_ok_def permits_def stop_replenishing_def)

lemma release_idle_ok: "credit_ok c \<Longrightarrow> accounted (n, c) (release_idle n (c\<lparr>credit_closed := b\<rparr>))"
  by (auto simp: accounted_def credit_ok_def permits_def release_idle_def set_limit_def Let_def
      MAX_IDLE_VISITOR_CREDIT_def)

lemma wants_ok: "credit_ok c \<Longrightarrow> in_hand c = 0 \<Longrightarrow> accounted (n, c) (n, c\<lparr>wants := needs_idle c\<rparr>)"
  by (auto simp: accounted_def credit_ok_def permits_def needs_idle_def)

lemma credit_effect_ok:
  assumes "credit_ok c" "credit_enabled e n c"
  shows "accounted (n, c) (credit_effect e n c)"
proof (cases e)
  case StopIdle
  then show ?thesis using release_idle_ok [OF assms(1), of n "credit_closed c"] by (simp add: stop_idle_def)
next
  case CloseCredits
  then show ?thesis using release_idle_ok [OF assms(1), of n True] by (simp add: close_credits_def)
next
  case ConnectionStarts
  then show ?thesis using assms(1) by (simp add: accounted_def)
qed (use assms in \<open>simp_all add: acquire_permit_ok offer_ok assign_ok before_drop_ok drop_active_ok
      release_permit_ok stop_replenishing_ok wants_ok\<close>)

lemma sum_permits_update:
  "i < length cs \<Longrightarrow> sum_list (map permits (cs[i := d])) + permits (cs ! i) = sum_list (map permits cs) + permits d"
proof (induction cs arbitrary: i)
  case (Cons a cs)
  then show ?case by (cases i) auto
qed simp

definition pool_ok :: "nat \<Rightarrow> credit_pool \<Rightarrow> bool" where
  "pool_ok budget p =
     (available p + sum_list (map permits (connections p)) = budget \<and> list_all credit_ok (connections p))"

lemma credit_step_ok:
  assumes "pool_ok budget p" "credit_step p q"
  shows "pool_ok budget q"
  using assms(2)
proof cases
  case starts
  then show ?thesis
    using assms(1) by (simp add: pool_ok_def permits_def credit_ok_def visitor_credits_new_def)
next
  case (moves i e n c)
  let ?d = "connections p ! i"
  have d: "credit_ok ?d" using assms(1) moves(2) by (simp add: pool_ok_def list_all_length)
  have c: "n + permits c = available p + permits ?d" "credit_ok c"
    using credit_effect_ok [OF d moves(3)] moves(4) by (simp_all add: accounted_def)
  from c(1) sum_permits_update [OF moves(2), of c] assms(1)
  have "n + sum_list (map permits ((connections p)[i := c])) = budget" by (simp add: pool_ok_def)
  moreover have "list_all credit_ok ((connections p)[i := c])"
    using c(2) assms(1) set_update_subset_insert [of "connections p" i c]
    by (auto simp: pool_ok_def list_all_iff)
  ultimately show ?thesis using moves(1) by (simp add: pool_ok_def)
qed

lemma credit_reachable_ok: "credit_reachable budget p \<Longrightarrow> pool_ok budget p"
proof (induction rule: credit_reachable.induct)
  case (initial budget)
  show ?case by (simp add: pool_ok_def credit_pool_new_def)
qed (rule credit_step_ok)

lemma sum_limits_permits: "list_all credit_ok cs \<Longrightarrow> sum_list (map stream_limit cs) \<le> sum_list (map permits cs)"
  by (induction cs) (auto simp: credit_ok_def permits_def)


text \<open>Two connections of a Client whose budget is two: one leases its only idle permit.\<close>

definition credit_apply :: "nat \<times> credit_event \<Rightarrow> credit_pool \<Rightarrow> credit_pool option" where
  "credit_apply x p =
     (let (i, e) = x
      in if e = ConnectionStarts then Some (p\<lparr>connections := connections p @ [visitor_credits_new]\<rparr>)
         else if i < length (connections p) \<and> credit_enabled e (available p) (connections p ! i)
         then let (n, c) = credit_effect e (available p) (connections p ! i)
              in Some \<lparr>available = n, connections = (connections p)[i := c]\<rparr>
         else None)"

fun credit_run :: "(nat \<times> credit_event) list \<Rightarrow> credit_pool \<Rightarrow> credit_pool option" where
  "credit_run [] p = Some p"
| "credit_run (x # xs) p = Option.bind (credit_apply x p) (credit_run xs)"

lemma credit_apply_step:
  assumes "credit_apply x p = Some q"
  shows "credit_step p q"
proof -
  obtain i e where x: "x = (i, e)" by (cases x)
  show ?thesis
  proof (cases "e = ConnectionStarts")
    case True
    with assms x show ?thesis using credit_step.starts [of p] by (simp add: credit_apply_def)
  next
    case False
    obtain n c where "credit_effect e (available p) (connections p ! i) = (n, c)" by fastforce
    with assms x False show ?thesis
      using credit_step.moves [of i p e n c] by (auto simp: credit_apply_def split: if_splits)
  qed
qed

lemma credit_run_reachable:
  "credit_run es p = Some q \<Longrightarrow> credit_reachable budget p \<Longrightarrow> credit_reachable budget q"
proof (induction es arbitrary: p)
  case (Cons x es)
  then obtain r where r: "credit_apply x p = Some r" "credit_run es r = Some q"
    by (auto simp: bind_eq_Some_conv)
  show ?case
    by (rule Cons.IH [OF r(2) credit_reachable.step [OF Cons.prems(2) credit_apply_step [OF r(1)]]])
qed simp


end
