(* ===== verification/Spec2Isabelle.thy ===== *)
theory Spec2Isabelle
  imports End_To_End Server_Loop Fd_Capacity Managed_Session_Properties
    Address_Controller_Properties Worker_Loop Server_Tunnel_Properties Visitor_Credit
begin

text \<open>
  Runewarp publishes services behind a Client through a public Server. A Visitor opens a TLS
  connection to the Server; the Server reads the ClientHello, finds the Tunnel authorized for its
  hostname, selects one of the Tunnel's connections and relays the bytes over a WebTransport stream
  to a Client, which forwards them to a backend. Clients keep one or two QUIC connections per
  Server address. Both roles can be managed: a control service sends snapshots over server-sent
  events and the runtime reports what it applied. The sources are under \<open>src/src/\<close>.

  \<^bold>\<open>Conventions.\<close> Fallible code returns \<open>('e, 'a) result\<close>, \<open>Inl\<close> the error; strings are
  lists of bytes; durations and instants are natural numbers; counters that wrap are 64-bit words;
  a panic or an \<open>unreachable!\<close> is a value of its own, shown unreachable. Concurrent code is a step
  relation whose steps are the accesses to shared state (a lock held, an atomic operation, a watch
  channel read or written), so theorems quantify over every interleaving. Third-party code is a
  parameter: semaphores, the TLS parser, the \<open>uuid\<close> and \<open>serde_json\<close> packages and the random
  generator come in as operations whose documented laws are named hypotheses, and calls into QUIC
  and HTTP/3 are events that carry their results.

  \<^bold>\<open>Foundations.\<close> \<open>Prelude\<close> holds results, text helpers and the locales of text formats.
  \<open>Counter_Map\<close> and \<open>Task_Count\<close> relate shared counters to the holders counted by them.
  \<open>Ip_Address\<close>, \<open>Byte_Stream\<close>, \<open>Hostname\<close> (\<open>hostname.rs\<close>), \<open>Addresses\<close> (\<open>server_address.rs\<close>,
  \<open>control_address.rs\<close>, \<open>opaque_control_token.rs\<close>, \<open>tunnel_id.rs\<close>) and \<open>Identity\<close>
  (\<open>identity.rs\<close>, \<open>server_identity.rs\<close>) are the shared values: what is accepted, and that printed
  values parse back.

  \<^bold>\<open>Visitor edge.\<close> \<open>Proxy_Protocol\<close> (\<open>proxy_protocol.rs\<close>) and \<open>Client_Hello\<close> (\<open>client_hello.rs\<close>,
  \<open>tunnel_framing.rs\<close>): soundness, bounds on what is buffered, and round trips.

  \<^bold>\<open>Server placement.\<close> \<open>Authorization\<close> (\<open>server/authorization.rs\<close>), \<open>Admission\<close>
  (\<open>server/admission.rs\<close>), \<open>Active_Client\<close> (\<open>server/active_client.rs\<close>) and \<open>Tunnel_Registry\<close>
  (\<open>server/tunnel_registry.rs\<close>) with \<open>Registry_Invariants\<close>, \<open>Registry_Safety\<close> and
  \<open>Registry_Properties\<close>: authorization maps are exact, limits hold, selection is fair, and under
  every interleaving of registration, replacement, selection and drain the registry keeps only
  authorized work, exact counts and no panic. \<open>Fd_Capacity\<close> sizes the pools.

  \<^bold>\<open>Tunnel connections.\<close> \<open>Sse\<close> (\<open>sse.rs\<close>), \<open>Tunnel_Events\<close> (\<open>tunnel/events.rs\<close>) and
  \<open>Event_Follower\<close> (both ends of the event stream in \<open>tunnel/server.rs\<close> and \<open>tunnel/client.rs\<close>)
  show that the Client ends up with the Server's current snapshot however the stream is cut, and
  that its replacement hint follows the subscription. \<open>Server_Tunnel\<close> and
  \<open>Server_Tunnel_Properties\<close> (\<open>tunnel/server.rs\<close>) cover routing, placement, withdrawal and drain,
  \<open>Withdrawal\<close> the Client's side, \<open>Visitor_Credit\<close> (\<open>tunnel/credit.rs\<close>) the permits behind stream
  credit.

  \<^bold>\<open>Client addresses.\<close> \<open>Reconnect_Policy\<close>, \<open>Tunnel_Attempt\<close> (\<open>client/tunnel_attempt.rs\<close>),
  \<open>Address_Worker\<close> with its properties and \<open>Worker_Loop\<close> (\<open>client/address_worker.rs\<close>),
  \<open>Assignment_Convergence\<close> and \<open>Address_Controller\<close> with its properties.

  \<^bold>\<open>Managed mode.\<close> \<open>Managed_Input\<close>, \<open>Reconcile\<close>, \<open>Managed_Session\<close> and
  \<open>Managed_Session_Properties\<close> (\<open>managed_session/\<close>): accepted input, the single pending candidate,
  reports and their pacing. \<open>Shutdown\<close> (\<open>shutdown.rs\<close>, \<open>server/drain.rs\<close>, \<open>server/readiness.rs\<close>)
  is shared by all.

  \<^bold>\<open>Bounds.\<close> No fuel is used: every loop is a structural recursion or has its measure. Theorems
  on 64-bit identifiers assume fewer than \<open>2 ^ 64\<close> allocations where the code relies on it.

  \<^bold>\<open>Not modelled.\<close> TLS, QUIC and HTTP/3 themselves; sockets, files and key generation; the
  command line and the rendering of log lines.
\<close>

end
